(* ===== verification/Ava_Prelude.thy ===== *)
theory Ava_Prelude
  imports Main "HOL-Library.Word" "HOL-Library.Multiset"
begin

unbundle bit_operations_syntax

text \<open>
  Shared vocabulary of the development: the machine types of the C sources on an LP64 little-endian
  target, the result type that turns every failed assertion, abort and exit of the sources into a
  value, byte images of machine words, and the memory and file operations (\<open>memcpy\<close> into a block,
  \<open>pwrite\<close>-like overwriting at an offset) that the channels share.
\<close>

section \<open>Machine types\<close>

type_synonym u8 = "8 word"
type_synonym u32 = "32 word"
type_synonym u64 = "64 word"
type_synonym bytes = "u8 list"
type_synonym pointer = "u64"

abbreviation null_ptr :: pointer where "null_ptr \<equiv> 0"

section \<open>Faults and results\<close>

text \<open>
  The sources stop the process by a failed \<open>assert\<close>, by \<open>abort_with_reason\<close>, by \<open>exit\<close>, or run into
  undefined behaviour by a null dereference, an access outside a block, a read of freed memory or a
  second \<open>free\<close>.
\<close>

datatype fault =
    AssertFail string
  | Aborted string
  | ExitProc int
  | NullDeref
  | UseAfterFree
  | DoubleFree
  | OutOfBounds
  | Uninitialised
  | OutOfFuel

type_synonym 'a res = "fault + 'a"

fun rbind :: "'a res \<Rightarrow> ('a \<Rightarrow> 'b res) \<Rightarrow> 'b res" where
  "rbind (Inl e) f = Inl e"
| "rbind (Inr x) f = f x"

definition c_assert :: "bool \<Rightarrow> string \<Rightarrow> unit res" where
  "c_assert b msg = (if b then Inr () else Inl (AssertFail msg))"

named_theorems res_simps \<open>decomposition of successful and failing results\<close>
named_theorems ava_defs \<open>operation definitions that proofs unfold\<close>
named_theorems ava_inv \<open>invariant preservation\<close>

lemma rbind_Inr_iff [res_simps]:
  "rbind m f = Inr y \<longleftrightarrow> (\<exists>x. m = Inr x \<and> f x = Inr y)"
  by (cases m) auto

lemma rbind_Inl_iff [res_simps]:
  "rbind m f = Inl e \<longleftrightarrow> m = Inl e \<or> (\<exists>x. m = Inr x \<and> f x = Inl e)"
  by (cases m) auto

lemma rbind_assoc: "rbind (rbind m f) g = rbind m (\<lambda>x. rbind (f x) g)"
  by (cases m) auto

lemma c_assert_Inr [res_simps]: "c_assert b msg = Inr u \<longleftrightarrow> b"
  by (simp add: c_assert_def)

lemma c_assert_Inl [res_simps]: "c_assert b msg = Inl e \<longleftrightarrow> \<not> b \<and> e = AssertFail msg"
  by (auto simp: c_assert_def)

lemma c_assert_True [simp]: "c_assert True msg = Inr ()"
  by (simp add: c_assert_def)

lemma c_assert_False [simp]: "c_assert False msg = Inl (AssertFail msg)"
  by (simp add: c_assert_def)

section \<open>Little-endian images of machine words\<close>

primrec le_bytes :: "nat \<Rightarrow> 'a::len word \<Rightarrow> bytes" where
  "le_bytes 0 w = []"
| "le_bytes (Suc n) w = ucast w # le_bytes n (drop_bit 8 w)"

primrec le_word :: "bytes \<Rightarrow> 'a::len word" where
  "le_word [] = 0"
| "le_word (b # bs) = ucast b OR push_bit 8 (le_word bs)"

lemma length_le_bytes [simp]: "length (le_bytes n w) = n"
  by (induction n arbitrary: w) auto

lemma le_word_le_bytes: "le_word (le_bytes n w) = take_bit (8 * n) (w :: 'a::len word)"
proof (induction n arbitrary: w)
  case 0
  show ?case by simp
next
  case (Suc n)
  show ?case
  proof (rule bit_word_eqI)
    fix k assume k: "k < LENGTH('a)"
    show "bit (le_word (le_bytes (Suc n) w) :: 'a word) k = bit (take_bit (8 * Suc n) w) k"
      using k by (auto simp: Suc bit_simps)
  qed
qed

lemma le_word_le_bytes_u64 [simp]: "le_word (le_bytes 8 (w :: u64)) = w"
  by (simp add: le_word_le_bytes take_bit_word_eq_self)

lemma le_word_le_bytes_u32 [simp]: "le_word (le_bytes 4 (w :: u32)) = w"
  by (simp add: le_word_le_bytes take_bit_word_eq_self)

section \<open>Arithmetic on machine words\<close>

lemma unat_take_bit: "unat (take_bit n w) = unat w mod 2 ^ n"
  by (simp add: unsigned_take_bit_eq flip: take_bit_eq_mod)

lemma take_bit_small: "unat w < 2 ^ n \<Longrightarrow> take_bit n w = w"
  by (rule unsigned_word_eqI [where ?'a = nat]) (simp add: unat_take_bit)

lemma unat_plus_1: "unat (c :: u64) + 1 < 2 ^ 64 \<Longrightarrow> unat (c + 1) = unat c + 1"
  by (simp add: unat_word_ariths)

lemma unat_plus_small:
  "unat (a :: u64) + unat b < 2 ^ 64 \<Longrightarrow> unat (a + b) = unat a + unat b"
  by (simp add: unat_word_ariths)

lemma unat_plus_63:
  "unat (a :: u64) < 2 ^ 63 \<Longrightarrow> unat b < 2 ^ 63 \<Longrightarrow> unat (a + b) = unat a + unat b"
  by (rule unat_plus_small) simp

lemma u64_less_succ: "(c :: u64) \<noteq> - 1 \<Longrightarrow> c < c + 1"
proof -
  assume "c \<noteq> - 1"
  then have "unat c \<noteq> unat (- 1 :: u64)" by (metis unsigned_word_eqI)
  moreover have "unat (- 1 :: u64) = 2 ^ 64 - 1"
    by (simp add: unsigned_minus_1_eq_mask mask_eq_exp_minus_1)
  moreover have "unat c < 2 ^ 64" by (rule order_less_le_trans [OF unsigned_less]) simp
  ultimately have "unat c + 1 < 2 ^ 64" by linarith
  then show ?thesis by (simp add: word_less_nat_alt unat_plus_1)
qed

section \<open>Blocks of memory and files\<close>

definition slice_at :: "nat \<Rightarrow> nat \<Rightarrow> 'a list \<Rightarrow> 'a list" where
  "slice_at pos n xs = take n (drop pos xs)"

definition splice_at :: "nat \<Rightarrow> bytes \<Rightarrow> bytes \<Rightarrow> bytes" where
  "splice_at pos bs xs = take pos xs @ replicate (pos - length xs) 0 @ bs @ drop (pos + length bs) xs"

lemma length_slice [simp]: "length (slice_at pos n xs) = min n (length xs - pos)"
  by (simp add: slice_at_def)

lemma length_splice_at [simp]:
  "length (splice_at pos bs xs) = max (length xs) (pos + length bs)"
  by (auto simp: splice_at_def)

lemma splice_at_end: "splice_at (length xs) bs xs = xs @ bs"
  by (simp add: splice_at_def)

lemma slice_splice_same: "slice_at pos (length bs) (splice_at pos bs xs) = bs"
  by (simp add: slice_at_def splice_at_def)

lemma splice_at_nth:
  assumes "i < max (length xs) (pos + length bs)"
  shows "splice_at pos bs xs ! i =
    (if pos \<le> i \<and> i < pos + length bs then bs ! (i - pos)
     else if i < length xs then xs ! i else 0)"
proof (cases "pos \<le> length xs")
  case True
  with assms show ?thesis by (auto simp: splice_at_def nth_append min_def)
next
  case False
  with assms show ?thesis by (auto simp: splice_at_def nth_append min_def)
qed

lemma slice_splice_disjoint:
  assumes "p + n \<le> length xs" and "p + n \<le> pos \<or> pos + length bs \<le> p"
  shows "slice_at p n (splice_at pos bs xs) = slice_at p n xs"
proof (rule nth_equalityI)
  show "length (slice_at p n (splice_at pos bs xs)) = length (slice_at p n xs)"
    using assms(1) by simp
next
  fix i assume "i < length (slice_at p n (splice_at pos bs xs))"
  then have i: "i < n" by simp
  with assms have "splice_at pos bs xs ! (p + i) = xs ! (p + i)"
    by (subst splice_at_nth) auto
  with i assms(1) show "slice_at p n (splice_at pos bs xs) ! i = slice_at p n xs ! i"
    by (simp add: slice_at_def)
qed

lemma drop_splice: "p + length bs \<le> k \<Longrightarrow> p \<le> length xs \<Longrightarrow> drop k (splice_at p bs xs) = drop k xs"
  by (simp add: splice_at_def)

lemma take_splice: "k \<le> p \<Longrightarrow> p \<le> length xs \<Longrightarrow> take k (splice_at p bs xs) = take k xs"
  by (simp add: splice_at_def)

lemma slice_append_left: "p + n \<le> length xs \<Longrightarrow> slice_at p n (xs @ ys) = slice_at p n xs"
  by (simp add: slice_at_def)

lemma slice_append_right: "length xs \<le> p \<Longrightarrow> slice_at p n (xs @ ys) = slice_at (p - length xs) n ys"
  by (simp add: slice_at_def)

lemma slice_append_exact: "slice_at (length xs) (length ys) (xs @ ys @ zs) = ys"
  by (simp add: slice_at_def)

lemma slice_all: "slice_at 0 (length xs) xs = xs"
  by (simp add: slice_at_def)

end
