(* ===== verification/Id_Gen.thy ===== *)
theory Id_Gen
  imports Ava_Prelude
begin

text \<open>
  The handle and buffer identifier generator at the top of \<open>common/endpoint_lib.c\<close>: a global atomic
  counter, a four bit tag that separates the guest's identifiers from the worker's, and the 24 bit
  prefix that marks a value as an AvA handle. \<open>update_next_id\<close> moves the counter when a recorded
  identifier is assigned during replay.
\<close>

section \<open>The generator\<close>

definition counter_count_shift :: nat where
  "counter_count_shift = 4"

definition counter_count_min :: u64 where
  "counter_count_min = 1024 div push_bit counter_count_shift 1"

definition counter_count_prefix :: u64 where
  "counter_count_prefix = push_bit 40 0xffffff"

record id_gen =
  global_counter :: u64
  global_counter_tag :: u64

text \<open>The initial values of the two statics.\<close>

definition id_gen_init :: id_gen where
  "id_gen_init = \<lparr>global_counter = counter_count_min, global_counter_tag = 0\<rparr>"

lemma counter_count_min_val [simp]: "counter_count_min = 64"
  by (simp add: counter_count_min_def counter_count_shift_def)

text \<open>The loop around \<open>atomic_fetch_add\<close>: the value taken and the counter left behind.\<close>

function next_count :: "u64 \<Rightarrow> u64 \<times> u64" where
  "next_count c = (if c < counter_count_min then next_count (c + 1) else (c, c + 1))"
  by pat_completeness auto

termination
proof (relation "measure (\<lambda>c. 64 - unat c)")
  fix c :: u64
  assume c: "c < counter_count_min"
  then have "unat c < 64" by (simp add: word_less_nat_alt)
  moreover have "unat (c + 1) = unat c + 1"
    using \<open>unat c < 64\<close> by (simp add: unat_word_ariths)
  ultimately show "(c + 1, c) \<in> measure (\<lambda>c. 64 - unat c)" by simp
qed simp

declare next_count.simps [simp del]

definition make_id :: "u64 \<Rightarrow> u64 \<Rightarrow> pointer" where
  "make_id tag n = push_bit counter_count_shift n OR tag OR counter_count_prefix"

definition next_id :: "id_gen \<Rightarrow> pointer \<times> id_gen" where
  "next_id g = (let (n, c) = next_count (global_counter g)
                in (make_id (global_counter_tag g) n, g\<lparr>global_counter := c\<rparr>))"

text \<open>The value \<open>update_next_id\<close> computes from the assigned identifier.\<close>

definition next_id_target :: "u64 \<Rightarrow> u64" where
  "next_id_target v = (drop_bit counter_count_shift v + 1) AND NOT counter_count_prefix"

definition update_next_id :: "u64 \<Rightarrow> id_gen \<Rightarrow> id_gen" where
  "update_next_id v g = (let v' = next_id_target v; old = global_counter g
                         in if old < v' then g\<lparr>global_counter := v'\<rparr> else g)"

definition is_handle :: "pointer \<Rightarrow> bool" where
  "is_handle i = ((i AND counter_count_prefix) XOR counter_count_prefix = 0)"

section \<open>Bit structure of identifiers\<close>

definition id_count :: "pointer \<Rightarrow> u64" where
  "id_count i = take_bit 36 (drop_bit counter_count_shift i)"

lemma bit_prefix: "bit counter_count_prefix k \<longleftrightarrow> 40 \<le> k \<and> k < 64"
proof -
  have *: "counter_count_prefix = push_bit 40 (mask 24)"
    by (simp add: counter_count_prefix_def mask_eq_exp_minus_1)
  show ?thesis by (simp only: * bit_push_bit_iff bit_mask_iff possible_bit_word) auto
qed

lemma is_handle_bits: "is_handle i \<longleftrightarrow> (\<forall>k. 40 \<le> k \<and> k < 64 \<longrightarrow> bit i k)"
  by (auto simp: is_handle_def bit_eq_iff bit_simps bit_prefix)

lemma bit_make_id:
  "bit (make_id t n) k \<longleftrightarrow> k < 64 \<and> (bit t k \<or> 40 \<le> k \<or> (4 \<le> k \<and> bit n (k - 4)))"
  by (auto simp: make_id_def counter_count_shift_def bit_simps bit_prefix dest: bit_imp_le_length)

lemma make_id_is_handle [simp]: "is_handle (make_id t n)"
  by (simp add: is_handle_bits bit_make_id)

lemma make_id_nonzero [simp]: "make_id t n \<noteq> 0"
proof
  assume "make_id t n = 0"
  then have "bit (make_id t n) 40 = bit (0 :: u64) 40" by simp
  then show False by (simp add: bit_make_id)
qed

lemma tag_bits: "(t :: u64) < 16 \<Longrightarrow> bit t k \<Longrightarrow> k < 4"
proof -
  assume t: "t < 16" and b: "bit t k"
  have "take_bit 4 t = t"
    using t by (intro take_bit_small) (simp add: word_less_nat_alt)
  with b show "k < 4" by (metis bit_take_bit_iff)
qed

lemma id_tag_make_id: "t < 16 \<Longrightarrow> take_bit 4 (make_id t n) = t"
  by (rule bit_word_eqI) (auto simp: bit_make_id bit_simps dest: tag_bits)

lemma id_count_make_id: "t < 16 \<Longrightarrow> id_count (make_id t n) = take_bit 36 n"
proof (rule bit_word_eqI)
  fix k assume t: "t < 16" and k: "k < LENGTH(64)"
  have "\<not> bit t (4 + k)" using tag_bits [OF t] by fastforce
  then show "bit (id_count (make_id t n)) k = bit (take_bit 36 n) k"
    by (auto simp: id_count_def counter_count_shift_def bit_simps bit_make_id)
qed

lemma make_id_eq_iff:
  assumes "t < 16" and "t' < 16"
  shows "make_id t n = make_id t' n' \<longleftrightarrow> t = t' \<and> take_bit 36 n = take_bit 36 n'"
proof
  assume "make_id t n = make_id t' n'"
  then show "t = t' \<and> take_bit 36 n = take_bit 36 n'"
    using assms by (metis id_tag_make_id id_count_make_id)
next
  assume eq: "t = t' \<and> take_bit 36 n = take_bit 36 n'"
  then have n: "bit n j = bit n' j" if "j < 36" for j
    using that by (metis bit_take_bit_iff)
  show "make_id t n = make_id t' n'"
  proof (rule bit_word_eqI)
    fix k assume "k < LENGTH(64)"
    show "bit (make_id t n) k = bit (make_id t' n') k"
      using eq n [of "k - 4"] by (cases "k < 40") (auto simp: bit_make_id)
  qed
qed

lemma next_id_nonzero: "fst (next_id g) \<noteq> 0"
  by (simp add: next_id_def case_prod_beta Let_def)

lemma next_id_is_handle: "is_handle (fst (next_id g))"
  by (simp add: next_id_def case_prod_beta Let_def)

lemma next_id_tag: "global_counter_tag g < 16 \<Longrightarrow> take_bit 4 (fst (next_id g)) = global_counter_tag g"
  by (simp add: next_id_def case_prod_beta Let_def id_tag_make_id)

lemma next_id_keeps_tag: "global_counter_tag (snd (next_id g)) = global_counter_tag g"
  by (simp add: next_id_def case_prod_beta Let_def)

section \<open>Freshness as an interface\<close>

text \<open>
  What the handle pool and the shadow buffer table rely on: a source that can still deliver \<open>n\<close>
  identifiers outside a set of identifiers in use. \<open>draw\<close> takes several identifiers in a row.
\<close>

primrec draw :: "('g \<Rightarrow> 'i \<times> 'g) \<Rightarrow> nat \<Rightarrow> 'g \<Rightarrow> 'i list \<times> 'g" where
  "draw nxt 0 g = ([], g)"
| "draw nxt (Suc n) g = (let (i, g') = nxt g; (is, g'') = draw nxt n g' in (i # is, g''))"

locale id_source =
  fixes nxt :: "'g \<Rightarrow> 'i \<times> 'g"
    and fresh :: "'i set \<Rightarrow> nat \<Rightarrow> 'g \<Rightarrow> bool"
  assumes nxt_notin: "fresh S (Suc n) g \<Longrightarrow> fst (nxt g) \<notin> S"
    and nxt_step: "fresh S (Suc n) g \<Longrightarrow> fresh (insert (fst (nxt g)) S) n (snd (nxt g))"
    and fresh_antimono: "fresh S n g \<Longrightarrow> S' \<subseteq> S \<Longrightarrow> fresh S' n g"
begin

lemma draw_fresh:
  "fresh S n g \<Longrightarrow> distinct (fst (draw nxt n g)) \<and> set (fst (draw nxt n g)) \<inter> S = {}"
proof (induction n arbitrary: S g)
  case 0
  then show ?case by simp
next
  case (Suc n)
  obtain i g' where nx: "nxt g = (i, g')" by fastforce
  obtain js g'' where d: "draw nxt n g' = (js, g'')" by fastforce
  have i: "i \<notin> S" using nxt_notin [OF Suc.prems] nx by simp
  have "fresh (insert i S) n g'" using nxt_step [OF Suc.prems] nx by simp
  from Suc.IH [OF this] have "distinct js" "set js \<inter> insert i S = {}" using d by simp_all
  with i nx d show ?case by auto
qed

lemma draw_length: "length (fst (draw nxt n g)) = n"
  by (induction n arbitrary: g) (auto simp: Let_def case_prod_beta)

end

text \<open>
  Freshness for the generator: the identifiers in use that carry this endpoint's tag all have a
  count below the low 36 bits of the counter, and \<open>n\<close> more steps stay inside those 36 bits.
\<close>

definition id_fresh :: "pointer set \<Rightarrow> nat \<Rightarrow> id_gen \<Rightarrow> bool" where
  "id_fresh S n g \<longleftrightarrow>
     global_counter_tag g < 16 \<and> 64 \<le> global_counter g \<and>
     unat (take_bit 36 (global_counter g)) + n < 2 ^ 36 \<and>
     (\<forall>i\<in>S. take_bit 4 i = global_counter_tag g \<longrightarrow>
        unat (id_count i) < unat (take_bit 36 (global_counter g)))"

lemma next_count_ge: "64 \<le> c \<Longrightarrow> next_count c = (c, c + 1)"
  by (subst next_count.simps) (auto simp flip: not_le)

lemma next_id_ge:
  "64 \<le> global_counter g \<Longrightarrow>
   next_id g = (make_id (global_counter_tag g) (global_counter g),
                g\<lparr>global_counter := global_counter g + 1\<rparr>)"
  by (simp add: next_id_def next_count_ge)

lemma counter_step:
  assumes "unat (take_bit 36 (c :: u64)) + 1 < 2 ^ 36"
  shows "unat (take_bit 36 (c + 1)) = unat (take_bit 36 c) + 1" and "unat (c + 1) = unat c + 1"
proof -
  have m: "unat c mod 2 ^ 36 + 1 < 2 ^ 36" using assms by (simp add: unat_take_bit)
  have "unat c < 2 ^ 64" by (rule order_less_le_trans [OF unsigned_less]) simp
  with m have lt: "unat c + 1 < 2 ^ 64" by (cases "unat c = 2 ^ 64 - 1") auto
  then show *: "unat (c + 1) = unat c + 1" by (rule unat_plus_1)
  show "unat (take_bit 36 (c + 1)) = unat (take_bit 36 c) + 1"
    using m by (simp add: unat_take_bit * mod_Suc)
qed

lemma id_fresh_notin: "id_fresh S (Suc n) g \<Longrightarrow> fst (next_id g) \<notin> S"
  by (auto simp: id_fresh_def next_id_ge id_tag_make_id id_count_make_id)

lemma id_fresh_step:
  assumes "id_fresh S (Suc n) g"
  shows "id_fresh (insert (fst (next_id g)) S) n (snd (next_id g))"
proof -
  let ?c = "global_counter g"
  from assms have c: "64 \<le> ?c" "unat (take_bit 36 ?c) + 1 < 2 ^ 36" "global_counter_tag g < 16"
    by (auto simp: id_fresh_def)
  note st = counter_step [OF c(2)]
  have "64 \<le> ?c + 1" using c(1) st(2) by (simp add: word_le_nat_alt)
  with assms c st show ?thesis
    by (auto simp: id_fresh_def next_id_ge id_tag_make_id id_count_make_id)
qed

lemma id_fresh_antimono: "id_fresh S n g \<Longrightarrow> S' \<subseteq> S \<Longrightarrow> id_fresh S' n g"
  by (auto simp: id_fresh_def)

lemma id_fresh_mono_n: "id_fresh S n g \<Longrightarrow> m \<le> n \<Longrightarrow> id_fresh S m g"
  by (auto simp: id_fresh_def)

interpretation ids: id_source next_id id_fresh
  by unfold_locales (auto dest: id_fresh_notin intro: id_fresh_step id_fresh_antimono)

section \<open>Moving the counter during replay\<close>

lemma drop_bit_handle:
  assumes "is_handle i"
  shows "drop_bit 4 i = id_count i + push_bit 36 (mask 24)"
proof -
  have "id_count i + push_bit 36 (mask 24) = id_count i OR push_bit 36 (mask 24)"
    by (rule disjunctive_add)
      (simp only: id_count_def bit_take_bit_iff bit_push_bit_iff bit_mask_iff, auto)
  also have "\<dots> = drop_bit 4 i"
  proof (rule bit_word_eqI)
    fix k assume "k < LENGTH(64)"
    then show "bit (id_count i OR push_bit 36 (mask 24)) k = bit (drop_bit 4 i) k"
      using assms by (cases "k < 36")
        (simp_all only: id_count_def counter_count_shift_def bit_take_bit_iff bit_push_bit_iff
          bit_mask_iff bit_or_iff bit_drop_bit_eq is_handle_bits possible_bit_word, auto dest: bit_imp_le_length)
  qed
  finally show ?thesis by simp
qed

lemma and_not_prefix: "x AND NOT counter_count_prefix = take_bit 40 x"
  by (rule bit_word_eqI) (auto simp: bit_simps bit_prefix)

text \<open>
  The prefix is removed after the shift by four, so four of its bits survive below bit 40: the value
  the counter is moved to lies in the block that starts at \<open>15 * 2 ^ 36\<close>.
\<close>

lemma unat_next_id_target:
  assumes "is_handle i" and k: "unat (id_count i) + 1 < 2 ^ 36"
  shows "unat (next_id_target i) = 15 * 2 ^ 36 + unat (id_count i) + 1"
proof -
  have p: "(push_bit 36 (mask 24) :: u64) = 0xffffff000000000"
    by (simp add: mask_eq_exp_minus_1)
  have "unat (drop_bit 4 i + 1) = unat (id_count i) + 0xffffff000000000 + 1"
    using k by (simp add: drop_bit_handle [OF assms(1)] p unat_word_ariths)
  also have "\<dots> = 0xfffff * 2 ^ 40 + (15 * 2 ^ 36 + unat (id_count i) + 1)" by simp
  finally have "unat (next_id_target i) = (15 * 2 ^ 36 + unat (id_count i) + 1) mod 2 ^ 40"
    by (simp only: next_id_target_def counter_count_shift_def and_not_prefix unat_take_bit mod_mult_self3)
  also have "\<dots> = 15 * 2 ^ 36 + unat (id_count i) + 1" using k by (intro mod_less) simp
  finally show ?thesis .
qed

lemma update_next_id_tag [simp]: "global_counter_tag (update_next_id v g) = global_counter_tag g"
  by (simp add: update_next_id_def Let_def)

lemma update_next_id_counter:
  "unat (global_counter (update_next_id v g)) =
     max (unat (global_counter g)) (unat (next_id_target v))"
  by (auto simp: update_next_id_def Let_def word_less_nat_alt)

text \<open>The generator once a recorded identifier has been assigned: all identifiers in use are below
  the counter's place in the surviving block.\<close>

definition replaying :: "pointer set \<Rightarrow> nat \<Rightarrow> id_gen \<Rightarrow> bool" where
  "replaying S m g \<longleftrightarrow> global_counter_tag g < 16 \<and> unat (global_counter g) = 15 * 2 ^ 36 + m \<and>
     (\<forall>i\<in>S. unat (id_count i) < m)"

lemma replaying_id_fresh: "replaying S m g \<Longrightarrow> m + n < 2 ^ 36 \<Longrightarrow> id_fresh S n g"
proof -
  assume r: "replaying S m g" and n: "m + n < 2 ^ 36"
  then have "unat (take_bit 36 (global_counter g)) = m mod 2 ^ 36"
    by (simp only: replaying_def unat_take_bit mod_mult_self3)
  with n have "unat (take_bit 36 (global_counter g)) = m" by simp
  with r n show ?thesis by (auto simp: replaying_def id_fresh_def word_le_nat_alt)
qed

lemma replaying_update:
  assumes "replaying S m g" and "is_handle i" and "unat (id_count i) + 1 < 2 ^ 36"
  shows "replaying (insert i S) (max m (unat (id_count i) + 1)) (update_next_id i g)"
  using assms by (auto simp: replaying_def update_next_id_counter unat_next_id_target max_def)

lemma replaying_start:
  assumes "unat (global_counter g) < 15 * 2 ^ 36" and "global_counter_tag g < 16"
    and "is_handle i" and "unat (id_count i) + 1 < 2 ^ 36"
  shows "replaying {i} (unat (id_count i) + 1) (update_next_id i g)"
  using assms by (auto simp: replaying_def update_next_id_counter unat_next_id_target)

section \<open>Concurrent use of the counter\<close>

text \<open>
  The counter is shared by all threads of an endpoint. A thread is idle, spinning in the
  \<open>atomic_fetch_add\<close> loop of \<open>next_id\<close>, about to load the counter in \<open>update_next_id\<close>, or about to
  run the compare and exchange with the value it loaded. \<open>taken\<close> collects the values the loop of
  \<open>next_id\<close> returned, newest first.
\<close>

datatype id_pc = Idle | Spin | Load u64 | Cas u64 u64

record id_sys =
  ctr :: u64
  pcs :: "nat \<Rightarrow> id_pc"
  taken :: "u64 list"

inductive id_step :: "id_sys \<Rightarrow> id_sys \<Rightarrow> bool" where
  start_next: "pcs s i = Idle \<Longrightarrow> id_step s (s\<lparr>pcs := (pcs s)(i := Spin)\<rparr>)"
| fetch_skip: "pcs s i = Spin \<Longrightarrow> ctr s < counter_count_min \<Longrightarrow> id_step s (s\<lparr>ctr := ctr s + 1\<rparr>)"
| fetch_take: "pcs s i = Spin \<Longrightarrow> \<not> ctr s < counter_count_min \<Longrightarrow>
    id_step s (s\<lparr>ctr := ctr s + 1, pcs := (pcs s)(i := Idle), taken := ctr s # taken s\<rparr>)"
| start_update: "pcs s i = Idle \<Longrightarrow> id_step s (s\<lparr>pcs := (pcs s)(i := Load (next_id_target v))\<rparr>)"
| load_done: "pcs s i = Load v \<Longrightarrow> \<not> ctr s < v \<Longrightarrow> id_step s (s\<lparr>pcs := (pcs s)(i := Idle)\<rparr>)"
| load_below: "pcs s i = Load v \<Longrightarrow> ctr s < v \<Longrightarrow> id_step s (s\<lparr>pcs := (pcs s)(i := Cas v (ctr s))\<rparr>)"
| cas_swap: "pcs s i = Cas v old \<Longrightarrow> ctr s = old \<Longrightarrow>
    id_step s (s\<lparr>ctr := v, pcs := (pcs s)(i := Idle)\<rparr>)"
| cas_retry: "pcs s i = Cas v old \<Longrightarrow> ctr s \<noteq> old \<Longrightarrow> id_step s (s\<lparr>pcs := (pcs s)(i := Load v)\<rparr>)"

definition id_sys_init :: "id_sys" where
  "id_sys_init = \<lparr>ctr = counter_count_min, pcs = (\<lambda>_. Idle), taken = []\<rparr>"

text \<open>Runs in which the 64 bit counter has not wrapped around.\<close>

inductive id_reach :: "id_sys \<Rightarrow> bool" where
  reach_init: "id_reach id_sys_init"
| reach_step: "id_reach s \<Longrightarrow> id_step s t \<Longrightarrow> ctr s \<noteq> - 1 \<Longrightarrow> id_reach t"

definition id_sys_inv :: "id_sys \<Rightarrow> bool" where
  "id_sys_inv s \<longleftrightarrow> distinct (taken s) \<and> (\<forall>n\<in>set (taken s). counter_count_min \<le> n \<and> n < ctr s) \<and>
     (\<forall>i v old. pcs s i = Cas v old \<longrightarrow> old < v)"

lemma id_sys_inv_init: "id_sys_inv id_sys_init"
  by (simp add: id_sys_inv_def id_sys_init_def)

lemma id_sys_inv_step: "id_step s t \<Longrightarrow> ctr s \<noteq> - 1 \<Longrightarrow> id_sys_inv s \<Longrightarrow> id_sys_inv t"
proof (induction rule: id_step.induct)
  case (fetch_skip s i)
  then have "ctr s < ctr s + 1" by (simp add: u64_less_succ)
  with fetch_skip show ?case by (fastforce simp: id_sys_inv_def intro: less_trans)
next
  case (fetch_take s i)
  then have "ctr s < ctr s + 1" by (simp add: u64_less_succ)
  with fetch_take show ?case by (fastforce simp: id_sys_inv_def not_less intro: less_trans split: if_splits)
next
  case (cas_swap s i v old)
  then have "ctr s < v" by (auto simp: id_sys_inv_def)
  with cas_swap show ?case by (fastforce simp: id_sys_inv_def intro: less_trans split: if_splits)
qed (auto simp: id_sys_inv_def split: if_splits)

lemma id_reach_inv: "id_reach s \<Longrightarrow> id_sys_inv s"
  by (induction rule: id_reach.induct) (auto intro: id_sys_inv_init id_sys_inv_step)

section \<open>Properties\<close>

text \<open>C16: Threads that run \<open>next_id\<close> and \<open>update_next_id\<close> concurrently, in any interleaving of their
  atomic operations, never take the same counter value twice, and every value taken is below the
  counter and at least the minimum.\<close>

theorem concurrent_counts_distinct:
  assumes "id_reach s"
  shows "distinct (taken s) \<and> (\<forall>n\<in>set (taken s). counter_count_min \<le> n \<and> n < ctr s)"
  using id_reach_inv [OF assms] by (simp add: id_sys_inv_def)

lemma reach_two_threads:
  "id_reach \<lparr>ctr = 65, pcs = (\<lambda>_. Idle)(0 := Idle, 1 := Spin), taken = [64]\<rparr>"
proof -
  let ?s1 = "\<lparr>ctr = 64, pcs = (\<lambda>_. Idle)(0 := Spin), taken = []\<rparr>"
  let ?s2 = "\<lparr>ctr = 64, pcs = (\<lambda>_. Idle)(0 := Spin, 1 := Spin), taken = []\<rparr>"
  have "id_step id_sys_init ?s1"
    using start_next [of id_sys_init 0] by (simp add: id_sys_init_def)
  then have 1: "id_reach ?s1" by (intro reach_step [OF reach_init]) (simp_all add: id_sys_init_def)
  have "id_step ?s1 ?s2" using start_next [of ?s1 1] by simp
  from reach_step [OF 1 this] have 2: "id_reach ?s2" by simp
  have "id_step ?s2 \<lparr>ctr = 65, pcs = (\<lambda>_. Idle)(0 := Idle, 1 := Spin), taken = [64]\<rparr>"
    using fetch_take [of ?s2 0] by (simp add: fun_upd_twist)
  from reach_step [OF 2 this] show ?thesis by simp
qed

theorem concurrent_counts_distinct_witness:
  "distinct (taken \<lparr>ctr = 65, pcs = (\<lambda>_. Idle)(0 := Idle, 1 := Spin), taken = [64]\<rparr>) \<and>
   counter_count_min \<le> 64 \<and> (64 :: u64) < 65"
  using concurrent_counts_distinct [OF reach_two_threads] by simp

text \<open>Identifiers drawn in a row are pairwise distinct, outside the set in use, recognised by
  \<open>is_handle\<close>, and carry the endpoint's tag, so two endpoints with different tags never issue the same
  identifier.\<close>

theorem draw_next_id_distinct:
  assumes "id_fresh S n g"
  shows "distinct (fst (draw next_id n g)) \<and> set (fst (draw next_id n g)) \<inter> S = {} \<and>
    (\<forall>i\<in>set (fst (draw next_id n g)). is_handle i \<and> take_bit 4 i = global_counter_tag g)"
proof -
  have t: "global_counter_tag g < 16" using assms by (simp add: id_fresh_def)
  have "\<forall>i\<in>set (fst (draw next_id n g')). is_handle i \<and> take_bit 4 i = global_counter_tag g'"
    if "global_counter_tag g' < 16" for n g'
    using that
  proof (induction n arbitrary: g')
    case (Suc n)
    then show ?case
      using Suc.IH [of "snd (next_id g')"] next_id_is_handle [of g']
      by (simp add: Let_def case_prod_beta next_id_tag next_id_keeps_tag)
  qed simp
  with t ids.draw_fresh [OF assms] show ?thesis by blast
qed

theorem draw_next_id_distinct_witness:
  "fst (draw next_id 3 \<lparr>global_counter = 64, global_counter_tag = 1\<rparr>) = [make_id 1 64, make_id 1 65, make_id 1 66] \<and>
   distinct [make_id 1 64, make_id 1 65, make_id 1 66] \<and>
   set [make_id 1 64, make_id 1 65, make_id 1 66] \<inter> {make_id 1 63} = {} \<and>
   is_handle (make_id 1 66) \<and> take_bit 4 (make_id 1 66) = 1"
proof -
  let ?g = "\<lparr>global_counter = 64, global_counter_tag = 1\<rparr>"
  have d: "fst (draw next_id 3 ?g) = [make_id 1 64, make_id 1 65, make_id 1 66]"
    by (simp add: numeral_3_eq_3 next_id_ge)
  have f: "id_fresh {make_id 1 63} 3 ?g" by (simp add: id_fresh_def id_count_make_id)
  show ?thesis using draw_next_id_distinct [OF f] unfolding d by simp
qed

end
