(* ===== verification/Handle_Pool.thy ===== *)
theory Handle_Pool
  imports Id_Gen
begin

text \<open>
  The handle pool of \<open>common/endpoint_lib.c\<close>: two hash tables between the native handles of the API
  library and the identifiers that cross the channel. A \<open>GHashTable\<close> is a partial map whose lookup
  answers \<open>NULL\<close> for an absent key, whose insert answers whether the key was new, and whose remove
  answers whether the key was there. Every operation runs under the pool's mutex and is one step of
  the model. A pool pointer that may be \<open>NULL\<close> is an \<open>option\<close>.
\<close>

section \<open>Hash tables\<close>

type_synonym 'v ghash = "pointer \<rightharpoonup> 'v"

definition g_hash_table_lookup :: "pointer ghash \<Rightarrow> pointer \<Rightarrow> pointer" where
  "g_hash_table_lookup t k = (case t k of None \<Rightarrow> null_ptr | Some v \<Rightarrow> v)"

text \<open>\<open>nw_hash_table_remove_flipped\<close>: whether the key was present, and the table without it.\<close>

definition nw_hash_table_remove_flipped :: "pointer \<Rightarrow> 'v ghash \<Rightarrow> bool \<times> 'v ghash" where
  "nw_hash_table_remove_flipped k t = (t k \<noteq> None, t(k := None))"

text \<open>\<open>nw_hash_table_steal_value\<close>: look the value up, remove the key, and answer \<open>NULL\<close> if it was
  absent.\<close>

definition nw_hash_table_steal_value :: "pointer ghash \<Rightarrow> pointer \<Rightarrow> (pointer \<times> pointer ghash) res" where
  "nw_hash_table_steal_value t k =
     (let v = g_hash_table_lookup t k; b = (t k \<noteq> None); t' = t(k := None)
      in if \<not> b then Inr (null_ptr, t')
         else rbind (c_assert (v \<noteq> null_ptr) ''value != NULL'') (\<lambda>_. Inr (v, t')))"

section \<open>The pool\<close>

record nw_handle_pool =
  to_handle :: "pointer ghash"
  to_id :: "pointer ghash"

type_synonym pool_ref = "nw_handle_pool option"

definition nw_handle_pool_new :: "nw_handle_pool" where
  "nw_handle_pool_new = \<lparr>to_handle = Map.empty, to_id = Map.empty\<rparr>"

definition nw_handle_pool_free :: "pool_ref \<Rightarrow> pool_ref res" where
  "nw_handle_pool_free p = (case p of None \<Rightarrow> Inl NullDeref | Some _ \<Rightarrow> Inr None)"

definition internal_handle_pool_insert ::
  "nw_handle_pool \<Rightarrow> pointer \<Rightarrow> id_gen \<Rightarrow> (pointer \<times> nw_handle_pool \<times> id_gen) res" where
  "internal_handle_pool_insert pool h g =
     (let (i, g') = next_id g
      in rbind (c_assert (to_id pool h = None) ''handle already exists'') (\<lambda>_.
         rbind (c_assert (to_handle pool i = None) ''id already exists'') (\<lambda>_.
         Inr (i, pool\<lparr>to_id := (to_id pool)(h \<mapsto> i), to_handle := (to_handle pool)(i \<mapsto> h)\<rparr>, g'))))"

definition nw_handle_pool_insert ::
  "pool_ref \<Rightarrow> pointer \<Rightarrow> id_gen \<Rightarrow> (pointer \<times> pool_ref \<times> id_gen) res" where
  "nw_handle_pool_insert p h g =
     (case p of None \<Rightarrow> Inr (h, None, g)
      | Some pool \<Rightarrow>
          if h = null_ptr then Inr (h, p, g)
          else rbind (internal_handle_pool_insert pool h g) (\<lambda>(i, pool', g'). Inr (i, Some pool', g')))"

definition nw_handle_pool_lookup_or_insert ::
  "pool_ref \<Rightarrow> pointer \<Rightarrow> id_gen \<Rightarrow> (pointer \<times> pool_ref \<times> id_gen) res" where
  "nw_handle_pool_lookup_or_insert p h g =
     (case p of None \<Rightarrow> Inr (h, None, g)
      | Some pool \<Rightarrow>
          if h = null_ptr then Inr (h, p, g)
          else let i = g_hash_table_lookup (to_id pool) h
               in if i = null_ptr
                  then rbind (internal_handle_pool_insert pool h g)
                         (\<lambda>(i, pool', g'). Inr (i, Some pool', g'))
                  else Inr (i, p, g))"

text \<open>The order in which \<open>g_hash_table_iter_next\<close> visits the keys is GLib's: it is the parameter
  \<open>ht_keys\<close>, of which only \<open>iter_order\<close> is known.\<close>

definition iter_order :: "('v ghash \<Rightarrow> pointer list) \<Rightarrow> bool" where
  "iter_order ht_keys \<longleftrightarrow> (\<forall>t. finite (dom t) \<longrightarrow> distinct (ht_keys t) \<and> set (ht_keys t) = dom t)"

definition nw_handle_pool_get_live_handles ::
  "(pointer ghash \<Rightarrow> pointer list) \<Rightarrow> nw_handle_pool \<Rightarrow> pointer list" where
  "nw_handle_pool_get_live_handles ht_keys pool =
     foldl (\<lambda>ret key. ret @ [key]) [] (ht_keys (to_id pool))"

definition nw_handle_pool_deref :: "pool_ref \<Rightarrow> pointer \<Rightarrow> pointer res" where
  "nw_handle_pool_deref p i =
     (case p of None \<Rightarrow> Inr i
      | Some pool \<Rightarrow>
          if i = null_ptr \<or> \<not> is_handle i then Inr i
          else let h = g_hash_table_lookup (to_handle pool) i
               in rbind (c_assert (h \<noteq> null_ptr) ''handle != NULL'') (\<lambda>_. Inr h))"

definition nw_handle_pool_deref_and_remove :: "pool_ref \<Rightarrow> pointer \<Rightarrow> (pointer \<times> pool_ref) res" where
  "nw_handle_pool_deref_and_remove p i =
     (case p of None \<Rightarrow> Inr (i, None)
      | Some pool \<Rightarrow>
          if i = null_ptr then Inr (i, p)
          else rbind (nw_hash_table_steal_value (to_handle pool) i) (\<lambda>(h, th).
               rbind (c_assert (h \<noteq> null_ptr) ''handle != NULL'') (\<lambda>_.
               let (b, ti) = nw_hash_table_remove_flipped h (to_id pool)
               in if \<not> b then Inl (Aborted ''g_hash_table_remove(pool->to_id, handle)'')
                  else Inr (h, Some (pool\<lparr>to_handle := th, to_id := ti\<rparr>)))))"

definition nw_handle_pool_assign_handle ::
  "pool_ref \<Rightarrow> pointer \<Rightarrow> pointer \<Rightarrow> id_gen \<Rightarrow> (pool_ref \<times> id_gen) res" where
  "nw_handle_pool_assign_handle p i h g =
     rbind (c_assert ((i = null_ptr) = (h = null_ptr))
              ''Either id and handle must be NULL or neither'') (\<lambda>_.
     case p of None \<Rightarrow> Inr (None, g)
      | Some pool \<Rightarrow>
          if i = null_ptr then Inr (p, g)
          else let g' = update_next_id i g;
                   old_handle = g_hash_table_lookup (to_handle pool) i
               in rbind (c_assert (old_handle = null_ptr \<or> old_handle = h)
                    ''Handle ID assigned to a different handle during replay'') (\<lambda>_.
                  let pool1 = pool\<lparr>to_id := (to_id pool)(h \<mapsto> i)\<rparr>;
                      pool2 = (if old_handle = null_ptr
                               then pool1\<lparr>to_handle := (to_handle pool1)(i \<mapsto> h)\<rparr> else pool1)
                  in Inr (Some pool2, g')))"

section \<open>Invariant\<close>

text \<open>
  No key and no value of either table is \<open>NULL\<close>, and an identifier recorded for a handle leads back
  to that handle. The other direction fails once replay has given a reused handle a second
  identifier, which \<open>nw_handle_pool_assign_handle\<close> allows on purpose.
\<close>

definition pool_inv :: "nw_handle_pool \<Rightarrow> bool" where
  "pool_inv pool \<longleftrightarrow>
     (\<forall>h i. to_id pool h = Some i \<longrightarrow> h \<noteq> null_ptr \<and> i \<noteq> null_ptr \<and> to_handle pool i = Some h) \<and>
     (\<forall>i h. to_handle pool i = Some h \<longrightarrow> i \<noteq> null_ptr \<and> h \<noteq> null_ptr) \<and>
     finite (dom (to_handle pool))"

text \<open>The pool as a partial bijection, the contract \<open>nw_handle_pool_insert\<close> and removal keep.\<close>

definition pool_bij :: "nw_handle_pool \<Rightarrow> bool" where
  "pool_bij pool \<longleftrightarrow> pool_inv pool \<and> (\<forall>i h. to_handle pool i = Some h \<longrightarrow> to_id pool h = Some i)"

lemmas pool_op_defs [ava_defs] =
  internal_handle_pool_insert_def nw_handle_pool_insert_def nw_handle_pool_lookup_or_insert_def
  nw_handle_pool_deref_def nw_handle_pool_deref_and_remove_def nw_handle_pool_assign_handle_def
  nw_hash_table_steal_value_def nw_hash_table_remove_flipped_def g_hash_table_lookup_def

lemma pool_inv_new: "pool_inv nw_handle_pool_new"
  by (simp add: pool_inv_def nw_handle_pool_new_def)

lemma pool_bij_new: "pool_bij nw_handle_pool_new"
  by (simp add: pool_bij_def pool_inv_new) (simp add: nw_handle_pool_new_def)

lemma internal_insert_Inr:
  assumes "internal_handle_pool_insert pool h g = Inr (i, pool', g')"
  shows "i = fst (next_id g)" "g' = snd (next_id g)" "to_id pool h = None" "to_handle pool i = None"
    "pool' = pool\<lparr>to_id := (to_id pool)(h \<mapsto> i), to_handle := (to_handle pool)(i \<mapsto> h)\<rparr>"
  using assms by (auto simp: internal_handle_pool_insert_def res_simps split: prod.splits)

lemma internal_insert_inv:
  assumes "pool_inv pool" "h \<noteq> null_ptr" "internal_handle_pool_insert pool h g = Inr (i, pool', g')"
  shows "pool_inv pool'"
  using assms(1,2) next_id_nonzero [of g] internal_insert_Inr [OF assms(3)]
  by (auto simp: pool_inv_def split: if_splits)

lemma internal_insert_bij:
  assumes "pool_bij pool" "h \<noteq> null_ptr" "internal_handle_pool_insert pool h g = Inr (i, pool', g')"
  shows "pool_bij pool'"
  using assms(1) internal_insert_inv [OF _ assms(2,3)] internal_insert_Inr [OF assms(3)]
  by (auto simp: pool_bij_def split: if_splits)

lemma lookup_or_insert_cases:
  assumes "pool_inv pool" "h \<noteq> null_ptr"
  shows "nw_handle_pool_lookup_or_insert (Some pool) h g =
    (case to_id pool h of Some i \<Rightarrow> Inr (i, Some pool, g)
     | None \<Rightarrow> nw_handle_pool_insert (Some pool) h g)"
  using assms by (auto simp: nw_handle_pool_lookup_or_insert_def nw_handle_pool_insert_def
      g_hash_table_lookup_def pool_inv_def Let_def split: option.splits)

lemma insert_Inr:
  assumes "nw_handle_pool_insert (Some pool) h g = Inr (i, p', g')" "h \<noteq> null_ptr"
  obtains pool' where "p' = Some pool'" "internal_handle_pool_insert pool h g = Inr (i, pool', g')"
  using assms by (auto simp: nw_handle_pool_insert_def res_simps)

lemma deref_live:
  assumes "pool_inv pool" "to_handle pool i = Some h" "is_handle i"
  shows "nw_handle_pool_deref (Some pool) i = Inr h"
  using assms by (auto simp: nw_handle_pool_deref_def g_hash_table_lookup_def pool_inv_def)

lemma remove_Inr:
  assumes "nw_handle_pool_deref_and_remove (Some pool) i = Inr (h, p')" "i \<noteq> null_ptr"
  shows "to_handle pool i = Some h" "h \<noteq> null_ptr" "to_id pool h \<noteq> None"
    "p' = Some (pool\<lparr>to_handle := (to_handle pool)(i := None), to_id := (to_id pool)(h := None)\<rparr>)"
  using assms
  by (auto simp: nw_handle_pool_deref_and_remove_def nw_hash_table_steal_value_def
      nw_hash_table_remove_flipped_def g_hash_table_lookup_def Let_def res_simps
      split: if_splits option.splits)

lemma remove_inv:
  assumes inv: "pool_inv pool" and i: "i \<noteq> null_ptr"
    and rm: "nw_handle_pool_deref_and_remove (Some pool) i = Inr (h, Some pool')"
  shows "pool_inv pool'"
proof -
  note r = remove_Inr [OF rm i]
  have "to_handle pool j = Some h' \<Longrightarrow> j = i \<Longrightarrow> h' = h" for j h' using r(1) by simp
  then show ?thesis
    using inv r by (auto simp: pool_inv_def split: if_splits)
qed

lemma assign_Inr:
  assumes "nw_handle_pool_assign_handle (Some pool) i h g = Inr (p', g')" "i \<noteq> null_ptr" "pool_inv pool"
  shows "h \<noteq> null_ptr" "g' = update_next_id i g" "to_handle pool i = None \<or> to_handle pool i = Some h"
    "p' = Some (pool\<lparr>to_id := (to_id pool)(h \<mapsto> i), to_handle := (to_handle pool)(i \<mapsto> h)\<rparr>)"
  using assms
  by (auto simp: nw_handle_pool_assign_handle_def g_hash_table_lookup_def Let_def res_simps pool_inv_def
      fun_upd_idem split: if_splits option.splits)

lemma assign_inv:
  assumes "pool_inv pool" "i \<noteq> null_ptr"
    "nw_handle_pool_assign_handle (Some pool) i h g = Inr (Some pool', g')"
  shows "pool_inv pool'"
  using assms(1,2) assign_Inr [OF assms(3,2,1)] by (auto simp: pool_inv_def split: if_splits)

section \<open>Sequences of operations\<close>

datatype pool_op =
    OpInsert pointer
  | OpLookupOrInsert pointer
  | OpRemove pointer
  | OpAssign pointer pointer

fun pool_step :: "pool_op \<Rightarrow> pool_ref \<times> id_gen \<Rightarrow> (pool_ref \<times> id_gen) res" where
  "pool_step (OpInsert h) (p, g) = rbind (nw_handle_pool_insert p h g) (\<lambda>(_, p', g'). Inr (p', g'))"
| "pool_step (OpLookupOrInsert h) (p, g) =
     rbind (nw_handle_pool_lookup_or_insert p h g) (\<lambda>(_, p', g'). Inr (p', g'))"
| "pool_step (OpRemove i) (p, g) = rbind (nw_handle_pool_deref_and_remove p i) (\<lambda>(_, p'). Inr (p', g))"
| "pool_step (OpAssign i h) (p, g) = nw_handle_pool_assign_handle p i h g"

fun pool_run :: "pool_op list \<Rightarrow> pool_ref \<times> id_gen \<Rightarrow> (pool_ref \<times> id_gen) res" where
  "pool_run [] s = Inr s"
| "pool_run (x # xs) s = rbind (pool_step x s) (pool_run xs)"

lemma insert_keeps_inv:
  assumes "pool_inv pool" "nw_handle_pool_insert (Some pool) h g = Inr (i, p', g')"
  shows "\<exists>pool'. p' = Some pool' \<and> pool_inv pool'"
proof (cases "h = null_ptr")
  case True
  with assms show ?thesis by (auto simp: nw_handle_pool_insert_def)
next
  case False
  with assms show ?thesis by (blast elim: insert_Inr intro: internal_insert_inv)
qed

lemma pool_step_inv [ava_inv]:
  assumes inv: "pool_inv pool" and st: "pool_step x (Some pool, g) = Inr (p', g')"
  shows "\<exists>pool'. p' = Some pool' \<and> pool_inv pool'"
proof (cases x)
  case (OpInsert h)
  with assms show ?thesis by (auto simp: res_simps intro: insert_keeps_inv)
next
  case (OpLookupOrInsert h)
  show ?thesis
  proof (cases "h = null_ptr")
    case True
    with OpLookupOrInsert assms show ?thesis by (auto simp: nw_handle_pool_lookup_or_insert_def)
  next
    case False
    with OpLookupOrInsert assms show ?thesis
      by (auto simp: lookup_or_insert_cases res_simps split: option.splits intro: insert_keeps_inv)
  qed
next
  case (OpRemove i)
  show ?thesis
  proof (cases "i = null_ptr")
    case True
    with OpRemove assms show ?thesis by (auto simp: nw_handle_pool_deref_and_remove_def)
  next
    case False
    from OpRemove st obtain h where rm: "nw_handle_pool_deref_and_remove (Some pool) i = Inr (h, p')"
      by (auto simp: res_simps)
    with remove_Inr(4) [OF rm False] remove_inv [OF inv False] show ?thesis by auto
  qed
next
  case (OpAssign i h)
  show ?thesis
  proof (cases "i = null_ptr")
    case True
    with OpAssign assms show ?thesis by (auto simp: nw_handle_pool_assign_handle_def res_simps)
  next
    case False
    from OpAssign st have as: "nw_handle_pool_assign_handle (Some pool) i h g = Inr (p', g')" by simp
    with assign_Inr(4) [OF as False inv] assign_inv [OF inv False] show ?thesis by auto
  qed
qed

lemma pool_run_inv_gen:
  assumes "pool_inv pool" "pool_run xs (Some pool, g) = Inr (p', g')"
  shows "\<exists>pool'. p' = Some pool' \<and> pool_inv pool'"
  using assms
proof (induction xs arbitrary: pool g)
  case Nil
  then show ?case by auto
next
  case (Cons x xs)
  from Cons.prems(2) obtain p1 g1 where s: "pool_step x (Some pool, g) = Inr (p1, g1)"
    and r: "pool_run xs (p1, g1) = Inr (p', g')" by (auto simp: res_simps)
  from pool_step_inv [OF Cons.prems(1) s] obtain pool1 where "p1 = Some pool1" "pool_inv pool1" by blast
  with Cons.IH r show ?case by blast
qed

section \<open>Properties\<close>

text \<open>C11: Whatever sequence of inserts, lookups, removals and replay assignments runs on a new pool, if
  no assertion fails then every identifier recorded for a live handle dereferences to that handle,
  and neither table holds a \<open>NULL\<close>.\<close>

theorem handle_pool_run_deref:
  assumes "pool_run ops (Some nw_handle_pool_new, g) = Inr (p, g')"
  shows "\<exists>pool. p = Some pool \<and> pool_inv pool \<and>
    (\<forall>h i. to_id pool h = Some i \<and> is_handle i \<longrightarrow> nw_handle_pool_deref p i = Inr h)"
proof -
  from pool_run_inv_gen [OF pool_inv_new assms] obtain pool
    where p: "p = Some pool" and inv: "pool_inv pool" by blast
  have "nw_handle_pool_deref p i = Inr h" if "to_id pool h = Some i" "is_handle i" for h i
    using that p inv by (auto intro: deref_live simp: pool_inv_def)
  with p inv show ?thesis by blast
qed

lemma run_example:
  "pool_run [OpInsert 5, OpLookupOrInsert 5, OpInsert 9] (Some nw_handle_pool_new, id_gen_init) =
     Inr (Some \<lparr>to_handle = [make_id 0 64 \<mapsto> 5, make_id 0 65 \<mapsto> 9],
               to_id = [5 \<mapsto> make_id 0 64, 9 \<mapsto> make_id 0 65]\<rparr>,
          \<lparr>global_counter = 66, global_counter_tag = 0\<rparr>)"
proof -
  have ne: "make_id 0 64 \<noteq> make_id 0 65"
    by (simp add: make_id_eq_iff)
  then show ?thesis
    by (simp add: nw_handle_pool_new_def id_gen_init_def pool_op_defs next_id_ge Let_def)
qed

theorem handle_pool_run_deref_witness:
  "\<exists>p g. pool_run [OpInsert 5, OpLookupOrInsert 5, OpInsert 9] (Some nw_handle_pool_new, id_gen_init) = Inr (p, g) \<and>
     nw_handle_pool_deref p (make_id 0 64) = Inr 5 \<and> nw_handle_pool_deref p (make_id 0 65) = Inr 9"
  using handle_pool_run_deref [OF run_example] run_example by (auto simp: make_id_is_handle)

text \<open>While the counter is ahead of the identifiers in use, inserting a handle the pool does not
  know succeeds: it returns a marked, non-null identifier that was not in use, the identifier
  dereferences to the handle, a second \<open>lookup_or_insert\<close> returns the same identifier and changes
  nothing, and the counter is still ahead for one insertion less.\<close>

theorem handle_pool_insert_fresh:
  assumes inv: "pool_inv pool" and fr: "id_fresh (dom (to_handle pool)) (Suc n) g"
    and h: "h \<noteq> null_ptr" "to_id pool h = None"
  shows "\<exists>i pool' g'. nw_handle_pool_insert (Some pool) h g = Inr (i, Some pool', g') \<and>
    is_handle i \<and> i \<noteq> null_ptr \<and> to_handle pool i = None \<and> pool_inv pool' \<and>
    nw_handle_pool_deref (Some pool') i = Inr h \<and>
    nw_handle_pool_lookup_or_insert (Some pool') h g' = Inr (i, Some pool', g') \<and>
    id_fresh (dom (to_handle pool')) n g'"
proof -
  let ?i = "fst (next_id g)" and ?g = "snd (next_id g)"
  let ?pool = "pool\<lparr>to_id := (to_id pool)(h \<mapsto> ?i), to_handle := (to_handle pool)(?i \<mapsto> h)\<rparr>"
  have new: "to_handle pool ?i = None" using id_fresh_notin [OF fr] by blast
  then have int: "internal_handle_pool_insert pool h g = Inr (?i, ?pool, ?g)"
    using h by (simp add: internal_handle_pool_insert_def case_prod_beta)
  then have ins: "nw_handle_pool_insert (Some pool) h g = Inr (?i, Some ?pool, ?g)"
    using h by (simp add: nw_handle_pool_insert_def)
  have inv': "pool_inv ?pool" using internal_insert_inv [OF inv h(1) int] .
  moreover have "nw_handle_pool_deref (Some ?pool) ?i = Inr h"
    using inv' by (intro deref_live) (auto simp: next_id_is_handle)
  moreover have "nw_handle_pool_lookup_or_insert (Some ?pool) h ?g = Inr (?i, Some ?pool, ?g)"
    using inv' h by (simp add: lookup_or_insert_cases)
  moreover have "id_fresh (dom (to_handle ?pool)) n ?g"
    using id_fresh_step [OF fr] by simp
  ultimately show ?thesis using ins new next_id_nonzero next_id_is_handle by blast
qed

lemma id_fresh_init: "n < 2 ^ 36 - 64 \<Longrightarrow> id_fresh {} n id_gen_init"
  by (simp add: id_fresh_def id_gen_init_def)

theorem handle_pool_insert_fresh_witness:
  "\<exists>i pool' g'. nw_handle_pool_insert (Some nw_handle_pool_new) 5 id_gen_init = Inr (i, Some pool', g') \<and>
    is_handle i \<and> i \<noteq> null_ptr \<and> to_handle nw_handle_pool_new i = None \<and> pool_inv pool' \<and>
    nw_handle_pool_deref (Some pool') i = Inr 5 \<and>
    nw_handle_pool_lookup_or_insert (Some pool') 5 g' = Inr (i, Some pool', g') \<and>
    id_fresh (dom (to_handle pool')) 7 g'"
proof (rule handle_pool_insert_fresh)
  show "id_fresh (dom (to_handle nw_handle_pool_new)) (Suc 7) id_gen_init"
    using id_fresh_init [of 8] by (simp add: nw_handle_pool_new_def)
qed (simp_all add: pool_inv_new, simp add: nw_handle_pool_new_def)

text \<open>On a pool that is a bijection, removing an identifier that was just handed out returns its
  handle and restores the pool exactly, and dereferencing the identifier afterwards fails the
  assertion.\<close>

theorem handle_pool_insert_remove:
  assumes "pool_bij pool" and h: "h \<noteq> null_ptr"
    and ins: "nw_handle_pool_insert (Some pool) h g = Inr (i, Some pool', g')"
  shows "nw_handle_pool_deref_and_remove (Some pool') i = Inr (h, Some pool) \<and> pool_bij pool' \<and>
    nw_handle_pool_deref (Some pool) i = Inl (AssertFail ''handle != NULL'')"
proof -
  from ins h have int: "internal_handle_pool_insert pool h g = Inr (i, pool', g')"
    by (auto elim: insert_Inr)
  note r = internal_insert_Inr [OF int]
  have "i \<noteq> null_ptr" "is_handle i" using r(1) next_id_nonzero next_id_is_handle by auto
  then have "nw_handle_pool_deref_and_remove (Some pool') i = Inr (h, Some pool)"
    using h r by (simp add: nw_handle_pool_deref_and_remove_def nw_hash_table_steal_value_def
        nw_hash_table_remove_flipped_def g_hash_table_lookup_def Let_def fun_upd_idem)
  moreover have "nw_handle_pool_deref (Some pool) i = Inl (AssertFail ''handle != NULL'')"
    using \<open>i \<noteq> null_ptr\<close> \<open>is_handle i\<close> r by (simp add: nw_handle_pool_deref_def g_hash_table_lookup_def)
  ultimately show ?thesis using internal_insert_bij [OF assms(1,2) int] by simp
qed

theorem handle_pool_insert_remove_witness:
  "\<exists>i pool' g'. nw_handle_pool_insert (Some nw_handle_pool_new) 5 id_gen_init = Inr (i, Some pool', g') \<and>
    nw_handle_pool_deref_and_remove (Some pool') i = Inr (5, Some nw_handle_pool_new) \<and> pool_bij pool' \<and>
    nw_handle_pool_deref (Some nw_handle_pool_new) i = Inl (AssertFail ''handle != NULL'')"
proof -
  obtain i pool' g' where ins:
    "nw_handle_pool_insert (Some nw_handle_pool_new) 5 id_gen_init = Inr (i, Some pool', g')"
    by (simp add: nw_handle_pool_new_def id_gen_init_def pool_op_defs next_id_ge Let_def)
  from handle_pool_insert_remove [OF pool_bij_new _ ins] ins show ?thesis by auto
qed

text \<open>The array of live handles holds every handle of the pool exactly once, in whatever order GLib
  iterates.\<close>

theorem live_handles_exact:
  assumes "iter_order ht_keys" and "pool_inv pool"
  shows "distinct (nw_handle_pool_get_live_handles ht_keys pool) \<and>
    set (nw_handle_pool_get_live_handles ht_keys pool) = dom (to_id pool)"
proof -
  have copy: "foldl (\<lambda>ret key. ret @ [key]) acc xs = acc @ xs" for acc xs :: "pointer list"
    by (induction xs arbitrary: acc) auto
  have "dom (to_id pool) \<subseteq> (\<lambda>i. the (to_handle pool i)) ` dom (to_handle pool)"
    using assms(2) by (force simp: pool_inv_def image_iff dom_def)
  moreover have "finite (dom (to_handle pool))" using assms(2) by (simp add: pool_inv_def)
  ultimately have "finite (dom (to_id pool))" by (meson finite_imageI finite_subset)
  with assms(1) show ?thesis by (simp add: nw_handle_pool_get_live_handles_def copy iter_order_def)
qed

theorem live_handles_exact_witness:
  "distinct (nw_handle_pool_get_live_handles (\<lambda>t. sorted_list_of_set (dom t)) nw_handle_pool_new) \<and>
   set (nw_handle_pool_get_live_handles (\<lambda>t. sorted_list_of_set (dom t)) nw_handle_pool_new) =
     dom (to_id nw_handle_pool_new)"
  by (rule live_handles_exact) (simp_all add: iter_order_def pool_inv_new)

text \<open>Replay: a new pool receives the recorded identifiers one after the other.\<close>

fun replay_assign :: "(pointer \<times> pointer) list \<Rightarrow> pool_ref \<times> id_gen \<Rightarrow> (pool_ref \<times> id_gen) res" where
  "replay_assign [] s = Inr s"
| "replay_assign ((i, h) # xs) (p, g) = rbind (nw_handle_pool_assign_handle p i h g) (replay_assign xs)"

lemma assign_new:
  assumes "pool_inv pool" "i \<noteq> null_ptr" "h \<noteq> null_ptr" "to_handle pool i = None"
  shows "nw_handle_pool_assign_handle (Some pool) i h g =
    Inr (Some (pool\<lparr>to_id := (to_id pool)(h \<mapsto> i), to_handle := (to_handle pool)(i \<mapsto> h)\<rparr>),
         update_next_id i g)"
  using assms by (simp add: nw_handle_pool_assign_handle_def g_hash_table_lookup_def Let_def)

lemma replay_assign_replaying:
  assumes "pool_inv pool" "replaying (dom (to_handle pool)) m g" "m + n < 2 ^ 36"
    and "distinct (map fst xs)" "set (map fst xs) \<inter> dom (to_handle pool) = {}"
    and "\<forall>(i, h)\<in>set xs. is_handle i \<and> i \<noteq> null_ptr \<and> h \<noteq> null_ptr \<and> unat (id_count i) + 1 + n < 2 ^ 36"
  shows "\<exists>pool' g' m'. replay_assign xs (Some pool, g) = Inr (Some pool', g') \<and> pool_inv pool' \<and>
    replaying (dom (to_handle pool')) m' g' \<and> m' + n < 2 ^ 36 \<and>
    dom (to_handle pool') = dom (to_handle pool) \<union> set (map fst xs)"
  using assms
proof (induction xs arbitrary: pool m g)
  case Nil
  then show ?case by auto
next
  case (Cons x xs)
  obtain i h where x: "x = (i, h)" by fastforce
  let ?pool = "pool\<lparr>to_id := (to_id pool)(h \<mapsto> i), to_handle := (to_handle pool)(i \<mapsto> h)\<rparr>"
  have nn: "i \<noteq> null_ptr" "h \<noteq> null_ptr" "to_handle pool i = None" "is_handle i"
    and k: "unat (id_count i) + 1 + n < 2 ^ 36"
    using Cons.prems(5,6) x by (auto simp: domIff disjoint_iff)
  note as = assign_new [OF Cons.prems(1) nn(1,2,3), of g]
  have inv: "pool_inv ?pool" using assign_inv [OF Cons.prems(1) nn(1) as] .
  have rep: "replaying (dom (to_handle ?pool)) (max m (unat (id_count i) + 1)) (update_next_id i g)"
    using replaying_update [OF Cons.prems(2) nn(4)] k by simp
  have mx: "max m (unat (id_count i) + 1) + n < 2 ^ 36" using k Cons.prems(3) by simp
  have D: "dom (to_handle ?pool) = insert i (dom (to_handle pool))" by simp
  have ds: "distinct (map fst xs)" "set (map fst xs) \<inter> dom (to_handle ?pool) = {}"
    unfolding D using Cons.prems(4,5) x by auto
  have "\<forall>(i, h)\<in>set xs. is_handle i \<and> i \<noteq> null_ptr \<and> h \<noteq> null_ptr \<and> unat (id_count i) + 1 + n < 2 ^ 36"
    using Cons.prems(6) by simp
  from Cons.IH [OF inv rep mx ds this] obtain pool' g' m' where
    r: "replay_assign xs (Some ?pool, update_next_id i g) = Inr (Some pool', g')" "pool_inv pool'"
      "replaying (dom (to_handle pool')) m' g'" "m' + n < 2 ^ 36"
      "dom (to_handle pool') = dom (to_handle ?pool) \<union> set (map fst xs)" by blast
  have "dom (to_handle pool') = dom (to_handle pool) \<union> set (map fst (x # xs))"
    using r(5) x unfolding D by auto
  moreover have "replay_assign (x # xs) (Some pool, g) = Inr (Some pool', g')"
    using x as r(1) by simp
  ultimately show ?case using r(2-4) by blast
qed

text \<open>C30: Replaying recorded identifiers into a new pool, in any order and starting from a generator
  that has not yet left its first block, succeeds for all of them, and the generator is then ahead of
  every replayed identifier, so later insertions do not collide.\<close>

theorem replay_then_fresh:
  assumes start: "unat (global_counter g) < 15 * 2 ^ 36" "global_counter_tag g < 16"
    and xs: "xs \<noteq> []" "distinct (map fst xs)"
    and ok: "\<forall>(i, h)\<in>set xs. is_handle i \<and> h \<noteq> null_ptr \<and> unat (id_count i) + 1 + n < 2 ^ 36"
  shows "\<exists>pool g'. replay_assign xs (Some nw_handle_pool_new, g) = Inr (Some pool, g') \<and> pool_inv pool \<and>
    dom (to_handle pool) = set (map fst xs) \<and> id_fresh (dom (to_handle pool)) n g'"
proof -
  from xs(1) obtain i h ys where y: "xs = (i, h) # ys" by (cases xs) auto
  have nz: "j \<noteq> null_ptr" if "is_handle j" for j using that by (auto simp: is_handle_bits)
  have ih: "is_handle i" "i \<noteq> null_ptr" "h \<noteq> null_ptr" and k: "unat (id_count i) + 1 + n < 2 ^ 36"
    using ok y nz by auto
  let ?pool = "nw_handle_pool_new\<lparr>to_id := (to_id nw_handle_pool_new)(h \<mapsto> i),
                                 to_handle := (to_handle nw_handle_pool_new)(i \<mapsto> h)\<rparr>"
  have as: "nw_handle_pool_assign_handle (Some nw_handle_pool_new) i h g = Inr (Some ?pool, update_next_id i g)"
    by (rule assign_new [OF pool_inv_new ih(2,3)]) (simp add: nw_handle_pool_new_def)
  have inv: "pool_inv ?pool" by (rule assign_inv [OF pool_inv_new ih(2) as])
  have d: "dom (to_handle ?pool) = {i}" by (simp add: nw_handle_pool_new_def)
  have rep: "replaying (dom (to_handle ?pool)) (unat (id_count i) + 1) (update_next_id i g)"
    unfolding d using replaying_start [OF start ih(1)] k by simp
  have ds: "distinct (map fst ys)" "set (map fst ys) \<inter> dom (to_handle ?pool) = {}"
    unfolding d using xs(2) y by auto
  have "\<forall>(i, h)\<in>set ys. is_handle i \<and> i \<noteq> null_ptr \<and> h \<noteq> null_ptr \<and> unat (id_count i) + 1 + n < 2 ^ 36"
    using ok y nz by auto
  from replay_assign_replaying [OF inv rep k ds this] obtain pool g' m where
    r: "replay_assign ys (Some ?pool, update_next_id i g) = Inr (Some pool, g')"
      "pool_inv pool" "replaying (dom (to_handle pool)) m g'" "m + n < 2 ^ 36"
      "dom (to_handle pool) = {i} \<union> set (map fst ys)"
    unfolding d by blast
  have "replay_assign xs (Some nw_handle_pool_new, g) = Inr (Some pool, g')"
    using y as r(1) by simp
  moreover have "dom (to_handle pool) = set (map fst xs)" using r(5) y by simp
  ultimately show ?thesis using r(2) replaying_id_fresh [OF r(3,4)] by blast
qed

theorem replay_then_fresh_witness:
  "\<exists>pool g'. replay_assign [(make_id 1 70, 5), (make_id 1 65, 9)]
     (Some nw_handle_pool_new, \<lparr>global_counter = 64, global_counter_tag = 1\<rparr>) = Inr (Some pool, g') \<and>
    pool_inv pool \<and> dom (to_handle pool) = set (map fst [(make_id 1 70, 5 :: pointer), (make_id 1 65, 9)]) \<and>
    id_fresh (dom (to_handle pool)) 1000 g'"
  by (rule replay_then_fresh) (simp_all add: make_id_eq_iff id_count_make_id)

section \<open>Defects the model exposes\<close>

text \<open>\<open>update_next_id\<close> strips the prefix after the shift, so assigning an identifier the pool already
  holds moves the counter into another block whose low 36 bits are behind the identifiers in use: with
  three handles inserted, re-assigning the first identifier to its own handle makes the next insertion
  fail the assertion that the identifier is new.\<close>

theorem update_next_id_collision:
  "pool_run [OpInsert 5, OpInsert 6, OpInsert 7, OpAssign (make_id 0 64) 5, OpInsert 8]
     (Some nw_handle_pool_new, id_gen_init) = Inl (AssertFail ''id already exists'')"
proof -
  have ne: "make_id 0 64 \<noteq> make_id 0 65" "make_id 0 64 \<noteq> make_id 0 66" "make_id 0 65 \<noteq> make_id 0 66"
    by (simp_all add: make_id_eq_iff)
  have h: "make_id 0 1030792151105 = make_id 0 65"
    by (simp add: make_id_eq_iff)
  have "next_id_target (make_id 0 64) = 1030792151105"
    by (simp add: next_id_target_def make_id_def counter_count_shift_def counter_count_prefix_def)
  with ne h show ?thesis
    by (simp add: nw_handle_pool_new_def id_gen_init_def pool_op_defs next_id_ge update_next_id_def Let_def)
qed

text \<open>Replay may give a reused handle a second identifier. Removing the first identifier then drops
  the handle's entry, and removing the second aborts although it was assigned and never removed.\<close>

theorem reused_handle_remove_aborts:
  assumes "i \<noteq> j" "i \<noteq> null_ptr" "j \<noteq> null_ptr" "h \<noteq> null_ptr"
  shows "pool_run [OpAssign i h, OpAssign j h, OpRemove i, OpRemove j] (Some nw_handle_pool_new, g) =
    Inl (Aborted ''g_hash_table_remove(pool->to_id, handle)'')"
  using assms by (simp add: nw_handle_pool_new_def pool_op_defs Let_def)

theorem reused_handle_remove_aborts_witness:
  "pool_run [OpAssign 16 5, OpAssign 32 5, OpRemove 16, OpRemove 32] (Some nw_handle_pool_new, id_gen_init) =
    Inl (Aborted ''g_hash_table_remove(pool->to_id, handle)'')"
  by (rule reused_handle_remove_aborts) simp_all

end
