(* ===== verification/Commands.thy ===== *)
theory Commands
  imports Ava_Prelude
begin

text \<open>
  The command structure shared by all channels (\<open>include/cmd_channel.h\<close>, \<open>struct command_base\<close>). A
  command is a block of bytes: the base structure in its LP64 layout (136 bytes), the fields of the
  derived structure up to \<open>command_size\<close>, and in some channels the data region behind it. \<open>base_of\<close> and
  \<open>set_base\<close> read and write the base structure of a block, and \<open>mem_read\<close> and \<open>mem_write\<close> are bounds
  checked \<open>memcpy\<close>.
\<close>

section \<open>Machine words inside a block\<close>

definition get_u64 :: "nat \<Rightarrow> bytes \<Rightarrow> u64" where
  "get_u64 off bs = le_word (slice_at off 8 bs)"

definition get_u32 :: "nat \<Rightarrow> bytes \<Rightarrow> u32" where
  "get_u32 off bs = le_word (slice_at off 4 bs)"

definition put_u64 :: "nat \<Rightarrow> u64 \<Rightarrow> bytes \<Rightarrow> bytes" where
  "put_u64 off w bs = splice_at off (le_bytes 8 w) bs"

lemma length_put_u64 [simp]: "off + 8 \<le> length bs \<Longrightarrow> length (put_u64 off w bs) = length bs"
  by (simp add: put_u64_def)

lemma get_put_u64_same [simp]: "get_u64 off (put_u64 off w bs) = w"
  using slice_splice_same [of off "le_bytes 8 w" bs] by (simp add: get_u64_def put_u64_def)

lemma get_put_u64_other:
  "off + 8 \<le> length bs \<Longrightarrow> off + 8 \<le> off' \<or> off' + 8 \<le> off \<Longrightarrow> get_u64 off (put_u64 off' w bs) = get_u64 off bs"
  by (simp add: get_u64_def put_u64_def slice_splice_disjoint)

section \<open>The base structure\<close>

record command_base =
  api_id :: u8
  vm_id :: u8
  command_type :: u64
  thread_id :: u64
  original_thread_id :: u64
  cmd_flags :: u8
  command_id :: u64
  command_size :: u64
  data_region :: u64
  region_size :: u64
  reserved_area :: bytes

definition enc_base :: "command_base \<Rightarrow> bytes" where
  "enc_base b =
     [api_id b, vm_id b, 0, 0, 0, 0, 0, 0] @ le_bytes 8 (command_type b) @ le_bytes 8 (thread_id b) @
     le_bytes 8 (original_thread_id b) @ [cmd_flags b, 0, 0, 0, 0, 0, 0, 0] @ le_bytes 8 (command_id b) @
     le_bytes 8 (command_size b) @ le_bytes 8 (data_region b) @ le_bytes 8 (region_size b) @
     reserved_area b"

definition base_of :: "bytes \<Rightarrow> command_base" where
  "base_of blk = \<lparr>api_id = blk ! 0, vm_id = blk ! 1, command_type = get_u64 8 blk,
     thread_id = get_u64 16 blk, original_thread_id = get_u64 24 blk, cmd_flags = blk ! 32,
     command_id = get_u64 40 blk, command_size = get_u64 48 blk, data_region = get_u64 56 blk,
     region_size = get_u64 64 blk, reserved_area = slice_at 72 64 blk\<rparr>"

definition set_base :: "command_base \<Rightarrow> bytes \<Rightarrow> bytes" where
  "set_base b blk = splice_at 0 (enc_base b) blk"

definition base_ok :: "command_base \<Rightarrow> bool" where
  "base_ok b \<longleftrightarrow> length (reserved_area b) = 64"

definition zero_base :: command_base where
  "zero_base = \<lparr>api_id = 0, vm_id = 0, command_type = 0, thread_id = 0, original_thread_id = 0,
     cmd_flags = 0, command_id = 0, command_size = 0, data_region = 0, region_size = 0,
     reserved_area = replicate 64 0\<rparr>"

lemma length_enc_base [simp]: "base_ok b \<Longrightarrow> length (enc_base b) = 136"
  by (simp add: enc_base_def base_ok_def)

lemma base_ok_zero [simp]: "base_ok zero_base"
  by (simp add: base_ok_def zero_base_def)

lemma base_ok_base_of [simp]: "136 \<le> length blk \<Longrightarrow> base_ok (base_of blk)"
  by (simp add: base_ok_def base_of_def)

text \<open>The layout is read back: every field of an encoded base structure is found at its offset.\<close>

lemma slice_at_skip: "length xs \<le> p \<Longrightarrow> slice_at p n (xs @ ys) = slice_at (p - length xs) n ys"
  by (rule slice_append_right)

lemma slice_at_hit: "length ys = n \<Longrightarrow> slice_at 0 n (ys @ zs) = ys"
  by (simp add: slice_at_def)

lemma slice_at_Cons: "0 < p \<Longrightarrow> slice_at p n (x # xs) = slice_at (p - 1) n xs"
  by (cases p) (simp_all add: slice_at_def)

lemma base_of_enc_base:
  assumes "base_ok b"
  shows "base_of (enc_base b @ rest) = b"
  using assms
  by (cases b)
     (simp add: base_of_def enc_base_def base_ok_def get_u64_def slice_at_skip slice_at_hit slice_at_Cons
        nth_append)

lemma set_base_app: "base_ok b \<Longrightarrow> 136 \<le> length blk \<Longrightarrow> set_base b blk = enc_base b @ drop 136 blk"
  by (simp add: set_base_def splice_at_def)

lemma base_of_set_base [simp]:
  "base_ok b \<Longrightarrow> 136 \<le> length blk \<Longrightarrow> base_of (set_base b blk) = b"
  by (simp add: set_base_app base_of_enc_base)

lemma length_set_base [simp]:
  "base_ok b \<Longrightarrow> 136 \<le> length blk \<Longrightarrow> length (set_base b blk) = length blk"
  by (simp add: set_base_app)

lemma drop_set_base [simp]:
  "base_ok b \<Longrightarrow> 136 \<le> length blk \<Longrightarrow> 136 \<le> n \<Longrightarrow> drop n (set_base b blk) = drop n blk"
  by (simp add: set_base_app)

lemma slice_set_base [simp]:
  "base_ok b \<Longrightarrow> 136 \<le> length blk \<Longrightarrow> 136 \<le> p \<Longrightarrow> slice_at p n (set_base b blk) = slice_at p n blk"
  by (simp add: slice_at_def)

lemma base_of_append: "136 \<le> length xs \<Longrightarrow> base_of (xs @ ys) = base_of xs"
  by (auto simp: base_of_def get_u64_def slice_append_left nth_append)

lemma base_of_take: "136 \<le> n \<Longrightarrow> 136 \<le> length xs \<Longrightarrow> base_of (take n xs) = base_of xs"
  using base_of_append [of "take n xs" "drop n xs"] by simp

section \<open>Bounds-checked memory access\<close>

definition mem_write :: "nat \<Rightarrow> bytes \<Rightarrow> bytes \<Rightarrow> bytes res" where
  "mem_write off bs blk = (if off + length bs \<le> length blk then Inr (splice_at off bs blk) else Inl OutOfBounds)"

definition mem_read :: "nat \<Rightarrow> nat \<Rightarrow> bytes \<Rightarrow> bytes res" where
  "mem_read off n blk = (if off + n \<le> length blk then Inr (slice_at off n blk) else Inl OutOfBounds)"

lemma mem_write_Inr [res_simps]:
  "mem_write off bs blk = Inr blk' \<longleftrightarrow> off + length bs \<le> length blk \<and> blk' = splice_at off bs blk"
  by (auto simp: mem_write_def)

lemma mem_read_Inr [res_simps]:
  "mem_read off n blk = Inr bs \<longleftrightarrow> off + n \<le> length blk \<and> bs = slice_at off n blk"
  by (auto simp: mem_read_def)

text \<open>\<open>malloc\<close> followed by \<open>memset\<close> of the first \<open>n\<close> bytes. The content of fresh memory is unknown:
  \<open>mal n\<close> stands for the bytes \<open>malloc(n)\<close> hands out.\<close>

definition malloc_zeroed :: "(nat \<Rightarrow> bytes) \<Rightarrow> nat \<Rightarrow> nat \<Rightarrow> bytes" where
  "malloc_zeroed mal sz n = splice_at 0 (replicate n 0) (mal sz)"

definition malloc_ok :: "(nat \<Rightarrow> bytes) \<Rightarrow> bool" where
  "malloc_ok mal \<longleftrightarrow> (\<forall>n. length (mal n) = n)"

lemma length_malloc_zeroed [simp]: "malloc_ok mal \<Longrightarrow> n \<le> sz \<Longrightarrow> length (malloc_zeroed mal sz n) = sz"
  by (simp add: malloc_zeroed_def malloc_ok_def)

lemma slice_replicate: "p + n \<le> k \<Longrightarrow> slice_at p n (replicate k x) = replicate n x"
  by (simp add: slice_at_def)

lemma le_word_zeros [simp]: "le_word (replicate n 0) = 0"
  by (induction n) simp_all

lemma base_of_zeroed: "136 \<le> n \<Longrightarrow> base_of (malloc_zeroed mal sz n) = zero_base"
  by (simp add: malloc_zeroed_def splice_at_def base_of_def get_u64_def slice_append_left slice_replicate
      nth_append zero_base_def)

lemma slice_zeroed: "p + k \<le> n \<Longrightarrow> slice_at p k (malloc_zeroed mal sz n) = replicate k 0"
  by (simp add: malloc_zeroed_def splice_at_def slice_append_left slice_replicate)

text \<open>A minimal command, used to apply the properties to concrete inputs.\<close>

definition ex_cmd :: "u64 \<Rightarrow> bytes" where
  "ex_cmd n = set_base (zero_base\<lparr>command_size := 136, region_size := n\<rparr>) (replicate 136 0)"

lemma ex_cmd_simps [simp]:
  "length (ex_cmd n) = 136" "base_of (ex_cmd n) = zero_base\<lparr>command_size := 136, region_size := n\<rparr>"
  by (simp_all add: ex_cmd_def base_ok_def zero_base_def)

end
