(* ===== verification/Transport.thy ===== *)
theory Transport
  imports Commands
begin

text \<open>
  Byte transport over a connected stream socket (\<open>common/socket.cpp\<close>): \<open>send_socket\<close> and \<open>recv_socket\<close>
  loop until the whole buffer went through. A direction of a connection is the list of bytes in
  transit. The number of bytes one \<open>send\<close> or \<open>recv\<close> moves is a parameter, a non-positive number being an
  error; \<open>recv\<close> on a direction with no byte left reports the end of the stream. The interface that the
  channels promise to the code attaching buffers is the locale \<open>buffer_channel\<close>.
\<close>

section \<open>send_socket and recv_socket\<close>

type_synonym os_io = "nat \<Rightarrow> nat \<Rightarrow> int"

definition io_progress :: "os_io \<Rightarrow> bool" where
  "io_progress os \<longleftrightarrow> (\<forall>p n. 0 < n \<longrightarrow> 0 < os p n)"

function send_loop :: "os_io \<Rightarrow> int \<Rightarrow> bytes \<Rightarrow> bytes \<Rightarrow> (int \<times> bytes) res" where
  "send_loop os ret buf stream =
     (if buf = [] then Inr (ret, stream)
      else let r = min (os (length stream) (length buf)) (int (length buf))
           in if r \<le> 0 then Inl (ExitProc 0)
              else send_loop os r (drop (nat r) buf) (stream @ take (nat r) buf))"
  by pat_completeness auto
termination
  by (relation "measure (\<lambda>(os, ret, buf, stream). length buf)") auto

definition send_socket :: "os_io \<Rightarrow> bytes \<Rightarrow> bytes \<Rightarrow> (int \<times> bytes) res" where
  "send_socket os buf stream = rbind (c_assert (0 < length buf) ''size > 0'') (\<lambda>_. send_loop os (- 1) buf stream)"

function recv_loop :: "os_io \<Rightarrow> nat \<Rightarrow> bytes \<Rightarrow> bytes \<Rightarrow> (bytes \<times> bytes) res" where
  "recv_loop os left buf stream =
     (if left = 0 then Inr (buf, stream)
      else let r = min (os (length stream) left) (int (min left (length stream)))
           in if r \<le> 0 then Inl (ExitProc 0)
              else recv_loop os (left - nat r) (buf @ take (nat r) stream) (drop (nat r) stream))"
  by pat_completeness auto
termination
  by (relation "measure (\<lambda>(os, left, buf, stream). left)") auto

definition recv_socket :: "os_io \<Rightarrow> nat \<Rightarrow> bytes \<Rightarrow> (bytes \<times> bytes) res" where
  "recv_socket os n stream = recv_loop os n [] stream"

declare send_loop.simps [simp del] recv_loop.simps [simp del]

lemma send_loop_Inr: "send_loop os ret buf stream = Inr (r, stream') \<Longrightarrow> stream' = stream @ buf"
  by (induction os ret buf stream rule: send_loop.induct)
     (auto simp: Let_def send_loop.simps split: if_splits)

lemma send_loop_progress: "io_progress os \<Longrightarrow> \<exists>r. send_loop os ret buf stream = Inr (r, stream @ buf)"
proof (induction os ret buf stream rule: send_loop.induct)
  case (1 os ret buf stream)
  show ?case
  proof (cases "buf = []")
    case False
    define r where "r = min (os (length stream) (length buf)) (int (length buf))"
    have r: "\<not> r \<le> 0" using "1.prems" False by (simp add: io_progress_def r_def not_le)
    have "send_loop os ret buf stream = send_loop os r (drop (nat r) buf) (stream @ take (nat r) buf)"
      using False r by (subst send_loop.simps) (simp add: Let_def flip: r_def)
    with "1.IH" [OF False r_def r "1.prems"] show ?thesis by simp
  qed (simp add: send_loop.simps)
qed

lemma send_socket_progress:
  "io_progress os \<Longrightarrow> buf \<noteq> [] \<Longrightarrow> \<exists>r. send_socket os buf stream = Inr (r, stream @ buf)"
  using send_loop_progress [of os "- 1" buf stream] by (simp add: send_socket_def)

lemma send_socket_empty [simp]: "send_socket os [] stream = Inl (AssertFail ''size > 0'')"
  by (simp add: send_socket_def)

lemma send_socket_Inr:
  "send_socket os buf stream = Inr (r, stream') \<Longrightarrow> stream' = stream @ buf"
  by (auto simp: send_socket_def res_simps dest: send_loop_Inr)

lemma recv_loop_Inr:
  "recv_loop os left buf stream = Inr (buf', rest) \<Longrightarrow> length buf' = length buf + left \<and> buf' @ rest = buf @ stream"
proof (induction os left buf stream rule: recv_loop.induct)
  case (1 os left buf stream)
  show ?case
  proof (cases "left = 0")
    case False
    let ?r = "min (os (length stream) left) (int (min left (length stream)))"
    from "1.prems" False have r: "0 < ?r"
      and n: "recv_loop os (left - nat ?r) (buf @ take (nat ?r) stream) (drop (nat ?r) stream) = Inr (buf', rest)"
      by (auto simp: recv_loop.simps [of os left] Let_def split: if_splits)
    have "nat ?r \<le> left \<and> nat ?r \<le> length stream" by linarith
    then show ?thesis using "1.IH" [OF False refl _ n] r by auto
  qed (use "1.prems" in \<open>simp add: recv_loop.simps\<close>)
qed

lemma recv_loop_progress:
  "io_progress os \<Longrightarrow> left \<le> length stream \<Longrightarrow> recv_loop os left buf stream = Inr (buf @ take left stream, drop left stream)"
proof (induction os left buf stream rule: recv_loop.induct)
  case (1 os left buf stream)
  show ?case
  proof (cases "left = 0")
    case False
    let ?r = "min (os (length stream) left) (int (min left (length stream)))"
    have r: "0 < ?r" using "1.prems" False by (simp add: io_progress_def)
    have l: "nat ?r \<le> left" by linarith
    then have "take (nat ?r) stream @ take (left - nat ?r) (drop (nat ?r) stream) = take left stream"
      by (metis le_add_diff_inverse take_add)
    with "1.IH" [OF False refl] "1.prems" r l False show ?thesis
      by (subst recv_loop.simps) (simp add: Let_def)
  qed (simp add: recv_loop.simps)
qed

lemma recv_socket_progress:
  "io_progress os \<Longrightarrow> n \<le> length stream \<Longrightarrow> recv_socket os n stream = Inr (take n stream, drop n stream)"
  by (simp add: recv_socket_def recv_loop_progress)

lemma recv_socket_Inr:
  "recv_socket os n stream = Inr (buf, rest) \<Longrightarrow> length buf = n \<and> stream = buf @ rest"
  using recv_loop_Inr [of os n "[]" stream buf rest] by (simp add: recv_socket_def)

section \<open>The interface for attaching buffers\<close>

text \<open>Attaching a list of buffers in order, collecting their identifiers.\<close>

primrec attach_list :: "('s \<Rightarrow> bytes \<Rightarrow> (u64 \<times> 's) res) \<Rightarrow> 's \<Rightarrow> bytes list \<Rightarrow> (u64 list \<times> 's) res" where
  "attach_list att s [] = Inr ([], s)"
| "attach_list att s (b # bs) =
     rbind (att s b) (\<lambda>(i, s). rbind (attach_list att s bs) (\<lambda>(is, s). Inr (i # is, s)))"

text \<open>What \<open>include/cmd_channel.h\<close> promises: as long as the attached buffers fit the announced data region,
  attaching succeeds, the returned identifier gives the buffer back, and earlier identifiers keep
  theirs.\<close>

locale buffer_channel =
  fixes attach :: "'s \<Rightarrow> bytes \<Rightarrow> (u64 \<times> 's) res"
    and get :: "'s \<Rightarrow> u64 \<Rightarrow> nat \<Rightarrow> bytes res"
    and live :: "'s \<Rightarrow> u64 \<Rightarrow> nat \<Rightarrow> bool"
    and room :: "'s \<Rightarrow> nat"
    and ok :: "'s \<Rightarrow> bool"
  assumes attach_ok: "ok s \<Longrightarrow> b \<noteq> [] \<Longrightarrow> length b \<le> room s \<Longrightarrow>
      \<exists>i s'. attach s b = Inr (i, s') \<and> ok s' \<and> room s' = room s - length b \<and>
        live s' i (length b) \<and> get s' i (length b) = Inr b"
    and attach_frame: "ok s \<Longrightarrow> b \<noteq> [] \<Longrightarrow> length b \<le> room s \<Longrightarrow> attach s b = Inr (i, s') \<Longrightarrow> live s j n \<Longrightarrow>
      live s' j n \<and> get s' j n = get s j n"
begin

lemma attach_list_ok:
  assumes "ok s" "[] \<notin> set bs" "sum_list (map length bs) \<le> room s"
  shows "\<exists>is s'. attach_list attach s bs = Inr (is, s') \<and> ok s' \<and>
    room s' = room s - sum_list (map length bs) \<and>
    list_all2 (\<lambda>i b. get s' i (length b) = Inr b) is bs \<and>
    (\<forall>j n. live s j n \<longrightarrow> live s' j n \<and> get s' j n = get s j n)"
  using assms
proof (induction bs arbitrary: s)
  case (Cons b bs)
  then have b: "b \<noteq> []" "length b \<le> room s" by auto
  from attach_ok [OF Cons.prems(1) b] obtain i s1 where
    a: "attach s b = Inr (i, s1)" "ok s1" "room s1 = room s - length b" "live s1 i (length b)"
       "get s1 i (length b) = Inr b" by blast
  have fr: "live s j n \<Longrightarrow> live s1 j n \<and> get s1 j n = get s j n" for j n
    using attach_frame [OF Cons.prems(1) b a(1)] .
  have "sum_list (map length bs) \<le> room s1" "[] \<notin> set bs" using Cons.prems(2,3) a(3) by auto
  from Cons.IH [OF a(2) this(2,1)] obtain "is" s2 where
    r: "attach_list attach s1 bs = Inr (is, s2)" "ok s2" "room s2 = room s1 - sum_list (map length bs)"
       "list_all2 (\<lambda>i b. get s2 i (length b) = Inr b) is bs"
       "\<forall>j n. live s1 j n \<longrightarrow> live s2 j n \<and> get s2 j n = get s1 j n" by blast
  with a fr show ?case by auto
qed simp

end

end
