(* ===== verification/Socket_Channel.thy ===== *)
theory Socket_Channel
  imports Transport
begin

text \<open>
  The socket channel (\<open>common/cmd_channel_socket_utilities.cpp\<close>): a command and its data region are one
  block that is sent whole over a stream socket. The vsock, TCP and local constructors share these
  operations.
\<close>

section \<open>State and operations\<close>

record command_channel_socket =
  sock_vm_id :: u8
  sock_out :: bytes
  sock_in :: bytes

text \<open>The three words of \<open>struct block_seeker\<close> (\<open>include/guest_mem.h\<close>) inside the reserved area.\<close>

definition seek_local :: "bytes \<Rightarrow> u64" where "seek_local cmd = get_u64 8 (reserved_area (base_of cmd))"
definition seek_cur :: "bytes \<Rightarrow> u64" where "seek_cur cmd = get_u64 16 (reserved_area (base_of cmd))"

definition set_seek_local :: "u64 \<Rightarrow> bytes \<Rightarrow> bytes" where
  "set_seek_local v cmd = set_base ((base_of cmd)\<lparr>reserved_area := put_u64 8 v (reserved_area (base_of cmd))\<rparr>) cmd"
definition set_seek_cur :: "u64 \<Rightarrow> bytes \<Rightarrow> bytes" where
  "set_seek_cur v cmd = set_base ((base_of cmd)\<lparr>reserved_area := put_u64 16 v (reserved_area (base_of cmd))\<rparr>) cmd"

definition NW_NEW_INVOCATION :: u64 where "NW_NEW_INVOCATION = 3"

definition POLLIN :: u32 where "POLLIN = 1"
definition POLLRDHUP :: u32 where "POLLRDHUP = 0x2000"

definition command_channel_socket_new_command ::
  "(nat \<Rightarrow> bytes) \<Rightarrow> command_channel_socket \<Rightarrow> u64 \<Rightarrow> u64 \<Rightarrow> bytes res" where
  "command_channel_socket_new_command mal chan struct_size data_size =
     (let n = unat (struct_size + data_size); cmd = malloc_zeroed mal n (unat struct_size)
      in if n < unat struct_size \<or> unat struct_size < 136 then Inl OutOfBounds
         else Inr (set_seek_cur struct_size
                (set_base ((base_of cmd)\<lparr>vm_id := sock_vm_id chan, command_size := struct_size,
                    data_region := struct_size, region_size := data_size\<rparr>) cmd)))"

definition command_channel_socket_attach_buffer :: "bytes \<Rightarrow> bytes option \<Rightarrow> (u64 \<times> bytes) res" where
  "command_channel_socket_attach_buffer cmd buffer =
     (case buffer of
        None \<Rightarrow> Inl (AssertFail ''buffer && size != 0'')
      | Some bs \<Rightarrow>
          rbind (c_assert (length bs \<noteq> 0) ''buffer && size != 0'') (\<lambda>_.
            let off = seek_cur cmd
            in rbind (mem_write (unat off) bs (set_seek_cur (off + of_nat (length bs)) cmd)) (\<lambda>cmd.
               Inr (off, cmd))))"

definition command_channel_socket_send_command ::
  "os_io \<Rightarrow> command_channel_socket \<Rightarrow> bytes \<Rightarrow> command_channel_socket res" where
  "command_channel_socket_send_command os chan cmd =
     (let cmd = set_base ((base_of cmd)\<lparr>command_type := NW_NEW_INVOCATION\<rparr>) cmd; b = base_of cmd
      in rbind (mem_read 0 (unat (command_size b + region_size b)) cmd) (\<lambda>buf.
         rbind (send_socket os buf (sock_out chan)) (\<lambda>(r, out). Inr (chan\<lparr>sock_out := out\<rparr>))))"

definition command_channel_socket_transfer_command ::
  "os_io \<Rightarrow> command_channel_socket \<Rightarrow> bytes \<Rightarrow> bytes \<Rightarrow> command_channel_socket res" where
  "command_channel_socket_transfer_command os chan cmd region =
     (let b = base_of cmd
      in rbind (mem_read 0 (unat (command_size b)) cmd) (\<lambda>buf.
         rbind (send_socket os buf (sock_out chan)) (\<lambda>(r, out).
         rbind (mem_read 0 (unat (region_size b)) region) (\<lambda>reg.
         rbind (send_socket os reg out) (\<lambda>(r, out). Inr (chan\<lparr>sock_out := out\<rparr>))))))"

text \<open>\<open>poll_ret\<close> and \<open>revents\<close> are what \<open>poll\<close> returned.\<close>

definition command_channel_socket_receive_command ::
  "(nat \<Rightarrow> bytes) \<Rightarrow> os_io \<Rightarrow> int \<Rightarrow> u32 \<Rightarrow> command_channel_socket \<Rightarrow> (bytes option \<times> command_channel_socket) res" where
  "command_channel_socket_receive_command mal os poll_ret revents chan =
     (if poll_ret < 0 then Inl (ExitProc (- 1))
      else if revents = 0 then Inr (None, chan)
      else if revents AND POLLRDHUP \<noteq> 0 then Inl (ExitProc (- 1))
      else if revents AND POLLIN \<noteq> 0 then
        rbind (recv_socket os 136 (sock_in chan)) (\<lambda>(hd, st).
        let b = base_of hd; n = command_size b + region_size b
        in rbind (mem_write 0 hd (mal (unat n))) (\<lambda>cmd.
           rbind (recv_socket os (unat (n - 136)) st) (\<lambda>(body, st).
           rbind (mem_write 136 body cmd) (\<lambda>cmd.
           Inr (Some cmd, chan\<lparr>sock_in := st\<rparr>)))))
      else Inr (None, chan))"

text \<open>The bytes at the pointers that the two accessors compute.\<close>

definition command_channel_socket_get_buffer :: "bytes \<Rightarrow> u64 \<Rightarrow> nat \<Rightarrow> bytes res" where
  "command_channel_socket_get_buffer cmd buffer_id n = mem_read (unat buffer_id) n cmd"

definition command_channel_socket_get_data_region :: "bytes \<Rightarrow> nat \<Rightarrow> bytes res" where
  "command_channel_socket_get_data_region cmd n = mem_read (unat (command_size (base_of cmd))) n cmd"

section \<open>The block under construction\<close>

lemma seek_simps:
  assumes "136 \<le> length cmd"
  shows "seek_cur (set_seek_cur v cmd) = v" "seek_local (set_seek_local v cmd) = v"
    "seek_local (set_seek_cur v cmd) = seek_local cmd" "seek_cur (set_seek_local v cmd) = seek_cur cmd"
    "length (set_seek_cur v cmd) = length cmd" "length (set_seek_local v cmd) = length cmd"
    "drop 136 (set_seek_cur v cmd) = drop 136 cmd" "drop 136 (set_seek_local v cmd) = drop 136 cmd"
    "base_of (set_seek_cur v cmd) = (base_of cmd)\<lparr>reserved_area := put_u64 16 v (reserved_area (base_of cmd))\<rparr>"
    "base_of (set_seek_local v cmd) = (base_of cmd)\<lparr>reserved_area := put_u64 8 v (reserved_area (base_of cmd))\<rparr>"
proof -
  have r: "length (reserved_area (base_of cmd)) = 64" using base_ok_base_of [OF assms] by (simp add: base_ok_def)
  then have ok: "base_ok ((base_of cmd)\<lparr>reserved_area := put_u64 16 v (reserved_area (base_of cmd))\<rparr>)"
    "base_ok ((base_of cmd)\<lparr>reserved_area := put_u64 8 v (reserved_area (base_of cmd))\<rparr>)"
    by (simp_all add: base_ok_def)
  show "seek_cur (set_seek_cur v cmd) = v" "seek_local (set_seek_local v cmd) = v"
    "seek_local (set_seek_cur v cmd) = seek_local cmd" "seek_cur (set_seek_local v cmd) = seek_cur cmd"
    "length (set_seek_cur v cmd) = length cmd" "length (set_seek_local v cmd) = length cmd"
    "drop 136 (set_seek_cur v cmd) = drop 136 cmd" "drop 136 (set_seek_local v cmd) = drop 136 cmd"
    "base_of (set_seek_cur v cmd) = (base_of cmd)\<lparr>reserved_area := put_u64 16 v (reserved_area (base_of cmd))\<rparr>"
    "base_of (set_seek_local v cmd) = (base_of cmd)\<lparr>reserved_area := put_u64 8 v (reserved_area (base_of cmd))\<rparr>"
    using assms ok r
    by (simp_all add: seek_cur_def seek_local_def set_seek_cur_def set_seek_local_def get_put_u64_other)
qed

definition sock_ok :: "bytes \<Rightarrow> bool" where
  "sock_ok cmd \<longleftrightarrow> 136 \<le> unat (seek_cur cmd) \<and> unat (seek_cur cmd) \<le> length cmd \<and> length cmd < 2 ^ 64"

definition sock_room :: "bytes \<Rightarrow> nat" where
  "sock_room cmd = length cmd - unat (seek_cur cmd)"

definition sock_live :: "bytes \<Rightarrow> u64 \<Rightarrow> nat \<Rightarrow> bool" where
  "sock_live cmd i n \<longleftrightarrow> 136 \<le> unat i \<and> unat i + n \<le> unat (seek_cur cmd)"

lemma base_of_splice: "136 \<le> p \<Longrightarrow> 136 \<le> length cmd \<Longrightarrow> base_of (splice_at p bs cmd) = base_of cmd"
  using base_of_append [of "take p cmd"] by (simp add: splice_at_def base_of_append base_of_take)

lemma sock_attach_step:
  assumes "sock_ok cmd" "bs \<noteq> []" "length bs \<le> sock_room cmd"
  shows "command_channel_socket_attach_buffer cmd (Some bs) =
      Inr (seek_cur cmd, splice_at (unat (seek_cur cmd)) bs (set_seek_cur (seek_cur cmd + of_nat (length bs)) cmd))"
    and "seek_cur (splice_at (unat (seek_cur cmd)) bs (set_seek_cur (seek_cur cmd + of_nat (length bs)) cmd)) =
      seek_cur cmd + of_nat (length bs)"
    and "unat (seek_cur cmd + of_nat (length bs)) = unat (seek_cur cmd) + length bs"
proof -
  have l: "136 \<le> length cmd" "unat (seek_cur cmd) + length bs \<le> length cmd"
    using assms by (auto simp: sock_ok_def sock_room_def)
  then show "command_channel_socket_attach_buffer cmd (Some bs) =
      Inr (seek_cur cmd, splice_at (unat (seek_cur cmd)) bs (set_seek_cur (seek_cur cmd + of_nat (length bs)) cmd))"
    using assms by (simp add: command_channel_socket_attach_buffer_def mem_write_def seek_simps Let_def)
  show "seek_cur (splice_at (unat (seek_cur cmd)) bs (set_seek_cur (seek_cur cmd + of_nat (length bs)) cmd)) =
      seek_cur cmd + of_nat (length bs)"
    using assms l seek_simps(1) [OF l(1), of "seek_cur cmd + of_nat (length bs)"]
    by (simp add: seek_cur_def [of "splice_at _ _ _"] base_of_splice seek_simps sock_ok_def
        flip: seek_cur_def)
  show "unat (seek_cur cmd + of_nat (length bs)) = unat (seek_cur cmd) + length bs"
    using assms l by (subst unat_plus_small) (simp_all add: unat_of_nat sock_ok_def)
qed

interpretation sock: buffer_channel "\<lambda>cmd b. command_channel_socket_attach_buffer cmd (Some b)"
  command_channel_socket_get_buffer sock_live sock_room sock_ok
proof
  fix s b :: bytes
  assume a: "sock_ok s" "b \<noteq> []" "length b \<le> sock_room s"
  let ?s = "splice_at (unat (seek_cur s)) b (set_seek_cur (seek_cur s + of_nat (length b)) s)"
  have l: "136 \<le> length s" "unat (seek_cur s) + length b \<le> length s" "length ?s = length s"
    using a by (auto simp: sock_ok_def sock_room_def seek_simps)
  show "\<exists>i s'. command_channel_socket_attach_buffer s (Some b) = Inr (i, s') \<and> sock_ok s' \<and>
      sock_room s' = sock_room s - length b \<and> sock_live s' i (length b) \<and>
      command_channel_socket_get_buffer s' i (length b) = Inr b"
    using a l sock_attach_step [OF a] slice_splice_same
    by (auto simp: sock_ok_def sock_room_def sock_live_def command_channel_socket_get_buffer_def mem_read_def seek_simps)
next
  fix s b s' :: bytes and i j :: u64 and n :: nat
  assume a: "sock_ok s" "b \<noteq> []" "length b \<le> sock_room s"
    and att: "command_channel_socket_attach_buffer s (Some b) = Inr (i, s')" and lv: "sock_live s j n"
  let ?s = "set_seek_cur (seek_cur s + of_nat (length b)) s"
  have l: "136 \<le> length s" "unat (seek_cur s) + length b \<le> length s"
    using a by (auto simp: sock_ok_def sock_room_def)
  have s': "s' = splice_at (unat (seek_cur s)) b ?s" using att sock_attach_step(1) [OF a] by auto
  have j: "136 \<le> unat j" "unat j + n \<le> unat (seek_cur s)" "unat j + n \<le> length s"
    using lv a l by (auto simp: sock_live_def sock_ok_def)
  have "slice_at (unat j) n s' = slice_at (unat j) n ?s"
    unfolding s' by (rule slice_splice_disjoint) (use j l in \<open>simp_all add: seek_simps\<close>)
  also have "\<dots> = slice_at (unat j) n s"
  proof -
    have "drop (unat j) ?s = drop (unat j - 136) (drop 136 ?s)" using j by simp
    then show ?thesis using j by (simp add: slice_at_def seek_simps l)
  qed
  finally have "slice_at (unat j) n s' = slice_at (unat j) n s" .
  then show "sock_live s' j n \<and> command_channel_socket_get_buffer s' j n = command_channel_socket_get_buffer s j n"
    using j l lv sock_attach_step [OF a]
    by (auto simp: s' sock_live_def command_channel_socket_get_buffer_def mem_read_def seek_simps)
qed

section \<open>Sending and receiving whole commands\<close>

definition sendable :: "bytes \<Rightarrow> bool" where
  "sendable cmd \<longleftrightarrow> 136 \<le> unat (command_size (base_of cmd)) \<and> length cmd < 2 ^ 64 \<and>
     length cmd = unat (command_size (base_of cmd)) + unat (region_size (base_of cmd))"

definition sent_block :: "bytes \<Rightarrow> bytes" where
  "sent_block cmd = set_base ((base_of cmd)\<lparr>command_type := NW_NEW_INVOCATION\<rparr>) cmd"

lemma sent_block_simps:
  assumes "136 \<le> length cmd"
  shows "base_of (sent_block cmd) = (base_of cmd)\<lparr>command_type := NW_NEW_INVOCATION\<rparr>"
    "length (sent_block cmd) = length cmd" "136 \<le> p \<Longrightarrow> slice_at p n (sent_block cmd) = slice_at p n cmd"
proof -
  have "base_ok ((base_of cmd)\<lparr>command_type := NW_NEW_INVOCATION\<rparr>)"
    using base_ok_base_of [OF assms] by (simp add: base_ok_def)
  then show "base_of (sent_block cmd) = (base_of cmd)\<lparr>command_type := NW_NEW_INVOCATION\<rparr>"
    "length (sent_block cmd) = length cmd" "136 \<le> p \<Longrightarrow> slice_at p n (sent_block cmd) = slice_at p n cmd"
    using assms by (simp_all add: sent_block_def)
qed

lemma sendable_sent [simp]: "sendable cmd \<Longrightarrow> sendable (sent_block cmd)"
  by (simp add: sendable_def sent_block_simps)

lemma sendable_size:
  "sendable cmd \<Longrightarrow> unat (command_size (base_of cmd) + region_size (base_of cmd)) = length cmd"
  by (simp add: sendable_def unat_plus_small)

lemma sock_send_ok:
  assumes "io_progress os" "sendable cmd"
  shows "command_channel_socket_send_command os chan cmd = Inr (chan\<lparr>sock_out := sock_out chan @ sent_block cmd\<rparr>)"
proof -
  have l: "136 \<le> length cmd" using assms(2) by (simp add: sendable_def)
  then have "sent_block cmd \<noteq> []" using sent_block_simps(2) [OF l] by auto
  from send_socket_progress [OF assms(1) this, of "sock_out chan"] obtain r where
    "send_socket os (sent_block cmd) (sock_out chan) = Inr (r, sock_out chan @ sent_block cmd)" ..
  moreover have "mem_read 0 (length cmd) (sent_block cmd) = Inr (sent_block cmd)"
    using sent_block_simps(2) [OF l] by (simp add: mem_read_def slice_at_def)
  ultimately show ?thesis
    using sendable_size [OF sendable_sent [OF assms(2)]] sent_block_simps(2) [OF l]
    by (simp add: command_channel_socket_send_command_def Let_def flip: sent_block_def)
qed

lemma sock_receive_ok:
  assumes p: "io_progress os" "malloc_ok mal" and c: "sendable cmd" and st: "sock_in chan = cmd @ rest"
    and ev: "0 \<le> poll_ret" "revents AND POLLRDHUP = 0" "revents AND POLLIN \<noteq> 0"
  shows "command_channel_socket_receive_command mal os poll_ret revents chan = Inr (Some cmd, chan\<lparr>sock_in := rest\<rparr>)"
proof -
  let ?n = "command_size (base_of cmd) + region_size (base_of cmd)"
  have l: "136 \<le> length cmd" "unat ?n = length cmd" "length (mal (length cmd)) = length cmd"
    using c sendable_size [OF c] p(2) by (simp_all add: sendable_def malloc_ok_def)
  have m: "unat (?n - 136) = length cmd - 136" using l by (simp add: unat_sub word_le_nat_alt)
  have r1: "recv_socket os 136 (cmd @ rest) = Inr (take 136 cmd, drop 136 cmd @ rest)"
    using l by (subst recv_socket_progress [OF p(1)]) simp_all
  have r2: "recv_socket os (length cmd - 136) (drop 136 cmd @ rest) = Inr (drop 136 cmd, rest)"
    using l by (subst recv_socket_progress [OF p(1)]) simp_all
  have "revents \<noteq> 0" using ev(3) by auto
  with ev l m r1 r2 st show ?thesis
    by (simp add: command_channel_socket_receive_command_def Let_def base_of_take mem_write_def splice_at_def)
qed

text \<open>The sender's writes into the command it was given: the identification fields of the base structure and
  the fields of the derived structure behind it.\<close>

definition fill_command :: "u8 \<Rightarrow> u64 \<Rightarrow> u64 \<Rightarrow> bytes \<Rightarrow> bytes \<Rightarrow> bytes" where
  "fill_command api cid thread args cmd =
     splice_at 136 args (set_base ((base_of cmd)\<lparr>api_id := api, command_id := cid, thread_id := thread\<rparr>) cmd)"

lemma fill_command_simps:
  assumes l: "136 + length args \<le> length cmd"
  shows "base_of (fill_command api cid thread args cmd) = (base_of cmd)\<lparr>api_id := api, command_id := cid, thread_id := thread\<rparr>"
    "length (fill_command api cid thread args cmd) = length cmd"
    "slice_at 136 (length args) (fill_command api cid thread args cmd) = args"
    "136 + length args \<le> p \<Longrightarrow> p + n \<le> length cmd \<Longrightarrow>
       slice_at p n (fill_command api cid thread args cmd) = slice_at p n cmd"
proof -
  let ?b = "(base_of cmd)\<lparr>api_id := api, command_id := cid, thread_id := thread\<rparr>"
  have ok: "base_ok ?b" using base_ok_base_of [of cmd] l by (simp add: base_ok_def)
  show "base_of (fill_command api cid thread args cmd) = ?b"
    "length (fill_command api cid thread args cmd) = length cmd"
    using l ok by (simp_all add: fill_command_def base_of_splice)
  show "slice_at 136 (length args) (fill_command api cid thread args cmd) = args"
    by (simp add: fill_command_def slice_splice_same)
  show "slice_at p n (fill_command api cid thread args cmd) = slice_at p n cmd"
    if "136 + length args \<le> p" "p + n \<le> length cmd"
    using that l ok by (simp add: fill_command_def slice_splice_disjoint)
qed

lemma sock_new_ok:
  assumes mal: "malloc_ok mal" and ss: "136 \<le> unat ss" "unat ss + unat ds < 2 ^ 64"
  shows "\<exists>cmd. command_channel_socket_new_command mal chan ss ds = Inr cmd \<and> sock_ok cmd \<and>
    sock_room cmd = unat ds \<and> length cmd = unat ss + unat ds \<and> seek_cur cmd = ss \<and>
    command_size (base_of cmd) = ss \<and> region_size (base_of cmd) = ds \<and> vm_id (base_of cmd) = sock_vm_id chan"
proof -
  let ?m = "malloc_zeroed mal (unat (ss + ds)) (unat ss)"
  have u: "unat (ss + ds) = unat ss + unat ds" using ss by (simp add: unat_plus_small)
  have l: "length ?m = unat ss + unat ds" using mal u by simp
  have ok: "base_ok ((base_of ?m)\<lparr>vm_id := sock_vm_id chan, command_size := ss, data_region := ss, region_size := ds\<rparr>)"
    using base_ok_base_of [of ?m] l ss by (simp add: base_ok_def)
  show ?thesis
    using ss u l ok
    by (simp add: command_channel_socket_new_command_def Let_def seek_simps sock_ok_def sock_room_def)
qed

text \<open>\<open>attach_buffer\<close> changes the base structure only in the block seeker.\<close>

lemma sock_attach_base:
  assumes "command_channel_socket_attach_buffer cmd (Some bs) = Inr (i, cmd')" "136 \<le> length cmd" "136 \<le> unat (seek_cur cmd)"
  shows "length cmd' = length cmd \<and> command_size (base_of cmd') = command_size (base_of cmd) \<and>
    region_size (base_of cmd') = region_size (base_of cmd) \<and> i = seek_cur cmd"
  using assms
  by (auto simp: command_channel_socket_attach_buffer_def Let_def res_simps mem_write_def seek_simps base_of_splice
      split: if_splits)

lemma sock_attach_list_base:
  assumes "attach_list (\<lambda>cmd b. command_channel_socket_attach_buffer cmd (Some b)) cmd bs = Inr (is, cmd')"
    "sock_ok cmd" "[] \<notin> set bs" "sum_list (map length bs) \<le> sock_room cmd"
  shows "length cmd' = length cmd \<and> command_size (base_of cmd') = command_size (base_of cmd) \<and>
    region_size (base_of cmd') = region_size (base_of cmd) \<and> (\<forall>i\<in>set is. unat (seek_cur cmd) \<le> unat i)"
  using assms
proof (induction bs arbitrary: cmd "is")
  case (Cons b bs)
  from Cons.prems(1) obtain i cmd1 is' where
    a: "command_channel_socket_attach_buffer cmd (Some b) = Inr (i, cmd1)"
    and r: "attach_list (\<lambda>cmd b. command_channel_socket_attach_buffer cmd (Some b)) cmd1 bs = Inr (is', cmd')"
    and "is": "is = i # is'" by (auto simp: res_simps)
  have b: "b \<noteq> []" "length b \<le> sock_room cmd" using Cons.prems by auto
  from sock.attach_ok [OF Cons.prems(2) b] a have ok1: "sock_ok cmd1" "sock_room cmd1 = sock_room cmd - length b" by auto
  have "sum_list (map length bs) \<le> sock_room cmd1" "[] \<notin> set bs" using Cons.prems ok1 by auto
  note IH = Cons.IH [OF r ok1(1) this(2,1)]
  have "unat (seek_cur cmd) \<le> unat (seek_cur cmd1)" using sock_attach_step [OF Cons.prems(2) b] a by auto
  with IH sock_attach_base [OF a] Cons.prems(2) "is" show ?case by (auto simp: sock_ok_def)
qed auto

primrec sock_send_all :: "os_io \<Rightarrow> bytes list \<Rightarrow> command_channel_socket \<Rightarrow> command_channel_socket res" where
  "sock_send_all os [] chan = Inr chan"
| "sock_send_all os (cmd # cmds) chan =
     rbind (command_channel_socket_send_command os chan cmd) (sock_send_all os cmds)"

primrec sock_receive_n ::
  "(nat \<Rightarrow> bytes) \<Rightarrow> os_io \<Rightarrow> nat \<Rightarrow> command_channel_socket \<Rightarrow> (bytes option list \<times> command_channel_socket) res" where
  "sock_receive_n mal os 0 chan = Inr ([], chan)"
| "sock_receive_n mal os (Suc n) chan =
     rbind (command_channel_socket_receive_command mal os 1 POLLIN chan) (\<lambda>(cmd, chan).
     rbind (sock_receive_n mal os n chan) (\<lambda>(cmds, chan). Inr (cmd # cmds, chan)))"

lemma poll_bits: "POLLIN AND POLLRDHUP = 0" "POLLIN AND POLLIN \<noteq> 0" "POLLIN \<noteq> 0"
  by (simp_all add: POLLIN_def POLLRDHUP_def)

lemma sock_send_all_ok:
  assumes "io_progress os" "\<forall>cmd\<in>set cmds. sendable cmd"
  shows "sock_send_all os cmds chan = Inr (chan\<lparr>sock_out := sock_out chan @ concat (map sent_block cmds)\<rparr>)"
  using assms(2)
proof (induction cmds arbitrary: chan)
  case (Cons cmd cmds)
  then show ?case
    using Cons.IH [of "chan\<lparr>sock_out := sock_out chan @ sent_block cmd\<rparr>"] by (simp add: sock_send_ok [OF assms(1)])
qed simp

lemma sock_receive_n_ok:
  assumes "io_progress os" "malloc_ok mal" "\<forall>cmd\<in>set cmds. sendable cmd" "sock_in chan = concat cmds @ rest"
  shows "sock_receive_n mal os (length cmds) chan = Inr (map Some cmds, chan\<lparr>sock_in := rest\<rparr>)"
  using assms(3,4)
proof (induction cmds arbitrary: chan)
  case (Cons cmd cmds)
  then show ?case
    using sock_receive_ok [OF assms(1,2), of cmd chan "concat cmds @ rest" 1 POLLIN]
      Cons.IH [of "chan\<lparr>sock_in := concat cmds @ rest\<rparr>"]
    by (simp add: poll_bits)
qed simp

section \<open>Properties\<close>

text \<open>C9: A command built by the sender, with any buffers that fit the announced data region, arrives
  unchanged: sending puts one block on the stream, the receiver reads exactly that block and leaves the
  rest of the stream, and in the received command the identification fields, the sender's own fields and
  every buffer under the identifier returned by \<open>attach_buffer\<close> are those the sender supplied. This holds
  however the kernel splits the transfer.\<close>

theorem socket_command_roundtrip:
  assumes os: "io_progress os" "io_progress os'" and mal: "malloc_ok mal" "malloc_ok mal'"
    and ss: "136 + length args \<le> unat ss" "unat ss + unat ds < 2 ^ 64"
    and bs: "[] \<notin> set bs" "sum_list (map length bs) \<le> unat ds"
  shows "\<exists>cmd ids cmd1 chan1 blk.
    command_channel_socket_new_command mal chan ss ds = Inr cmd \<and>
    attach_list (\<lambda>cmd b. command_channel_socket_attach_buffer cmd (Some b)) cmd bs = Inr (ids, cmd1) \<and>
    command_channel_socket_send_command os chan (fill_command api cid th args cmd1) = Inr chan1 \<and>
    sock_out chan1 = sock_out chan @ blk \<and>
    (\<forall>peer rest. sock_in peer = blk @ rest \<longrightarrow>
       command_channel_socket_receive_command mal' os' 1 POLLIN peer = Inr (Some blk, peer\<lparr>sock_in := rest\<rparr>)) \<and>
    api_id (base_of blk) = api \<and> command_id (base_of blk) = cid \<and> thread_id (base_of blk) = th \<and>
    slice_at 136 (length args) blk = args \<and>
    list_all2 (\<lambda>i b. command_channel_socket_get_buffer blk i (length b) = Inr b) ids bs"
proof -
  from sock_new_ok [OF mal(1), of ss ds chan] ss obtain cmd where
    n: "command_channel_socket_new_command mal chan ss ds = Inr cmd" "sock_ok cmd" "sock_room cmd = unat ds"
       "length cmd = unat ss + unat ds" "seek_cur cmd = ss" "command_size (base_of cmd) = ss"
       "region_size (base_of cmd) = ds" by auto
  from sock.attach_list_ok [OF n(2) bs(1)] bs(2) n(3) obtain ids cmd1 where
    a: "attach_list (\<lambda>cmd b. command_channel_socket_attach_buffer cmd (Some b)) cmd bs = Inr (ids, cmd1)"
       "list_all2 (\<lambda>i b. command_channel_socket_get_buffer cmd1 i (length b) = Inr b) ids bs" by auto
  have e: "length cmd1 = length cmd" "command_size (base_of cmd1) = ss" "region_size (base_of cmd1) = ds"
    "\<forall>i\<in>set ids. unat ss \<le> unat i"
    using sock_attach_list_base [OF a(1) n(2) bs(1)] bs(2) n by auto
  define cmd2 where "cmd2 = fill_command api cid th args cmd1"
  have l: "136 + length args \<le> length cmd1" using e n ss by simp
  note f = fill_command_simps [OF l, where api = api and cid = cid and thread = th, folded cmd2_def]
  have sd: "sendable cmd2" using f e n ss by (simp add: sendable_def)
  have l2: "136 \<le> length cmd2" using l f by simp
  have g: "list_all2 (\<lambda>i b. command_channel_socket_get_buffer (sent_block cmd2) i (length b) = Inr b) ids bs"
    using a(2)
  proof (rule list.rel_mono_strong)
    fix i b assume "i \<in> set ids" and r: "command_channel_socket_get_buffer cmd1 i (length b) = Inr b"
    then have i: "unat ss \<le> unat i" using e(4) by blast
    with r show "command_channel_socket_get_buffer (sent_block cmd2) i (length b) = Inr b"
      using ss f l2 by (auto simp: command_channel_socket_get_buffer_def mem_read_Inr sent_block_simps)
  qed
  show ?thesis
    using n(1) a(1) sock_send_ok [OF os(1) sd, of chan] g sent_block_simps [OF l2] f
      sock_receive_ok [OF os(2) mal(2) sendable_sent [OF sd]]
    by (intro exI [of _ cmd] exI [of _ ids] exI [of _ cmd1] exI [of _ "sent_block cmd2"] exI)
       (auto simp: cmd2_def poll_bits)
qed

theorem socket_command_roundtrip_witness:
  "\<exists>cmd ids cmd1 chan1 blk.
    command_channel_socket_new_command (\<lambda>n. replicate n 9) \<lparr>sock_vm_id = 1, sock_out = [], sock_in = []\<rparr> 138 3 = Inr cmd \<and>
    attach_list (\<lambda>cmd b. command_channel_socket_attach_buffer cmd (Some b)) cmd [[7, 8], [9]] = Inr (ids, cmd1) \<and>
    command_channel_socket_send_command (\<lambda>_ _. 1) \<lparr>sock_vm_id = 1, sock_out = [], sock_in = []\<rparr>
      (fill_command 4 5 6 [1, 2] cmd1) = Inr chan1 \<and>
    command_id (base_of blk) = 5 \<and> slice_at 136 (length [1, 2 :: u8]) blk = [1, 2] \<and>
    list_all2 (\<lambda>i b. command_channel_socket_get_buffer blk i (length b) = Inr b) ids [[7, 8], [9]]"
proof -
  have h: "io_progress (\<lambda>_ _. 1)" "malloc_ok (\<lambda>n. replicate n 9)" by (simp_all add: io_progress_def malloc_ok_def)
  have k: "136 + length [1, 2 :: u8] \<le> unat (138 :: u64)" "unat (138 :: u64) + unat (3 :: u64) < 2 ^ 64"
    "[] \<notin> set [[7, 8], [9 :: u8]]" "sum_list (map length [[7, 8], [9 :: u8]]) \<le> unat (3 :: u64)" by simp_all
  show ?thesis
    using socket_command_roundtrip [OF h(1) h(1) h(2) h(2) k, of "\<lparr>sock_vm_id = 1, sock_out = [], sock_in = []\<rparr>" 4 5 6]
    by blast
qed

text \<open>C31: The socket channel is a FIFO of whole commands: the commands sent in a row are received one by one
  in the same order, each marked as a new invocation and otherwise unchanged, and nothing is left over.\<close>

theorem socket_channel_fifo:
  assumes "io_progress os" "io_progress os'" "malloc_ok mal" "\<forall>cmd\<in>set cmds. sendable cmd"
    and "sock_out chan = []" "sock_in peer = []"
  shows "\<exists>chan1. sock_send_all os cmds chan = Inr chan1 \<and>
    sock_receive_n mal os' (length cmds) (peer\<lparr>sock_in := sock_out chan1\<rparr>) = Inr (map (Some \<circ> sent_block) cmds, peer)"
proof -
  have "\<forall>cmd\<in>set (map sent_block cmds). sendable cmd" using assms(4) by auto
  from sock_receive_n_ok [OF assms(2,3) this, of "peer\<lparr>sock_in := concat (map sent_block cmds)\<rparr>" "[]"] assms(6)
  have "sock_receive_n mal os' (length cmds) (peer\<lparr>sock_in := concat (map sent_block cmds)\<rparr>) =
      Inr (map (Some \<circ> sent_block) cmds, peer)" by simp
  with sock_send_all_ok [OF assms(1,4), of chan] assms(5) show ?thesis by simp
qed

lemma ex_cmd_sendable: "sendable (ex_cmd 0)" "sendable (ex_cmd 2 @ [7, 8])"
  by (simp_all add: sendable_def base_of_append)

theorem socket_channel_fifo_witness:
  "\<exists>chan1. sock_send_all (\<lambda>_ _. 1) [ex_cmd 2 @ [7, 8], ex_cmd 0] \<lparr>sock_vm_id = 1, sock_out = [], sock_in = []\<rparr> = Inr chan1 \<and>
    sock_receive_n (\<lambda>n. replicate n 9) (\<lambda>_ _. 5) 2 (\<lparr>sock_vm_id = 0, sock_out = [], sock_in = []\<rparr>\<lparr>sock_in := sock_out chan1\<rparr>) =
      Inr ([Some (sent_block (ex_cmd 2 @ [7, 8])), Some (sent_block (ex_cmd 0))], \<lparr>sock_vm_id = 0, sock_out = [], sock_in = []\<rparr>)"
proof -
  have h: "io_progress (\<lambda>_ _. 1)" "io_progress (\<lambda>_ _. 5)" "malloc_ok (\<lambda>n. replicate n 9)"
    by (simp_all add: io_progress_def malloc_ok_def)
  have k: "\<forall>cmd\<in>set [ex_cmd 2 @ [7, 8], ex_cmd 0]. sendable cmd" by (simp add: ex_cmd_sendable)
  show ?thesis
    using socket_channel_fifo [OF h k, of "\<lparr>sock_vm_id = 1, sock_out = [], sock_in = []\<rparr>"
        "\<lparr>sock_vm_id = 0, sock_out = [], sock_in = []\<rparr>"] by (simp only: list.map list.size o_apply One_nat_def) (simp add: numeral_2_eq_2 eval_nat_numeral)
qed

text \<open>Forwarding a command with a data region, as migration does, delivers the command structure followed
  by the region to the receiver; with an empty data region the sender stops at the assertion of
  \<open>send_socket\<close>.\<close>

theorem socket_transfer_command:
  assumes "io_progress os" "io_progress os'" "malloc_ok mal"
    and "136 \<le> unat (command_size (base_of cmd))"
    and "unat (command_size (base_of cmd)) \<le> length cmd" "unat (region_size (base_of cmd)) \<le> length region"
    and "unat (command_size (base_of cmd)) + unat (region_size (base_of cmd)) < 2 ^ 64"
    and "sock_out chan = []"
  defines "img \<equiv> take (unat (command_size (base_of cmd))) cmd @ take (unat (region_size (base_of cmd))) region"
  shows "if region_size (base_of cmd) = 0
    then command_channel_socket_transfer_command os chan cmd region = Inl (AssertFail ''size > 0'')
    else command_channel_socket_transfer_command os chan cmd region = Inr (chan\<lparr>sock_out := img\<rparr>) \<and>
      command_channel_socket_receive_command mal os' 1 POLLIN \<lparr>sock_vm_id = v, sock_out = [], sock_in = img\<rparr> =
        Inr (Some img, \<lparr>sock_vm_id = v, sock_out = [], sock_in = []\<rparr>)"
proof -
  let ?cs = "unat (command_size (base_of cmd))" and ?rs = "unat (region_size (base_of cmd))"
  have l: "136 \<le> length cmd" "136 \<le> length (take ?cs cmd)" using assms by simp_all
  have "take ?cs cmd \<noteq> []" using l by auto
  from send_socket_progress [OF assms(1) this, of "[]"] obtain r where
    s1: "send_socket os (take ?cs cmd) [] = Inr (r, take ?cs cmd)" by auto
  have m: "mem_read 0 ?cs cmd = Inr (take ?cs cmd)" "mem_read 0 ?rs region = Inr (take ?rs region)"
    using assms by (simp_all add: mem_read_def slice_at_def)
  show ?thesis
  proof (cases "region_size (base_of cmd) = 0")
    case True
    then show ?thesis using s1 m assms
      by (simp add: command_channel_socket_transfer_command_def Let_def)
  next
    case False
    then have "take ?rs region \<noteq> []" using assms by (auto simp: unsigned_eq_0_iff)
    from send_socket_progress [OF assms(1) this, of "take ?cs cmd"] obtain r' where
      s2: "send_socket os (take ?rs region) (take ?cs cmd) = Inr (r', img)" unfolding img_def by auto
    have "base_of img = base_of cmd" using l assms(4) by (simp add: img_def base_of_append base_of_take)
    then have "sendable img" using assms by (simp add: sendable_def img_def)
    from sock_receive_ok [OF assms(2,3) this, of "\<lparr>sock_vm_id = v, sock_out = [], sock_in = img\<rparr>" "[]"]
    show ?thesis using False s1 s2 m assms(8)
      by (simp add: command_channel_socket_transfer_command_def Let_def poll_bits)
  qed
qed

theorem socket_transfer_command_witness:
  "command_channel_socket_transfer_command (\<lambda>_ _. 1) \<lparr>sock_vm_id = 1, sock_out = [], sock_in = []\<rparr> (ex_cmd 2) [7, 8] =
     Inr \<lparr>sock_vm_id = 1, sock_out = ex_cmd 2 @ [7, 8], sock_in = []\<rparr> \<and>
   command_channel_socket_transfer_command (\<lambda>_ _. 1) \<lparr>sock_vm_id = 1, sock_out = [], sock_in = []\<rparr> (ex_cmd 0) [] =
     Inl (AssertFail ''size > 0'')"
proof -
  have h: "io_progress (\<lambda>_ _. 1)" "malloc_ok (\<lambda>n. replicate n 9)" by (simp_all add: io_progress_def malloc_ok_def)
  show ?thesis
    using socket_transfer_command [OF h(1) h(1) h(2), of "ex_cmd 2" "[7, 8]" "\<lparr>sock_vm_id = 1, sock_out = [], sock_in = []\<rparr>"]
      socket_transfer_command [OF h(1) h(1) h(2), of "ex_cmd 0" "[]" "\<lparr>sock_vm_id = 1, sock_out = [], sock_in = []\<rparr>"]
    by simp
qed

end
