(* ===== verification/Shm_Channel.thy ===== *)
theory Shm_Channel
  imports Socket_Channel
begin

text \<open>
  The shared memory channel (\<open>common/cmd_channel_shm.c\<close> for the guest library and
  \<open>common/cmd_channel_shm_worker.c\<close> for the worker): command structures travel over a vsock doorbell,
  buffers through a parameter block in shared memory. The guest reserves regions in the first half of
  the block, the worker in the second half. The memory of the parameter block is an explicit byte list;
  addresses are offsets from \<open>param_block.base\<close>.
\<close>

section \<open>State\<close>

record param_block =
  pb_size :: u64
  pb_offset :: u64
  pb_cur_offset :: u64

record command_channel_shm =
  shm_block :: param_block
  shm_vm_id :: u8
  shm_out :: bytes
  shm_in :: bytes

section \<open>Guest side\<close>

definition reserve_param_block :: "param_block \<Rightarrow> u64 \<Rightarrow> u64 \<times> param_block" where
  "reserve_param_block block sz =
     (let cur = (if pb_size block div 2 \<le> pb_cur_offset block + sz then 0 else pb_cur_offset block)
      in (cur, block\<lparr>pb_cur_offset := cur + sz\<rparr>))"

definition command_channel_shm_new_command ::
  "command_channel_shm \<Rightarrow> u64 \<Rightarrow> u64 \<Rightarrow> (bytes \<times> command_channel_shm) res" where
  "command_channel_shm_new_command chan struct_size data_size =
     (if unat struct_size < 136 then Inl OutOfBounds
      else let cmd = replicate (unat struct_size) 0;
               cmd = set_base ((base_of cmd)\<lparr>command_size := struct_size\<rparr>) cmd;
               (cmd, data_size, chan) =
                 (if data_size \<noteq> 0 then
                    let data_size = data_size + 4;
                        (local, block) = reserve_param_block (shm_block chan) data_size;
                        cmd = set_seek_cur (local + 4) (set_seek_local local cmd);
                        cmd = set_base ((base_of cmd)\<lparr>data_region := local + pb_offset block\<rparr>) cmd
                    in (cmd, data_size, chan\<lparr>shm_block := block\<rparr>)
                  else (cmd, data_size, chan))
           in Inr (set_base ((base_of cmd)\<lparr>region_size := data_size, vm_id := shm_vm_id chan\<rparr>) cmd, chan))"

definition command_channel_shm_attach_buffer ::
  "bytes \<Rightarrow> bytes \<Rightarrow> bytes option \<Rightarrow> (u64 \<times> bytes \<times> bytes) res" where
  "command_channel_shm_attach_buffer mem cmd buffer =
     (case buffer of
        None \<Rightarrow> Inl (AssertFail ''buffer && size != 0'')
      | Some bs \<Rightarrow>
          rbind (c_assert (length bs \<noteq> 0) ''buffer && size != 0'') (\<lambda>_.
            let off = seek_cur cmd - seek_local cmd;
                cmd = set_seek_cur (seek_cur cmd + of_nat (length bs)) cmd
            in rbind (mem_write (unat (seek_local cmd + off)) bs mem) (\<lambda>mem. Inr (off, mem, cmd))))"

definition command_channel_shm_send_command ::
  "os_io \<Rightarrow> command_channel_shm \<Rightarrow> bytes \<Rightarrow> command_channel_shm res" where
  "command_channel_shm_send_command os chan cmd =
     (let cmd = set_base ((base_of cmd)\<lparr>command_type := NW_NEW_INVOCATION\<rparr>) cmd
      in rbind (mem_read 0 (unat (command_size (base_of cmd))) cmd) (\<lambda>buf.
         rbind (send_socket os buf (shm_out chan)) (\<lambda>(r, out). Inr (chan\<lparr>shm_out := out\<rparr>))))"

text \<open>\<open>region\<close> is the memory at the address that the source channel returns for the data region.\<close>

definition command_channel_shm_transfer_command ::
  "os_io \<Rightarrow> bytes \<Rightarrow> command_channel_shm \<Rightarrow> bytes \<Rightarrow> bytes \<Rightarrow> (bytes \<times> command_channel_shm) res" where
  "command_channel_shm_transfer_command os mem chan cmd region =
     (let b = base_of cmd
      in rbind (command_channel_shm_new_command chan (command_size b) (region_size b)) (\<lambda>(new, chan).
         let new = set_base ((base_of new)\<lparr>api_id := api_id b, command_id := command_id b,
                     command_type := command_type b, cmd_flags := cmd_flags b, vm_id := vm_id b\<rparr>) new
         in rbind (mem_read 0 (unat (region_size b)) region) (\<lambda>reg.
            rbind (command_channel_shm_attach_buffer mem new (Some reg)) (\<lambda>(off, mem, new).
            rbind (command_channel_shm_send_command os chan new) (\<lambda>chan. Inr (mem, chan))))))"

definition command_channel_shm_receive_command ::
  "(nat \<Rightarrow> bytes) \<Rightarrow> os_io \<Rightarrow> int \<Rightarrow> u32 \<Rightarrow> command_channel_shm \<Rightarrow> (bytes option \<times> command_channel_shm) res" where
  "command_channel_shm_receive_command mal os poll_ret revents chan =
     (if poll_ret < 0 then Inl (ExitProc 0)
      else if revents = 0 then Inr (None, chan)
      else if revents AND POLLRDHUP \<noteq> 0 then Inl (ExitProc 0)
      else if revents AND POLLIN \<noteq> 0 then
        rbind (recv_socket os 136 (shm_in chan)) (\<lambda>(hd, st).
        let n = command_size (base_of hd)
        in rbind (mem_write 0 hd (mal (unat n))) (\<lambda>cmd.
           rbind (recv_socket os (unat (n - 136)) st) (\<lambda>(body, st).
           rbind (mem_write 136 body cmd) (\<lambda>cmd.
           Inr (Some cmd, chan\<lparr>shm_in := st\<rparr>)))))
      else Inr (None, chan))"

text \<open>The offset of a buffer in the parameter block, or \<open>NULL\<close>.\<close>

definition command_channel_shm_get_buffer :: "bytes \<Rightarrow> u64 \<Rightarrow> u64 option" where
  "command_channel_shm_get_buffer cmd buffer_id =
     (if buffer_id \<noteq> 0 then Some (seek_local cmd + buffer_id) else None)"

definition command_channel_shm_get_data_region :: "bytes \<Rightarrow> u64" where
  "command_channel_shm_get_data_region cmd = seek_local cmd"

section \<open>Worker side\<close>

definition reserve_param_block_worker :: "param_block \<Rightarrow> u64 \<Rightarrow> u64 \<times> param_block" where
  "reserve_param_block_worker block sz =
     (let cur = (if pb_size block \<le> pb_cur_offset block + sz then pb_size block div 2 else pb_cur_offset block)
      in (cur, block\<lparr>pb_cur_offset := cur + sz\<rparr>))"

definition command_channel_shm_worker_new_command ::
  "command_channel_shm \<Rightarrow> u64 \<Rightarrow> u64 \<Rightarrow> (bytes \<times> command_channel_shm) res" where
  "command_channel_shm_worker_new_command chan struct_size data_size =
     (if unat struct_size < 136 then Inl OutOfBounds
      else let cmd = replicate (unat struct_size) 0;
               cmd = set_base ((base_of cmd)\<lparr>command_size := struct_size\<rparr>) cmd;
               (cmd, data_size, chan) =
                 (if data_size \<noteq> 0 then
                    let data_size = data_size + 4;
                        (local, block) = reserve_param_block_worker (shm_block chan) data_size;
                        cmd = set_seek_cur (local + 4) (set_seek_local local cmd);
                        cmd = set_base ((base_of cmd)\<lparr>data_region := local\<rparr>) cmd
                    in (cmd, data_size, chan\<lparr>shm_block := block\<rparr>)
                  else (cmd, data_size, chan))
           in Inr (set_base ((base_of cmd)\<lparr>region_size := data_size, vm_id := shm_vm_id chan\<rparr>) cmd, chan))"

definition command_channel_shm_worker_send_command ::
  "os_io \<Rightarrow> command_channel_shm \<Rightarrow> bytes \<Rightarrow> command_channel_shm res" where
  "command_channel_shm_worker_send_command os chan cmd =
     rbind (mem_read 0 (unat (command_size (base_of cmd))) cmd) (\<lambda>buf.
     rbind (send_socket os buf (shm_out chan)) (\<lambda>(r, out). Inr (chan\<lparr>shm_out := out\<rparr>)))"

definition command_channel_shm_worker_attach_buffer ::
  "bytes \<Rightarrow> bytes \<Rightarrow> bytes option \<Rightarrow> (u64 \<times> bytes \<times> bytes) res" where
  "command_channel_shm_worker_attach_buffer mem cmd buffer =
     (case buffer of
        None \<Rightarrow> Inl (AssertFail ''buffer && size != 0'')
      | Some bs \<Rightarrow>
          rbind (c_assert (length bs \<noteq> 0) ''buffer && size != 0'') (\<lambda>_.
            let off = seek_cur cmd - seek_local cmd;
                cmd = set_seek_cur (seek_cur cmd + of_nat (length bs)) cmd
            in rbind (mem_write (unat (seek_local cmd + off)) bs mem) (\<lambda>mem. Inr (off, mem, cmd))))"

definition command_channel_shm_worker_transfer_command ::
  "os_io \<Rightarrow> bytes \<Rightarrow> command_channel_shm \<Rightarrow> bytes \<Rightarrow> bytes \<Rightarrow> (bytes \<times> command_channel_shm) res" where
  "command_channel_shm_worker_transfer_command os mem chan cmd region =
     (let b = base_of cmd
      in rbind (command_channel_shm_worker_new_command chan (command_size b) (region_size b)) (\<lambda>(new, chan).
         let new = set_base ((base_of new)\<lparr>api_id := api_id b, command_id := command_id b,
                     command_type := command_type b, cmd_flags := cmd_flags b, vm_id := vm_id b\<rparr>) new
         in rbind (mem_read 0 (unat (region_size b)) region) (\<lambda>reg.
            rbind (command_channel_shm_worker_attach_buffer mem new (Some reg)) (\<lambda>(off, mem, new).
            rbind (command_channel_shm_worker_send_command os chan new) (\<lambda>chan. Inr (mem, chan))))))"

definition command_channel_shm_worker_receive_command ::
  "(nat \<Rightarrow> bytes) \<Rightarrow> os_io \<Rightarrow> int \<Rightarrow> u32 \<Rightarrow> command_channel_shm \<Rightarrow> (bytes option \<times> command_channel_shm) res" where
  "command_channel_shm_worker_receive_command mal os poll_ret revents chan =
     (if poll_ret < 0 then Inl (ExitProc (- 1))
      else if revents = 0 then Inr (None, chan)
      else if revents AND POLLRDHUP \<noteq> 0 then Inl (ExitProc (- 1))
      else if revents AND POLLIN \<noteq> 0 then
        rbind (recv_socket os 136 (shm_in chan)) (\<lambda>(hd, st).
        let n = command_size (base_of hd)
        in rbind (mem_write 0 hd (mal (unat n))) (\<lambda>cmd.
           rbind (recv_socket os (unat (n - 136)) st) (\<lambda>(body, st).
           rbind (mem_write 136 body cmd) (\<lambda>cmd.
           Inr (Some cmd, chan\<lparr>shm_in := st\<rparr>)))))
      else Inr (None, chan))"

definition command_channel_shm_worker_get_buffer :: "bytes \<Rightarrow> u64 \<Rightarrow> u64 option" where
  "command_channel_shm_worker_get_buffer cmd buffer_id =
     (if buffer_id \<noteq> 0 then Some (seek_local cmd + buffer_id) else None)"

text \<open>The worker takes the parameter block from the guest's first message and starts in its second half.\<close>

definition worker_param_block :: "u64 \<Rightarrow> u64 \<Rightarrow> param_block" where
  "worker_param_block sz offset = \<lparr>pb_size = sz, pb_offset = offset, pb_cur_offset = drop_bit 1 sz\<rparr>"

section \<open>Reservations\<close>

text \<open>The regions, start and length, of reservations made in a row.\<close>

primrec reserve_list :: "(param_block \<Rightarrow> u64 \<Rightarrow> u64 \<times> param_block) \<Rightarrow> param_block \<Rightarrow> u64 list \<Rightarrow>
    (nat \<times> nat) list \<times> param_block" where
  "reserve_list res b [] = ([], b)"
| "reserve_list res b (n # ns) =
     (let (off, b) = res b n; (rs, b) = reserve_list res b ns in ((unat off, unat n) # rs, b))"

definition region_disjoint :: "nat \<times> nat \<Rightarrow> nat \<times> nat \<Rightarrow> bool" where
  "region_disjoint r q \<longleftrightarrow> fst r + snd r \<le> fst q \<or> fst q + snd q \<le> fst r"

text \<open>The contract of both allocators: a bump pointer in the interval from \<open>lo\<close> to \<open>hi\<close> that starts over at
  \<open>lo\<close> when a reservation would reach \<open>hi\<close>.\<close>

locale param_ring =
  fixes reserve :: "param_block \<Rightarrow> u64 \<Rightarrow> u64 \<times> param_block"
    and lo hi :: "param_block \<Rightarrow> nat"
  assumes reserve_spec: "lo b \<le> unat (pb_cur_offset b) \<Longrightarrow> unat (pb_cur_offset b) \<le> hi b \<Longrightarrow>
      unat (pb_size b) < 2 ^ 63 \<Longrightarrow> unat n < hi b - lo b \<Longrightarrow>
      \<exists>off. reserve b n = (off, b\<lparr>pb_cur_offset := off + n\<rparr>) \<and> unat (off + n) = unat off + unat n \<and>
        unat off = (if unat (pb_cur_offset b) + unat n < hi b then unat (pb_cur_offset b) else lo b)"
    and bounds_stable: "lo (b\<lparr>pb_cur_offset := c\<rparr>) = lo b" "hi (b\<lparr>pb_cur_offset := c\<rparr>) = hi b"
begin

lemma reserve_list_within:
  assumes "lo b \<le> unat (pb_cur_offset b)" "unat (pb_cur_offset b) \<le> hi b" "unat (pb_size b) < 2 ^ 63"
    "\<forall>n\<in>set ns. unat n < hi b - lo b"
  shows "\<forall>r\<in>set (fst (reserve_list reserve b ns)). lo b \<le> fst r \<and> fst r + snd r < hi b"
  using assms
proof (induction ns arbitrary: b)
  case (Cons n ns)
  then have n: "unat n < hi b - lo b" by simp
  from reserve_spec [OF Cons.prems(1-3) n] obtain off where
    r: "reserve b n = (off, b\<lparr>pb_cur_offset := off + n\<rparr>)" "unat (off + n) = unat off + unat n"
       "unat off = (if unat (pb_cur_offset b) + unat n < hi b then unat (pb_cur_offset b) else lo b)" by blast
  then have w: "lo b \<le> unat off" "unat off + unat n < hi b" using Cons.prems(1) n by (auto split: if_splits)
  with Cons.IH [of "b\<lparr>pb_cur_offset := off + n\<rparr>"] Cons.prems r show ?case
    by (auto simp: Let_def case_prod_beta bounds_stable)
qed simp

lemma reserve_list_no_wrap:
  assumes "lo b \<le> unat (pb_cur_offset b)" "unat (pb_size b) < 2 ^ 63"
    "unat (pb_cur_offset b) + sum_list (map unat ns) < hi b"
  shows "sorted_wrt (\<lambda>r q. fst r + snd r \<le> fst q) (fst (reserve_list reserve b ns)) \<and>
    (\<forall>r\<in>set (fst (reserve_list reserve b ns)). unat (pb_cur_offset b) \<le> fst r) \<and>
    map snd (fst (reserve_list reserve b ns)) = map unat ns"
  using assms
proof (induction ns arbitrary: b)
  case (Cons n ns)
  then have n: "unat n < hi b - lo b" "unat (pb_cur_offset b) \<le> hi b" by auto
  from reserve_spec [OF Cons.prems(1) n(2) Cons.prems(2) n(1)] obtain off where
    r: "reserve b n = (off, b\<lparr>pb_cur_offset := off + n\<rparr>)" "unat (off + n) = unat off + unat n"
       "unat off = (if unat (pb_cur_offset b) + unat n < hi b then unat (pb_cur_offset b) else lo b)" by blast
  have o: "unat off = unat (pb_cur_offset b)" using r(3) Cons.prems(3) by simp
  have "lo (b\<lparr>pb_cur_offset := off + n\<rparr>) \<le> unat (pb_cur_offset (b\<lparr>pb_cur_offset := off + n\<rparr>))"
    using Cons.prems(1) r(2) o by (simp add: bounds_stable)
  from Cons.IH [OF this] Cons.prems r(1,2) o show ?case
    by (fastforce simp: Let_def case_prod_beta bounds_stable)
qed simp

end

interpretation guest_ring: param_ring reserve_param_block "\<lambda>_. 0" "\<lambda>b. unat (pb_size b) div 2"
proof
  fix b :: param_block and n :: u64
  assume a: "unat (pb_cur_offset b) \<le> unat (pb_size b) div 2" "unat (pb_size b) < 2 ^ 63"
    "unat n < unat (pb_size b) div 2 - 0"
  have c: "unat (pb_cur_offset b + n) = unat (pb_cur_offset b) + unat n"
    using a by (intro unat_plus_63) linarith+
  have h: "unat (pb_size b div 2) = unat (pb_size b) div 2" by (simp add: unat_div)
  show "\<exists>off. reserve_param_block b n = (off, b\<lparr>pb_cur_offset := off + n\<rparr>) \<and> unat (off + n) = unat off + unat n \<and>
      unat off = (if unat (pb_cur_offset b) + unat n < unat (pb_size b) div 2 then unat (pb_cur_offset b) else 0)"
    using c h by (auto simp: reserve_param_block_def Let_def word_le_nat_alt)
qed simp_all

interpretation worker_ring: param_ring reserve_param_block_worker "\<lambda>b. unat (pb_size b) div 2" "\<lambda>b. unat (pb_size b)"
proof
  fix b :: param_block and n :: u64
  assume a: "unat (pb_size b) div 2 \<le> unat (pb_cur_offset b)" "unat (pb_cur_offset b) \<le> unat (pb_size b)"
    "unat (pb_size b) < 2 ^ 63" "unat n < unat (pb_size b) - unat (pb_size b) div 2"
  have h: "unat (pb_size b div 2) = unat (pb_size b) div 2" by (simp add: unat_div)
  have "unat (pb_cur_offset b) < 2 ^ 63" "unat n < 2 ^ 63" "unat (pb_size b div 2) < 2 ^ 63" using a h by linarith+
  then have c: "unat (pb_cur_offset b + n) = unat (pb_cur_offset b) + unat n"
    "unat (pb_size b div 2 + n) = unat (pb_size b) div 2 + unat n"
    using h by (simp_all only: unat_plus_63)
  show "\<exists>off. reserve_param_block_worker b n = (off, b\<lparr>pb_cur_offset := off + n\<rparr>) \<and> unat (off + n) = unat off + unat n \<and>
      unat off = (if unat (pb_cur_offset b) + unat n < unat (pb_size b) then unat (pb_cur_offset b) else unat (pb_size b) div 2)"
    using c h by (auto simp: reserve_param_block_worker_def Let_def word_le_nat_alt)
qed simp_all

section \<open>Attached buffers in the parameter block\<close>

text \<open>The state that attaching changes: the shared memory and the command.\<close>

type_synonym shm_state = "bytes \<times> bytes"

definition shm_attach :: "shm_state \<Rightarrow> bytes \<Rightarrow> (u64 \<times> shm_state) res" where
  "shm_attach s b =
     rbind (command_channel_shm_attach_buffer (fst s) (snd s) (Some b)) (\<lambda>(off, mem, cmd). Inr (off, (mem, cmd)))"

definition shm_worker_attach :: "shm_state \<Rightarrow> bytes \<Rightarrow> (u64 \<times> shm_state) res" where
  "shm_worker_attach s b =
     rbind (command_channel_shm_worker_attach_buffer (fst s) (snd s) (Some b)) (\<lambda>(off, mem, cmd). Inr (off, (mem, cmd)))"

definition shm_get :: "shm_state \<Rightarrow> u64 \<Rightarrow> nat \<Rightarrow> bytes res" where
  "shm_get s i n =
     (case command_channel_shm_get_buffer (snd s) i of
        None \<Rightarrow> Inl NullDeref
      | Some a \<Rightarrow> mem_read (unat a) n (fst s))"

definition shm_worker_get :: "shm_state \<Rightarrow> u64 \<Rightarrow> nat \<Rightarrow> bytes res" where
  "shm_worker_get s i n =
     (case command_channel_shm_worker_get_buffer (snd s) i of
        None \<Rightarrow> Inl NullDeref
      | Some a \<Rightarrow> mem_read (unat a) n (fst s))"

definition shm_ok :: "shm_state \<Rightarrow> bool" where
  "shm_ok s \<longleftrightarrow> 136 \<le> length (snd s) \<and> length (fst s) < 2 ^ 63 \<and>
     unat (seek_local (snd s)) + 4 \<le> unat (seek_cur (snd s)) \<and>
     unat (seek_cur (snd s)) \<le> unat (seek_local (snd s)) + unat (region_size (base_of (snd s))) \<and>
     unat (seek_local (snd s)) + unat (region_size (base_of (snd s))) \<le> length (fst s)"

definition shm_room :: "shm_state \<Rightarrow> nat" where
  "shm_room s = unat (seek_local (snd s)) + unat (region_size (base_of (snd s))) - unat (seek_cur (snd s))"

definition shm_live :: "shm_state \<Rightarrow> u64 \<Rightarrow> nat \<Rightarrow> bool" where
  "shm_live s i n \<longleftrightarrow> 4 \<le> unat i \<and> unat (seek_local (snd s)) + unat i + n \<le> unat (seek_cur (snd s))"

lemma shm_attach_step:
  assumes "shm_ok (mem, cmd)" "bs \<noteq> []" "length bs \<le> shm_room (mem, cmd)"
  shows "shm_attach (mem, cmd) bs = Inr (seek_cur cmd - seek_local cmd,
      splice_at (unat (seek_cur cmd)) bs mem, set_seek_cur (seek_cur cmd + of_nat (length bs)) cmd)"
    and "unat (seek_cur cmd + of_nat (length bs)) = unat (seek_cur cmd) + length bs"
    and "unat (seek_cur cmd - seek_local cmd) = unat (seek_cur cmd) - unat (seek_local cmd)"
    and "unat (seek_cur cmd) + length bs \<le> length mem"
proof -
  have l: "136 \<le> length cmd" "unat (seek_cur cmd) + length bs \<le> length mem" "length mem < 2 ^ 63"
    "unat (seek_local cmd) \<le> unat (seek_cur cmd)"
    using assms by (auto simp: shm_ok_def shm_room_def)
  then show "unat (seek_cur cmd) + length bs \<le> length mem" by simp
  show "shm_attach (mem, cmd) bs = Inr (seek_cur cmd - seek_local cmd,
      splice_at (unat (seek_cur cmd)) bs mem, set_seek_cur (seek_cur cmd + of_nat (length bs)) cmd)"
    using l assms(2)
    by (simp add: shm_attach_def command_channel_shm_attach_buffer_def Let_def seek_simps mem_write_def)
  have b: "length bs < 2 ^ 63" "unat (seek_cur cmd) < 2 ^ 63" using l by linarith+
  then have u: "unat (of_nat (length bs) :: u64) = length bs" by (simp add: unat_of_nat)
  show "unat (seek_cur cmd + of_nat (length bs)) = unat (seek_cur cmd) + length bs"
    using unat_plus_63 [of "seek_cur cmd" "of_nat (length bs)"] b u by simp
  show "unat (seek_cur cmd - seek_local cmd) = unat (seek_cur cmd) - unat (seek_local cmd)"
    using l by (simp add: unat_sub word_le_nat_alt)
qed

lemma unat_plus_mem:
  "unat (a :: u64) + unat b \<le> n \<Longrightarrow> n < 2 ^ 63 \<Longrightarrow> unat (a + b) = unat a + unat b"
  by (rule unat_plus_63) linarith+

lemma shm_buffer_channel: "buffer_channel shm_attach shm_get shm_live shm_room shm_ok"
proof
  fix s :: shm_state and b :: bytes
  assume a: "shm_ok s" "b \<noteq> []" "length b \<le> shm_room s"
  obtain mem cmd where s: "s = (mem, cmd)" by (cases s)
  note st = shm_attach_step [OF a(1,2,3) [unfolded s]]
  let ?cmd = "set_seek_cur (seek_cur cmd + of_nat (length b)) cmd"
  have l: "136 \<le> length cmd" "length mem < 2 ^ 63" "unat (seek_local cmd) + 4 \<le> unat (seek_cur cmd)"
    using a s by (auto simp: shm_ok_def)
  have ne: "seek_cur cmd \<noteq> seek_local cmd" using l(3) by auto
  show "\<exists>i s'. shm_attach s b = Inr (i, s') \<and> shm_ok s' \<and> shm_room s' = shm_room s - length b \<and>
      shm_live s' i (length b) \<and> shm_get s' i (length b) = Inr b"
    using a l st ne slice_splice_same
    by (auto simp: s shm_ok_def shm_room_def shm_live_def shm_get_def command_channel_shm_get_buffer_def
        mem_read_def seek_simps)
next
  fix s s' :: shm_state and b :: bytes and i j :: u64 and n :: nat
  assume a: "shm_ok s" "b \<noteq> []" "length b \<le> shm_room s" and att: "shm_attach s b = Inr (i, s')"
    and lv: "shm_live s j n"
  obtain mem cmd where s: "s = (mem, cmd)" by (cases s)
  note st = shm_attach_step [OF a(1,2,3) [unfolded s]]
  let ?cmd = "set_seek_cur (seek_cur cmd + of_nat (length b)) cmd"
  have s': "s' = (splice_at (unat (seek_cur cmd)) b mem, ?cmd)" using st(1) att s by auto
  have l: "136 \<le> length cmd" "length mem < 2 ^ 63" "unat (seek_cur cmd) \<le> length mem"
    using a s by (auto simp: shm_ok_def)
  have j: "4 \<le> unat j" "unat (seek_local cmd) + unat j + n \<le> unat (seek_cur cmd)" "j \<noteq> 0"
    using lv s by (auto simp: shm_live_def)
  have u: "unat (seek_local cmd + j) = unat (seek_local cmd) + unat j"
    using j l by (intro unat_plus_mem [of _ _ "length mem"]) linarith+
  have "slice_at (unat (seek_local cmd + j)) n (splice_at (unat (seek_cur cmd)) b mem) =
      slice_at (unat (seek_local cmd + j)) n mem"
    using j l u by (intro slice_splice_disjoint) linarith+
  then show "shm_live s' j n \<and> shm_get s' j n = shm_get s j n"
    using j l u st lv
    by (auto simp: s s' shm_live_def shm_get_def command_channel_shm_get_buffer_def mem_read_def seek_simps)
qed

interpretation shm: buffer_channel shm_attach shm_get shm_live shm_room shm_ok
  by (rule shm_buffer_channel)

lemma shm_worker_ops: "shm_worker_attach = shm_attach" "shm_worker_get = shm_get"
  by (intro ext, simp add: shm_worker_attach_def shm_attach_def command_channel_shm_worker_attach_buffer_def
      command_channel_shm_attach_buffer_def,
      intro ext, simp add: shm_worker_get_def shm_get_def command_channel_shm_worker_get_buffer_def
      command_channel_shm_get_buffer_def)

interpretation shm_worker: buffer_channel shm_worker_attach shm_worker_get shm_live shm_room shm_ok
  unfolding shm_worker_ops by (rule shm_buffer_channel)

section \<open>New commands\<close>

text \<open>The block both \<open>new_command\<close> functions build when there is a data region.\<close>

definition shm_init_block :: "u64 \<Rightarrow> u64 \<Rightarrow> u64 \<Rightarrow> u64 \<Rightarrow> u8 \<Rightarrow> bytes" where
  "shm_init_block ss local region dreg v =
     (let cmd = set_base ((base_of (replicate (unat ss) 0))\<lparr>command_size := ss\<rparr>) (replicate (unat ss) 0);
          cmd = set_seek_cur (local + 4) (set_seek_local local cmd);
          cmd = set_base ((base_of cmd)\<lparr>data_region := dreg\<rparr>) cmd
      in set_base ((base_of cmd)\<lparr>region_size := region, vm_id := v\<rparr>) cmd)"

lemma base_ok_update:
  "base_ok b \<Longrightarrow> base_ok (b\<lparr>command_size := x\<rparr>)" "base_ok b \<Longrightarrow> base_ok (b\<lparr>data_region := x\<rparr>)"
  "base_ok b \<Longrightarrow> base_ok (b\<lparr>region_size := x, vm_id := v\<rparr>)"
  by (simp_all add: base_ok_def)

lemma seek_update:
  assumes "136 \<le> length cmd"
  shows "seek_cur (set_base ((base_of cmd)\<lparr>data_region := x\<rparr>) cmd) = seek_cur cmd"
    "seek_local (set_base ((base_of cmd)\<lparr>data_region := x\<rparr>) cmd) = seek_local cmd"
    "seek_cur (set_base ((base_of cmd)\<lparr>region_size := x, vm_id := v\<rparr>) cmd) = seek_cur cmd"
    "seek_local (set_base ((base_of cmd)\<lparr>region_size := x, vm_id := v\<rparr>) cmd) = seek_local cmd"
  using assms by (simp_all add: seek_cur_def seek_local_def base_ok_update)

lemma shm_init_block:
  assumes "136 \<le> unat ss"
  shows "length (shm_init_block ss local region dreg v) = unat ss"
    "seek_local (shm_init_block ss local region dreg v) = local"
    "seek_cur (shm_init_block ss local region dreg v) = local + 4"
    "command_size (base_of (shm_init_block ss local region dreg v)) = ss"
    "region_size (base_of (shm_init_block ss local region dreg v)) = region"
    "vm_id (base_of (shm_init_block ss local region dreg v)) = v"
    "drop 136 (shm_init_block ss local region dreg v) = replicate (unat ss - 136) 0"
proof -
  define c1 where "c1 = set_base ((base_of (replicate (unat ss) 0))\<lparr>command_size := ss\<rparr>) (replicate (unat ss) 0)"
  define c2 where "c2 = set_seek_cur (local + 4) (set_seek_local local c1)"
  define c3 where "c3 = set_base ((base_of c2)\<lparr>data_region := dreg\<rparr>) c2"
  have c: "shm_init_block ss local region dreg v = set_base ((base_of c3)\<lparr>region_size := region, vm_id := v\<rparr>) c3"
    by (simp add: shm_init_block_def Let_def c1_def c2_def c3_def)
  have 1: "length c1 = unat ss" "command_size (base_of c1) = ss" "drop 136 c1 = replicate (unat ss - 136) 0"
    using assms by (simp_all add: c1_def base_ok_update)
  have 2: "length c2 = unat ss" "command_size (base_of c2) = ss" "drop 136 c2 = replicate (unat ss - 136) 0"
    "seek_local c2 = local" "seek_cur c2 = local + 4"
    using assms 1 by (simp_all add: c2_def seek_simps)
  have 3: "length c3 = unat ss" "command_size (base_of c3) = ss" "drop 136 c3 = replicate (unat ss - 136) 0"
    "seek_local c3 = local" "seek_cur c3 = local + 4"
    using assms 2 by (simp_all add: c3_def seek_update base_ok_update)
  show "length (shm_init_block ss local region dreg v) = unat ss"
    "seek_local (shm_init_block ss local region dreg v) = local"
    "seek_cur (shm_init_block ss local region dreg v) = local + 4"
    "command_size (base_of (shm_init_block ss local region dreg v)) = ss"
    "region_size (base_of (shm_init_block ss local region dreg v)) = region"
    "vm_id (base_of (shm_init_block ss local region dreg v)) = v"
    "drop 136 (shm_init_block ss local region dreg v) = replicate (unat ss - 136) 0"
    using assms 3 by (simp_all add: c seek_update base_ok_update)
qed

lemma shm_new_guest:
  assumes "136 \<le> unat ss" "ds \<noteq> 0" "reserve_param_block (shm_block chan) (ds + 4) = (off, blk)"
  shows "command_channel_shm_new_command chan ss ds =
    Inr (shm_init_block ss off (ds + 4) (off + pb_offset blk) (shm_vm_id chan), chan\<lparr>shm_block := blk\<rparr>)"
  using assms by (simp add: command_channel_shm_new_command_def shm_init_block_def Let_def)

lemma shm_new_worker:
  assumes "136 \<le> unat ss" "ds \<noteq> 0" "reserve_param_block_worker (shm_block chan) (ds + 4) = (off, blk)"
  shows "command_channel_shm_worker_new_command chan ss ds =
    Inr (shm_init_block ss off (ds + 4) off (shm_vm_id chan), chan\<lparr>shm_block := blk\<rparr>)"
  using assms by (simp add: command_channel_shm_worker_new_command_def shm_init_block_def Let_def)

lemma shm_init_ok:
  assumes "136 \<le> unat ss" "unat ds + 4 < 2 ^ 63" "unat off + unat ds + 4 \<le> length mem" "length mem < 2 ^ 63"
  shows "shm_ok (mem, shm_init_block ss off (ds + 4) dreg v)" "shm_room (mem, shm_init_block ss off (ds + 4) dreg v) = unat ds"
proof -
  have "unat (ds + 4) = unat ds + 4" using assms(2) by (subst unat_plus_63) simp_all
  moreover have "unat (off + 4) = unat off + 4" using assms(3,4) by (subst unat_plus_63) simp_all
  ultimately show "shm_ok (mem, shm_init_block ss off (ds + 4) dreg v)"
    "shm_room (mem, shm_init_block ss off (ds + 4) dreg v) = unat ds"
    using assms by (simp_all add: shm_ok_def shm_room_def shm_init_block)
qed

lemma shm_attach_list_frame:
  assumes "attach_list shm_attach s bs = Inr (is, s')" "shm_ok s" "[] \<notin> set bs" "sum_list (map length bs) \<le> shm_room s"
  shows "take (unat (seek_local (snd s))) (fst s') = take (unat (seek_local (snd s))) (fst s) \<and>
    drop (unat (seek_local (snd s)) + unat (region_size (base_of (snd s)))) (fst s') =
      drop (unat (seek_local (snd s)) + unat (region_size (base_of (snd s)))) (fst s) \<and>
    length (snd s') = length (snd s) \<and>
    command_size (base_of (snd s')) = command_size (base_of (snd s)) \<and>
    region_size (base_of (snd s')) = region_size (base_of (snd s)) \<and> seek_local (snd s') = seek_local (snd s)"
  using assms
proof (induction bs arbitrary: s "is")
  case (Cons b bs)
  obtain mem cmd where s: "s = (mem, cmd)" by (cases s)
  have b: "b \<noteq> []" "length b \<le> shm_room (mem, cmd)" using Cons.prems s by auto
  note st = shm_attach_step [OF Cons.prems(2) [unfolded s] b]
  let ?s1 = "(splice_at (unat (seek_cur cmd)) b mem, set_seek_cur (seek_cur cmd + of_nat (length b)) cmd)"
  from Cons.prems(1) st(1) obtain is' where r: "attach_list shm_attach ?s1 bs = Inr (is', s')"
    by (auto simp: res_simps s)
  have l: "136 \<le> length cmd" "unat (seek_cur cmd) \<le> length mem" "unat (seek_local cmd) \<le> unat (seek_cur cmd)"
    "unat (seek_cur cmd) + length b \<le> unat (seek_local cmd) + unat (region_size (base_of cmd))"
    using Cons.prems(2) s b by (auto simp: shm_ok_def shm_room_def)
  from shm.attach_ok [OF Cons.prems(2) [unfolded s] b] st(1)
  have ok1: "shm_ok ?s1" "shm_room ?s1 = shm_room (mem, cmd) - length b" by auto
  have "sum_list (map length bs) \<le> shm_room ?s1" "[] \<notin> set bs" using Cons.prems(3,4) ok1(2) s by auto
  from Cons.IH [OF r ok1(1) this(2,1)] l show ?case
    by (simp add: s seek_simps drop_splice take_splice)
qed simp

section \<open>The doorbell\<close>

definition shm_sendable :: "bytes \<Rightarrow> bool" where
  "shm_sendable cmd \<longleftrightarrow> 136 \<le> length cmd \<and> length cmd = unat (command_size (base_of cmd))"

lemma seek_local_sent: "136 \<le> length cmd \<Longrightarrow> seek_local (sent_block cmd) = seek_local cmd"
  by (simp add: seek_local_def sent_block_simps)

lemma shm_send_ok:
  assumes os: "io_progress os" and c: "shm_sendable cmd"
  shows "command_channel_shm_send_command os chan cmd = Inr (chan\<lparr>shm_out := shm_out chan @ sent_block cmd\<rparr>)"
proof -
  have l: "136 \<le> length cmd" using c by (simp add: shm_sendable_def)
  then have "sent_block cmd \<noteq> []" using sent_block_simps(2) [OF l] by auto
  from send_socket_progress [OF os this, of "shm_out chan"] obtain r where
    "send_socket os (sent_block cmd) (shm_out chan) = Inr (r, shm_out chan @ sent_block cmd)" ..
  then show ?thesis
    using c sent_block_simps [OF l]
    by (simp add: command_channel_shm_send_command_def Let_def mem_read_def slice_at_def shm_sendable_def flip: sent_block_def)
qed

lemma shm_worker_receive_ok:
  assumes p: "io_progress os" "malloc_ok mal" and c: "shm_sendable cmd" and st: "shm_in chan = cmd @ rest"
  shows "command_channel_shm_worker_receive_command mal os 1 POLLIN chan = Inr (Some cmd, chan\<lparr>shm_in := rest\<rparr>)"
proof -
  let ?n = "command_size (base_of cmd)"
  have l: "136 \<le> length cmd" "unat ?n = length cmd" "length (mal (length cmd)) = length cmd"
    using c p(2) by (simp_all add: shm_sendable_def malloc_ok_def)
  have m: "unat (?n - 136) = length cmd - 136" using l by (simp add: unat_sub word_le_nat_alt)
  have r1: "recv_socket os 136 (cmd @ rest) = Inr (take 136 cmd, drop 136 cmd @ rest)"
    using l by (subst recv_socket_progress [OF p(1)]) simp_all
  have r2: "recv_socket os (length cmd - 136) (drop 136 cmd @ rest) = Inr (drop 136 cmd, rest)"
    using l by (subst recv_socket_progress [OF p(1)]) simp_all
  show ?thesis
    using l m r1 r2 st
    by (simp add: command_channel_shm_worker_receive_command_def Let_def base_of_take mem_write_def splice_at_def poll_bits)
qed

section \<open>Properties\<close>

text \<open>C8: A guest command with buffers, sent over the shared memory channel, reaches the worker: if the
  region fits below half of the parameter block, the command is built, sent and received, the worker
  finds the sender's fields in it and every buffer at the shared memory address it computes from the
  buffer identifier, and the worker's half of the block is untouched.\<close>

theorem shm_command_roundtrip:
  assumes os: "io_progress os" "io_progress os'" and mal: "malloc_ok mal"
    and ss: "136 + length args \<le> unat ss" and ds: "ds \<noteq> 0"
    and pb: "length mem = unat (pb_size (shm_block chan))" "length mem < 2 ^ 63"
      "unat (pb_cur_offset (shm_block chan)) \<le> length mem div 2" "unat ds + 4 < length mem div 2"
    and bs: "[] \<notin> set bs" "sum_list (map length bs) \<le> unat ds"
  shows "\<exists>cmd chan1 ids mem1 cmd1 chan2 blk.
    command_channel_shm_new_command chan ss ds = Inr (cmd, chan1) \<and>
    attach_list shm_attach (mem, cmd) bs = Inr (ids, (mem1, cmd1)) \<and>
    command_channel_shm_send_command os chan1 (fill_command api cid th args cmd1) = Inr chan2 \<and>
    shm_out chan2 = shm_out chan @ blk \<and>
    (\<forall>peer rest. shm_in peer = blk @ rest \<longrightarrow>
       command_channel_shm_worker_receive_command mal os' 1 POLLIN peer = Inr (Some blk, peer\<lparr>shm_in := rest\<rparr>)) \<and>
    command_id (base_of blk) = cid \<and> slice_at 136 (length args) blk = args \<and>
    list_all2 (\<lambda>i b. shm_worker_get (mem1, blk) i (length b) = Inr b) ids bs \<and>
    drop (length mem div 2) mem1 = drop (length mem div 2) mem"
proof -
  have ds4: "unat (ds + 4) = unat ds + 4" using pb by (subst unat_plus_63) simp_all
  from guest_ring.reserve_spec [of "shm_block chan" "ds + 4"] pb ds4 obtain off where
    r: "reserve_param_block (shm_block chan) (ds + 4) = (off, (shm_block chan)\<lparr>pb_cur_offset := off + (ds + 4)\<rparr>)"
    and off: "unat off + unat ds + 4 < length mem div 2"
    by (auto split: if_splits)
  define cmd where "cmd = shm_init_block ss off (ds + 4) (off + pb_offset (shm_block chan)) (shm_vm_id chan)"
  have ss': "136 \<le> unat ss" using ss by simp
  note i = shm_init_block [OF ss', of off "ds + 4" "off + pb_offset (shm_block chan)" "shm_vm_id chan", folded cmd_def]
  have ok: "shm_ok (mem, cmd)" "shm_room (mem, cmd) = unat ds"
    using shm_init_ok [OF ss', of ds off mem] pb off unfolding cmd_def by auto
  from shm.attach_list_ok [OF ok(1) bs(1)] bs(2) ok(2) obtain ids mem1 cmd1 where
    a: "attach_list shm_attach (mem, cmd) bs = Inr (ids, (mem1, cmd1))"
       "list_all2 (\<lambda>i b. shm_get (mem1, cmd1) i (length b) = Inr b) ids bs" by auto
  from shm_attach_list_frame [OF a(1) ok(1) bs(1)] bs(2) ok(2) i
  have e: "drop (unat off + unat (ds + 4)) mem1 = drop (unat off + unat (ds + 4)) mem" "length cmd1 = unat ss"
    "command_size (base_of cmd1) = ss" "seek_local cmd1 = off" by auto
  define cmd2 where "cmd2 = fill_command api cid th args cmd1"
  have l: "136 + length args \<le> length cmd1" using e ss by simp
  note f = fill_command_simps [OF l, where api = api and cid = cid and thread = th, folded cmd2_def]
  have l2: "136 \<le> length cmd2" using f l by simp
  have sd: "shm_sendable cmd2" "shm_sendable (sent_block cmd2)"
    using f e l by (simp_all add: shm_sendable_def sent_block_simps)
  have "seek_local (sent_block cmd2) = seek_local cmd1"
    using f seek_local_sent [OF l2] by (simp add: seek_local_def)
  then have "shm_get (mem1, sent_block cmd2) = shm_get (mem1, cmd1)"
    by (intro ext) (simp add: shm_get_def command_channel_shm_get_buffer_def)
  then have g: "list_all2 (\<lambda>i b. shm_worker_get (mem1, sent_block cmd2) i (length b) = Inr b) ids bs"
    using a(2) by (simp add: shm_worker_ops)
  have "drop (length mem div 2 - (unat off + unat (ds + 4))) (drop (unat off + unat (ds + 4)) mem1) =
      drop (length mem div 2 - (unat off + unat (ds + 4))) (drop (unat off + unat (ds + 4)) mem)" by (simp only: e(1))
  then have d: "drop (length mem div 2) mem1 = drop (length mem div 2) mem" using off ds4 by simp
  define chan1 where "chan1 = chan\<lparr>shm_block := (shm_block chan)\<lparr>pb_cur_offset := off + (ds + 4)\<rparr>\<rparr>"
  have n: "command_channel_shm_new_command chan ss ds = Inr (cmd, chan1)"
    using shm_new_guest [OF ss' ds r] by (simp add: cmd_def chan1_def)
  have s: "command_channel_shm_send_command os chan1 (fill_command api cid th args cmd1) =
      Inr (chan1\<lparr>shm_out := shm_out chan @ sent_block cmd2\<rparr>)"
    using shm_send_ok [OF os(1) sd(1), of chan1] by (simp add: cmd2_def chan1_def)
  have c: "command_id (base_of (sent_block cmd2)) = cid" "slice_at 136 (length args) (sent_block cmd2) = args"
    using f sent_block_simps [OF l2] by simp_all
  have o: "shm_out (chan1\<lparr>shm_out := shm_out chan @ sent_block cmd2\<rparr>) = shm_out chan @ sent_block cmd2" by simp
  show ?thesis
    using n a(1) s o shm_worker_receive_ok [OF os(2) mal sd(2)] c g d by blast
qed

abbreviation ex_shm :: "command_channel_shm" where
  "ex_shm \<equiv> \<lparr>shm_block = \<lparr>pb_size = 64, pb_offset = 0, pb_cur_offset = 30\<rparr>, shm_vm_id = 1, shm_out = [], shm_in = []\<rparr>"

theorem shm_command_roundtrip_witness:
  "\<exists>cmd chan1 ids mem1 cmd1 chan2 blk.
    command_channel_shm_new_command ex_shm 138 3 = Inr (cmd, chan1) \<and>
    attach_list shm_attach (replicate 64 0, cmd) [[7, 8], [9]] = Inr (ids, (mem1, cmd1)) \<and>
    command_channel_shm_send_command (\<lambda>_ _. 1) chan1 (fill_command 4 5 6 [1, 2] cmd1) = Inr chan2 \<and>
    command_id (base_of blk) = 5 \<and>
    list_all2 (\<lambda>i b. shm_worker_get (mem1, blk) i (length b) = Inr b) ids [[7, 8], [9]] \<and>
    drop 32 mem1 = drop 32 (replicate 64 0)"
proof -
  have h: "io_progress (\<lambda>_ _. 1)" "malloc_ok (\<lambda>n. replicate n 9)" by (simp_all add: io_progress_def malloc_ok_def)
  show ?thesis
    using shm_command_roundtrip [OF h(1) h(1) h(2), where args = "[1, 2]" and ss = 138 and ds = 3
        and mem = "replicate 64 0" and chan = ex_shm and bs = "[[7, 8], [9]]" and api = 4 and cid = 5 and th = 6]
    by simp blast
qed

text \<open>C32: Guest and worker never hand out overlapping regions: for any sequences of reservations smaller than
  half of the block, started from the two halves, every guest region lies in the first half and every
  worker region in the second.\<close>

theorem shm_halves_disjoint:
  assumes "pb_size b = pb_size b'" "unat (pb_size b) < 2 ^ 63" "pb_cur_offset b = 0"
    "pb_cur_offset b' = pb_size b' div 2"
    "\<forall>n\<in>set ns. unat n < unat (pb_size b) div 2" "\<forall>n\<in>set ms. unat n < unat (pb_size b) div 2"
  shows "\<forall>r\<in>set (fst (reserve_list reserve_param_block b ns)).
    \<forall>q\<in>set (fst (reserve_list reserve_param_block_worker b' ms)).
      fst r + snd r < unat (pb_size b) div 2 \<and> unat (pb_size b) div 2 \<le> fst q \<and> fst q + snd q < unat (pb_size b) \<and>
      region_disjoint r q"
proof -
  have c: "unat (pb_cur_offset b') = unat (pb_size b') div 2" using assms(4) by (simp add: unat_div)
  have g: "\<forall>r\<in>set (fst (reserve_list reserve_param_block b ns)). fst r + snd r < unat (pb_size b) div 2"
    using guest_ring.reserve_list_within [of b ns] assms by auto
  have "\<forall>n\<in>set ms. unat n < unat (pb_size b') - unat (pb_size b') div 2" using assms by auto
  then have w: "\<forall>q\<in>set (fst (reserve_list reserve_param_block_worker b' ms)).
      unat (pb_size b') div 2 \<le> fst q \<and> fst q + snd q < unat (pb_size b')"
    using worker_ring.reserve_list_within [of b' ms] assms(1,2) c by auto
  show ?thesis
  proof (intro ballI)
    fix r q
    assume "r \<in> set (fst (reserve_list reserve_param_block b ns))"
      "q \<in> set (fst (reserve_list reserve_param_block_worker b' ms))"
    with g w have "fst r + snd r < unat (pb_size b) div 2" "unat (pb_size b') div 2 \<le> fst q"
      "fst q + snd q < unat (pb_size b')" by blast+
    then show "fst r + snd r < unat (pb_size b) div 2 \<and> unat (pb_size b) div 2 \<le> fst q \<and>
        fst q + snd q < unat (pb_size b) \<and> region_disjoint r q"
      using assms(1) by (simp add: region_disjoint_def)
  qed
qed

theorem shm_halves_disjoint_witness:
  "fst (reserve_list reserve_param_block \<lparr>pb_size = 64, pb_offset = 0, pb_cur_offset = 0\<rparr> [20, 20]) = [(0, 20), (0, 20)] \<and>
   fst (reserve_list reserve_param_block_worker \<lparr>pb_size = 64, pb_offset = 0, pb_cur_offset = 32\<rparr> [20, 8]) = [(32, 20), (52, 8)] \<and>
   region_disjoint (0, 20) (32, 20)"
proof -
  have e: "fst (reserve_list reserve_param_block \<lparr>pb_size = 64, pb_offset = 0, pb_cur_offset = 0\<rparr> [20, 20]) = [(0, 20), (0, 20)]"
    "fst (reserve_list reserve_param_block_worker \<lparr>pb_size = 64, pb_offset = 0, pb_cur_offset = 32\<rparr> [20, 8]) = [(32, 20), (52, 8)]"
    by (simp_all add: reserve_param_block_def reserve_param_block_worker_def)
  with shm_halves_disjoint [of "\<lparr>pb_size = 64, pb_offset = 0, pb_cur_offset = 0\<rparr>"
      "\<lparr>pb_size = 64, pb_offset = 0, pb_cur_offset = 32\<rparr>" "[20, 20]" "[20, 8]"]
  show ?thesis by simp
qed

text \<open>As long as the reservations made in a row stay below the end of the half, on either side, the regions
  follow each other and are pairwise disjoint, each as long as requested.\<close>

theorem shm_reservations_consecutive:
  assumes "unat (pb_size b) < 2 ^ 63"
  shows "(unat (pb_cur_offset b) + sum_list (map unat ns) < unat (pb_size b) div 2 \<longrightarrow>
      sorted_wrt (\<lambda>r q. fst r + snd r \<le> fst q) (fst (reserve_list reserve_param_block b ns)) \<and>
      map snd (fst (reserve_list reserve_param_block b ns)) = map unat ns) \<and>
    (unat (pb_size b) div 2 \<le> unat (pb_cur_offset b) \<and>
      unat (pb_cur_offset b) + sum_list (map unat ns) < unat (pb_size b) \<longrightarrow>
      sorted_wrt (\<lambda>r q. fst r + snd r \<le> fst q) (fst (reserve_list reserve_param_block_worker b ns)) \<and>
      map snd (fst (reserve_list reserve_param_block_worker b ns)) = map unat ns)"
  using guest_ring.reserve_list_no_wrap [of b ns] worker_ring.reserve_list_no_wrap [of b ns] assms by simp

theorem shm_reservations_consecutive_witness:
  "sorted_wrt (\<lambda>r q. fst r + snd r \<le> fst q)
     (fst (reserve_list reserve_param_block \<lparr>pb_size = 64, pb_offset = 0, pb_cur_offset = 0\<rparr> [8, 8, 8])) \<and>
   fst (reserve_list reserve_param_block \<lparr>pb_size = 64, pb_offset = 0, pb_cur_offset = 0\<rparr> [8, 8, 8]) =
     [(0, 8), (8, 8), (16, 8)]"
  using shm_reservations_consecutive [of "\<lparr>pb_size = 64, pb_offset = 0, pb_cur_offset = 0\<rparr>" "[8, 8, 8]"]
  by (simp add: reserve_param_block_def)

text \<open>A guest reservation larger than half of the block is not refused: it is placed at offset 0 and reaches
  into the worker's half, where it overlaps the worker's first region.\<close>

theorem shm_large_reservation_overlaps:
  assumes "unat (pb_size b) < 2 ^ 63" "unat (pb_cur_offset b) \<le> unat (pb_size b) div 2"
    "unat (pb_size b) div 2 < unat n" "unat n < 2 ^ 63" "0 < k"
  shows "fst (reserve_param_block b n) = 0 \<and> \<not> region_disjoint (0, unat n) (unat (pb_size b) div 2, k)"
proof -
  have "unat (pb_cur_offset b) < 2 ^ 63" using assms(1,2) by linarith
  then have "unat (pb_cur_offset b + n) = unat (pb_cur_offset b) + unat n" using assms(4) by (rule unat_plus_63)
  then have "pb_size b div 2 \<le> pb_cur_offset b + n" using assms(3) by (simp add: word_le_nat_alt unat_div)
  then show ?thesis using assms(3,5) by (simp add: reserve_param_block_def Let_def region_disjoint_def)
qed

theorem shm_large_reservation_overlaps_witness:
  "fst (reserve_param_block \<lparr>pb_size = 64, pb_offset = 0, pb_cur_offset = 0\<rparr> 40) = 0 \<and>
   \<not> region_disjoint (0, 40) (32, 8)"
  using shm_large_reservation_overlaps [of "\<lparr>pb_size = 64, pb_offset = 0, pb_cur_offset = 0\<rparr>" 40 8] by simp

lemma shm_retag:
  fixes new :: bytes and b :: command_base
  assumes "136 \<le> length new"
  defines "new' \<equiv> set_base ((base_of new)\<lparr>api_id := api_id b, command_id := command_id b,
      command_type := command_type b, cmd_flags := cmd_flags b, vm_id := vm_id b\<rparr>) new"
  shows "length new' = length new" "drop 136 new' = drop 136 new" "seek_local new' = seek_local new"
    "seek_cur new' = seek_cur new" "region_size (base_of new') = region_size (base_of new)"
    "command_size (base_of new') = command_size (base_of new)"
proof -
  have "base_ok ((base_of new)\<lparr>api_id := api_id b, command_id := command_id b,
      command_type := command_type b, cmd_flags := cmd_flags b, vm_id := vm_id b\<rparr>)"
    using base_ok_base_of [OF assms(1)] by (simp add: base_ok_def)
  with assms(1) show "length new' = length new" "drop 136 new' = drop 136 new" "seek_local new' = seek_local new"
    "seek_cur new' = seek_cur new" "region_size (base_of new') = region_size (base_of new)"
    "command_size (base_of new') = command_size (base_of new)"
    by (simp_all add: new'_def seek_local_def seek_cur_def)
qed

text \<open>Attaching the whole region to a fresh block and sending it.\<close>

lemma shm_attach_send:
  assumes os: "io_progress os" and ok: "shm_ok (mem, cmd)" "length region \<le> shm_room (mem, cmd)" "region \<noteq> []"
    and c: "seek_cur cmd = seek_local cmd + 4" "length cmd = unat (command_size (base_of cmd))"
  shows "\<exists>mem1 cmd1. command_channel_shm_attach_buffer mem cmd (Some region) = Inr (4, mem1, cmd1) \<and>
    command_channel_shm_send_command os chan cmd1 = Inr (chan\<lparr>shm_out := shm_out chan @ sent_block cmd1\<rparr>) \<and>
    drop 136 (sent_block cmd1) = drop 136 cmd \<and>
    shm_worker_get (mem1, sent_block cmd1) 4 (length region) = Inr region"
proof -
  define mem1 where "mem1 = splice_at (unat (seek_cur cmd)) region mem"
  define cmd1 where "cmd1 = set_seek_cur (seek_cur cmd + of_nat (length region)) cmd"
  have l: "136 \<le> length cmd" using ok by (simp add: shm_ok_def)
  note st = shm_attach_step [OF ok(1,3,2), folded mem1_def cmd1_def]
  have l1: "136 \<le> length cmd1" and sd: "shm_sendable cmd1"
    using l c(2) by (simp_all add: cmd1_def seek_simps shm_sendable_def)
  have loc: "seek_local (sent_block cmd1) = seek_local cmd"
    using seek_local_sent [OF l1] l by (simp add: cmd1_def seek_simps)
  have "drop 136 (sent_block cmd1) = drop 136 cmd"
    using l l1 base_ok_base_of [OF l1] by (simp add: sent_block_def base_ok_def) (simp add: cmd1_def seek_simps)
  moreover have "shm_worker_get (mem1, sent_block cmd1) 4 (length region) = Inr region"
    using loc c(1) st(4) slice_splice_same [of "unat (seek_cur cmd)" region mem]
    by (simp add: shm_worker_get_def command_channel_shm_worker_get_buffer_def mem_read_def mem1_def)
  moreover have "command_channel_shm_attach_buffer mem cmd (Some region) = Inr (4, mem1, cmd1)"
    using st(1) c(1) by (auto simp: shm_attach_def res_simps)
  ultimately show ?thesis using shm_send_ok [OF os sd] by blast
qed

text \<open>Forwarding a command through the shared memory channel loses the fields behind the base structure,
  which arrive as zeros, and moves the data region by four bytes, so a buffer identifier of the source
  channel no longer finds its buffer; a command without data region stops at an assertion.\<close>

theorem shm_transfer_command_loses_fields:
  assumes os: "io_progress os" and ss: "136 \<le> unat (command_size (base_of cmd))"
    and pb: "length mem = unat (pb_size (shm_block chan))" "length mem < 2 ^ 63"
      "unat (pb_cur_offset (shm_block chan)) \<le> length mem div 2"
      "unat (region_size (base_of cmd)) + 4 < length mem div 2"
    and rg: "unat (region_size (base_of cmd)) = length region"
  shows "if region = [] then command_channel_shm_transfer_command os mem chan cmd region = Inl (AssertFail ''buffer && size != 0'')
    else \<exists>mem1 chan1 blk. command_channel_shm_transfer_command os mem chan cmd region = Inr (mem1, chan1) \<and>
      shm_out chan1 = shm_out chan @ blk \<and> drop 136 blk = replicate (unat (command_size (base_of cmd)) - 136) 0 \<and>
      shm_worker_get (mem1, blk) 4 (length region) = Inr region"
proof (cases "region = []")
  case True
  then have "region_size (base_of cmd) = 0" using rg by (simp add: unsigned_eq_0_iff)
  then show ?thesis using ss True
    by (simp add: command_channel_shm_transfer_command_def command_channel_shm_new_command_def Let_def mem_read_def
        slice_at_def command_channel_shm_attach_buffer_def)
next
  case False
  let ?b = "base_of cmd" and ?ds = "region_size (base_of cmd)"
  have ds: "?ds \<noteq> 0" using rg False by auto
  have ds4: "unat (?ds + 4) = unat ?ds + 4" using pb by (subst unat_plus_63) simp_all
  from guest_ring.reserve_spec [of "shm_block chan" "?ds + 4"] pb ds4 obtain off where
    r: "reserve_param_block (shm_block chan) (?ds + 4) = (off, (shm_block chan)\<lparr>pb_cur_offset := off + (?ds + 4)\<rparr>)"
    and off: "unat off + unat ?ds + 4 < length mem div 2"
    by (auto split: if_splits)
  define new where "new = shm_init_block (command_size ?b) off (?ds + 4) (off + pb_offset (shm_block chan)) (shm_vm_id chan)"
  define new1 where "new1 = set_base ((base_of new)\<lparr>api_id := api_id ?b, command_id := command_id ?b,
      command_type := command_type ?b, cmd_flags := cmd_flags ?b, vm_id := vm_id ?b\<rparr>) new"
  define chan1 where "chan1 = chan\<lparr>shm_block := (shm_block chan)\<lparr>pb_cur_offset := off + (?ds + 4)\<rparr>\<rparr>"
  note i = shm_init_block [OF ss, of off "?ds + 4" "off + pb_offset (shm_block chan)" "shm_vm_id chan", folded new_def]
  have "136 \<le> length new" using i(1) ss by simp
  note t = shm_retag [OF this, of ?b, folded new1_def]
  have ok: "shm_ok (mem, new)" "shm_room (mem, new) = unat ?ds"
    using shm_init_ok [OF ss, of ?ds off mem] pb off unfolding new_def by auto
  then have ok1: "shm_ok (mem, new1)" "length region \<le> shm_room (mem, new1)"
    using t rg by (simp_all add: shm_ok_def shm_room_def)
  from shm_attach_send [OF os ok1 False, of chan1] t i obtain mem1 cmd1 where
    a: "command_channel_shm_attach_buffer mem new1 (Some region) = Inr (4, mem1, cmd1)"
      "command_channel_shm_send_command os chan1 cmd1 = Inr (chan1\<lparr>shm_out := shm_out chan1 @ sent_block cmd1\<rparr>)"
      "drop 136 (sent_block cmd1) = replicate (unat (command_size ?b) - 136) 0"
      "shm_worker_get (mem1, sent_block cmd1) 4 (length region) = Inr region" by auto
  have "command_channel_shm_transfer_command os mem chan cmd region = Inr (mem1, chan1\<lparr>shm_out := shm_out chan1 @ sent_block cmd1\<rparr>)"
    using shm_new_guest [OF ss ds r] a(1,2) rg
    by (simp add: command_channel_shm_transfer_command_def Let_def mem_read_def slice_at_def new_def new1_def chan1_def)
  then show ?thesis using False a(3,4) by (auto simp: chan1_def)
qed

theorem shm_transfer_command_loses_fields_witness:
  "\<exists>mem1 chan1 blk.
     command_channel_shm_transfer_command (\<lambda>_ _. 1) (replicate 64 0) ex_shm (ex_cmd 2) [7, 8] = Inr (mem1, chan1) \<and>
     shm_out chan1 = [] @ blk \<and> shm_worker_get (mem1, blk) 4 (length [7, 8 :: u8]) = Inr [7, 8]"
proof -
  have "io_progress (\<lambda>_ _. 1)" by (simp add: io_progress_def)
  from shm_transfer_command_loses_fields [OF this, of "ex_cmd 2" "replicate 64 0" ex_shm "[7, 8]"] show ?thesis
    by simp blast
qed

end
