(* ===== verification/Log_Channel.thy ===== *)
theory Log_Channel
  imports Commands
begin

text \<open>
  The command log (\<open>common/cmd_channel_record.c\<close>): commands are appended to a seekable file as records of
  a 16 byte metadata header (size, flags) and the command image, their flags are rewritten in place,
  and records are loaded by offset or in sequence. The operating system's \<open>write\<close> is a parameter: it
  gives the number of bytes written at a position, or a negative number for a failure.
\<close>

section \<open>The file\<close>

record log_file =
  fdata :: bytes
  fpos :: nat

type_synonym os_write = "nat \<Rightarrow> nat \<Rightarrow> int"

definition lseek_end :: "log_file \<Rightarrow> u64 \<times> log_file" where
  "lseek_end f = (of_nat (length (fdata f)), f\<lparr>fpos := length (fdata f)\<rparr>)"

definition lseek_set :: "u64 \<Rightarrow> log_file \<Rightarrow> u64 \<times> log_file" where
  "lseek_set off f = (if sint off < 0 then (- 1, f) else (off, f\<lparr>fpos := unat off\<rparr>))"

definition file_write :: "os_write \<Rightarrow> bytes \<Rightarrow> log_file \<Rightarrow> int \<times> log_file" where
  "file_write w bs f =
     (let r = min (w (fpos f) (length bs)) (int (length bs))
      in if r < 0 then (- 1, f)
         else if r = 0 then (0, f)
         else (r, f\<lparr>fdata := splice_at (fpos f) (take (nat r) bs) (fdata f), fpos := fpos f + nat r\<rparr>))"

definition file_read :: "nat \<Rightarrow> log_file \<Rightarrow> bytes \<times> log_file" where
  "file_read n f = (let bs = slice_at (fpos f) n (fdata f) in (bs, f\<lparr>fpos := fpos f + length bs\<rparr>))"

text \<open>The check that follows every \<open>write\<close>.\<close>

definition write_or_exit :: "os_write \<Rightarrow> bytes \<Rightarrow> log_file \<Rightarrow> log_file res" where
  "write_or_exit w bs f = (let (r, f') = file_write w bs f in if r = - 1 then Inl (ExitProc 1) else Inr f')"

section \<open>The channel\<close>

record command_channel_log =
  log_fd :: log_file
  read_offset :: u64

definition enc_metadata :: "u64 \<Rightarrow> u32 \<Rightarrow> bytes" where
  "enc_metadata sz flags = le_bytes 8 sz @ le_bytes 4 flags @ [0, 0, 0, 0]"

definition metadata_size :: "bytes \<Rightarrow> u64" where "metadata_size md = get_u64 0 md"
definition metadata_flags :: "bytes \<Rightarrow> u32" where "metadata_flags md = get_u32 8 md"

definition command_start_offset :: "bytes \<Rightarrow> u64" where
  "command_start_offset cmd = get_u64 0 (reserved_area (base_of cmd))"

definition current_buffer_offset :: "bytes \<Rightarrow> u64" where
  "current_buffer_offset cmd = get_u64 8 (reserved_area (base_of cmd))"

definition command_channel_log_new :: command_channel_log where
  "command_channel_log_new = \<lparr>log_fd = \<lparr>fdata = [], fpos = 0\<rparr>, read_offset = 0\<rparr>"

definition command_channel_log_buffer_size :: "u64 \<Rightarrow> u64" where
  "command_channel_log_buffer_size n = n"

definition command_channel_log_new_command ::
  "os_write \<Rightarrow> command_channel_log \<Rightarrow> u64 \<Rightarrow> u64 \<Rightarrow> (bytes \<times> command_channel_log) res" where
  "command_channel_log_new_command w c struct_size data_size =
     (let (pos, f) = lseek_end (log_fd c)
      in rbind (write_or_exit w (enc_metadata (struct_size + data_size) 0) f) (\<lambda>f.
         if unat struct_size < 136 then Inl OutOfBounds
         else let cmd = replicate (unat struct_size) 0;
                  start = pos + 16;
                  priv = put_u64 8 (start + struct_size) (put_u64 0 start (reserved_area (base_of cmd)));
                  base = (base_of cmd)\<lparr>command_size := struct_size, data_region := struct_size,
                            region_size := data_size, reserved_area := priv\<rparr>
              in Inr (set_base base cmd, c\<lparr>log_fd := f\<rparr>)))"

definition command_channel_log_attach_buffer ::
  "os_write \<Rightarrow> command_channel_log \<Rightarrow> bytes \<Rightarrow> bytes \<Rightarrow> (u64 \<times> command_channel_log) res" where
  "command_channel_log_attach_buffer w c cmd buffer =
     (let (pos, f) = lseek_set (current_buffer_offset cmd) (log_fd c)
      in rbind (c_assert (pos = current_buffer_offset cmd) ''pos == priv->current_buffer_offset'') (\<lambda>_.
         rbind (write_or_exit w buffer f) (\<lambda>f.
         Inr (pos - command_start_offset cmd, c\<lparr>log_fd := f\<rparr>))))"

definition command_channel_log_send_command ::
  "os_write \<Rightarrow> command_channel_log \<Rightarrow> bytes \<Rightarrow> command_channel_log res" where
  "command_channel_log_send_command w c cmd =
     (let (pos, f) = lseek_set (command_start_offset cmd) (log_fd c)
      in rbind (c_assert (pos = command_start_offset cmd) ''pos == priv->command_start_offset'') (\<lambda>_.
         rbind (mem_read 0 (unat (command_size (base_of cmd))) cmd) (\<lambda>img.
         rbind (write_or_exit w img f) (\<lambda>f. Inr (c\<lparr>log_fd := f\<rparr>)))))"

text \<open>\<open>region\<close> is the memory at the address that the source channel returns for the data region.\<close>

definition command_channel_log_transfer_command ::
  "os_write \<Rightarrow> command_channel_log \<Rightarrow> bytes \<Rightarrow> bytes \<Rightarrow> (u64 \<times> command_channel_log) res" where
  "command_channel_log_transfer_command w c cmd region =
     (let (pos, f) = lseek_end (log_fd c); b = base_of cmd
      in rbind (write_or_exit w (enc_metadata (command_size b + region_size b) 0) f) (\<lambda>f.
         rbind (mem_read 0 (unat (command_size b)) cmd) (\<lambda>img.
         rbind (write_or_exit w img f) (\<lambda>f.
         rbind (mem_read 0 (unat (region_size b)) region) (\<lambda>reg.
         rbind (write_or_exit w reg f) (\<lambda>f. Inr (pos, c\<lparr>log_fd := f\<rparr>)))))))"

definition command_channel_log_update_flags ::
  "os_write \<Rightarrow> command_channel_log \<Rightarrow> u64 \<Rightarrow> u32 \<Rightarrow> command_channel_log res" where
  "command_channel_log_update_flags w c offset flags =
     rbind (c_assert (0 \<le> sint offset) ''offset >= 0'') (\<lambda>_.
       let (r, f) = lseek_set (offset + 8) (log_fd c)
       in rbind (c_assert (r = offset + 8) ''r == offset + sizeof(size_t)'') (\<lambda>_.
          rbind (write_or_exit w (le_bytes 4 flags) f) (\<lambda>f. Inr (c\<lparr>log_fd := f\<rparr>))))"

text \<open>The loaded command, the flags when the metadata could be read, and the channel.\<close>

definition command_channel_log_load_command ::
  "command_channel_log \<Rightarrow> u64 \<Rightarrow> bytes option \<times> u32 option \<times> command_channel_log" where
  "command_channel_log_load_command c offset =
     (let off = (if sint offset < 0 then read_offset c else offset);
          f = snd (lseek_set off (log_fd c));
          (md, f) = file_read 16 f
      in if length md \<noteq> 16 then (None, None, c\<lparr>log_fd := f\<rparr>)
         else let (img, f) = file_read (unat (metadata_size md)) f;
                  c = c\<lparr>log_fd := f, read_offset := off + metadata_size md + 16\<rparr>
              in if length img \<noteq> unat (metadata_size md) then (None, Some (metadata_flags md), c)
                 else (Some img, Some (metadata_flags md), c))"

definition command_channel_load_next_command ::
  "command_channel_log \<Rightarrow> bytes option \<times> command_channel_log" where
  "command_channel_load_next_command c =
     (let (cmd, fl, c) = command_channel_log_load_command c (- 1) in (cmd, c))"

text \<open>The bytes at the pointers that the two accessors of a loaded command compute.\<close>

definition command_channel_load_get_buffer :: "bytes \<Rightarrow> u64 \<Rightarrow> nat \<Rightarrow> bytes res" where
  "command_channel_load_get_buffer cmd buffer_id n = mem_read (unat buffer_id) n cmd"

definition command_channel_load_get_data_region :: "bytes \<Rightarrow> nat \<Rightarrow> bytes res" where
  "command_channel_load_get_data_region cmd n = mem_read (unat (command_size (base_of cmd))) n cmd"

text \<open>Loading commands until the log returns \<open>NULL\<close>, as the migration loops do.\<close>

fun load_all :: "nat \<Rightarrow> command_channel_log \<Rightarrow> bytes list option" where
  "load_all 0 c = None"
| "load_all (Suc n) c =
     (case command_channel_load_next_command c of
        (None, _) \<Rightarrow> Some []
      | (Some cmd, c') \<Rightarrow> map_option ((#) cmd) (load_all n c'))"

section \<open>The abstract log\<close>

text \<open>Abstractly the log is a list of entries, flags and command image; \<open>enc_log\<close> is its file content and
  \<open>entry_off\<close> the offset of an entry.\<close>

type_synonym log_entry = "u32 \<times> bytes"

definition enc_entry :: "log_entry \<Rightarrow> bytes" where
  "enc_entry e = enc_metadata (of_nat (length (snd e))) (fst e) @ snd e"

definition enc_log :: "log_entry list \<Rightarrow> bytes" where
  "enc_log es = concat (map enc_entry es)"

definition entry_off :: "log_entry list \<Rightarrow> nat \<Rightarrow> nat" where
  "entry_off es i = length (enc_log (take i es))"

definition full_writes :: "os_write \<Rightarrow> bool" where
  "full_writes w \<longleftrightarrow> (\<forall>p n. w p n = int n)"

lemma length_enc_metadata [simp]: "length (enc_metadata s fl) = 16"
  by (simp add: enc_metadata_def)

lemma length_enc_entry [simp]: "length (enc_entry e) = 16 + length (snd e)"
  by (simp add: enc_entry_def)

lemma enc_log_simps [simp]:
  "enc_log [] = []" "enc_log (e # es) = enc_entry e @ enc_log es" "enc_log (es @ fs) = enc_log es @ enc_log fs"
  by (simp_all add: enc_log_def)

lemma metadata_fields [simp]:
  "metadata_size (enc_metadata s fl) = s" "metadata_flags (enc_metadata s fl) = fl"
  by (simp_all add: metadata_size_def metadata_flags_def enc_metadata_def get_u64_def get_u32_def slice_at_def)

lemma enc_log_split:
  "i < length es \<Longrightarrow> enc_log es = enc_log (take i es) @ enc_entry (es ! i) @ enc_log (drop (Suc i) es)"
  by (metis id_take_nth_drop enc_log_simps(2,3))

lemma entry_off_Suc: "i < length es \<Longrightarrow> entry_off es (Suc i) = entry_off es i + 16 + length (snd (es ! i))"
  by (simp add: entry_off_def take_Suc_conv_app_nth)

lemma entry_off_end: "entry_off es (length es) = length (enc_log es)"
  by (simp add: entry_off_def)

lemma entry_off_le: "entry_off es i \<le> length (enc_log es)"
proof -
  have "enc_log es = enc_log (take i es) @ enc_log (drop i es)"
    by (metis append_take_drop_id enc_log_simps(3))
  then show ?thesis by (metis entry_off_def le_add1 length_append)
qed

lemma entry_off_bound:
  "i < length es \<Longrightarrow> entry_off es i + 16 + length (snd (es ! i)) \<le> length (enc_log es)"
  using entry_off_Suc entry_off_le by metis

section \<open>File lemmas\<close>

lemma write_full:
  assumes "full_writes w" "fpos f \<le> length (fdata f)"
  shows "write_or_exit w bs f = Inr (f\<lparr>fdata := splice_at (fpos f) bs (fdata f), fpos := fpos f + length bs\<rparr>)"
  using assms by (cases bs) (simp_all add: write_or_exit_def file_write_def full_writes_def splice_at_def Let_def)

lemma sint_small: "n < 2 ^ 63 \<Longrightarrow> sint (of_nat n :: u64) = int n"
  by (simp add: signed_of_nat signed_take_bit_int_eq_self)

lemma unat_small [simp]: "n < 2 ^ 63 \<Longrightarrow> unat (of_nat n :: u64) = n"
  by (simp add: unat_of_nat)

lemma lseek_set_small:
  "n < 2 ^ 63 \<Longrightarrow> lseek_set (of_nat n) f = (of_nat n, f\<lparr>fpos := n\<rparr>)"
  by (simp add: lseek_set_def sint_small del: of_nat_less_iff)

lemma read_slice: "file_read n f = (slice_at (fpos f) n (fdata f), f\<lparr>fpos := fpos f + min n (length (fdata f) - fpos f)\<rparr>)"
  by (simp add: file_read_def Let_def)

section \<open>Each operation on the abstract log\<close>

lemma transfer_refines:
  assumes w: "full_writes w" and d: "fdata (log_fd c) = enc_log es"
    and cs: "unat (command_size (base_of cmd)) \<le> length cmd"
    and rs: "unat (region_size (base_of cmd)) \<le> length region"
    and sz: "unat (command_size (base_of cmd)) + unat (region_size (base_of cmd)) < 2 ^ 64"
  defines "img \<equiv> take (unat (command_size (base_of cmd))) cmd @ take (unat (region_size (base_of cmd))) region"
  shows "\<exists>c'. command_channel_log_transfer_command w c cmd region = Inr (of_nat (length (enc_log es)), c') \<and>
    fdata (log_fd c') = enc_log (es @ [(0, img)]) \<and> read_offset c' = read_offset c"
proof -
  have "of_nat (length img) = command_size (base_of cmd) + region_size (base_of cmd)"
    using cs rs by (simp add: img_def)
  then show ?thesis
    using w d cs rs
    by (simp add: command_channel_log_transfer_command_def lseek_end_def Let_def write_full mem_read_def
        splice_at_end slice_at_def enc_entry_def img_def splice_at_def)
qed

lemma entry_at:
  assumes "i < length es"
  shows "slice_at (entry_off es i) 16 (enc_log es) = enc_metadata (of_nat (length (snd (es ! i)))) (fst (es ! i))"
    and "slice_at (entry_off es i + 16) (length (snd (es ! i))) (enc_log es) = snd (es ! i)"
proof -
  let ?md = "enc_metadata (of_nat (length (snd (es ! i)))) (fst (es ! i))"
  have s: "enc_log es = enc_log (take i es) @ ?md @ snd (es ! i) @ enc_log (drop (Suc i) es)"
    using enc_log_split [OF assms] by (simp add: enc_entry_def)
  show "slice_at (entry_off es i) 16 (enc_log es) = ?md"
    using slice_append_exact [of "enc_log (take i es)" ?md] by (subst s) (simp add: entry_off_def)
  show "slice_at (entry_off es i + 16) (length (snd (es ! i))) (enc_log es) = snd (es ! i)"
    using slice_append_exact [of "enc_log (take i es) @ ?md" "snd (es ! i)"]
    by (subst s) (simp add: entry_off_def)
qed

lemma load_at:
  assumes d: "fdata (log_fd c) = enc_log es" and b: "length (enc_log es) < 2 ^ 63" and i: "i < length es"
    and off: "off = of_nat (entry_off es i) \<or> sint off < 0 \<and> read_offset c = of_nat (entry_off es i)"
  shows "\<exists>c'. command_channel_log_load_command c off = (Some (snd (es ! i)), Some (fst (es ! i)), c') \<and>
    fdata (log_fd c') = enc_log es \<and> read_offset c' = of_nat (entry_off es (Suc i))"
proof -
  have le: "entry_off es i + 16 + length (snd (es ! i)) \<le> length (enc_log es)"
    using entry_off_bound [OF i] .
  have o: "entry_off es i < 2 ^ 63" "length (snd (es ! i)) < 2 ^ 63" using le b by linarith+
  have "(if sint off < 0 then read_offset c else off) = of_nat (entry_off es i)"
    using off sint_small [OF o(1)] by auto
  moreover have "of_nat (entry_off es i) + of_nat (length (snd (es ! i))) + 16 = (of_nat (entry_off es (Suc i)) :: u64)"
    using i by (simp add: entry_off_Suc)
  ultimately show ?thesis
    using o d i entry_at [OF i] le
    by (simp add: command_channel_log_load_command_def read_slice lseek_set_small Let_def del: of_nat_less_iff)
qed

lemma load_end:
  assumes d: "fdata (log_fd c) = enc_log es" and b: "length (enc_log es) < 2 ^ 63"
    and off: "read_offset c = of_nat (length (enc_log es))"
  shows "fst (command_channel_load_next_command c) = None"
  using d b off
  by (simp add: command_channel_load_next_command_def command_channel_log_load_command_def read_slice
      lseek_set_small Let_def slice_at_def)

lemma load_all_from:
  assumes "fdata (log_fd c) = enc_log es" "length (enc_log es) < 2 ^ 63" "i \<le> length es"
    "read_offset c = of_nat (entry_off es i)" "length es - i < n"
  shows "load_all n c = Some (map snd (drop i es))"
  using assms
proof (induction n arbitrary: c i)
  case (Suc n)
  show ?case
  proof (cases "i < length es")
    case True
    from load_at [OF Suc.prems(1,2) True, of "- 1"] Suc.prems(4) obtain c' where
      c': "command_channel_log_load_command c (- 1) = (Some (snd (es ! i)), Some (fst (es ! i)), c')"
      "fdata (log_fd c') = enc_log es" "read_offset c' = of_nat (entry_off es (Suc i))" by auto
    have "load_all n c' = Some (map snd (drop (Suc i) es))"
      using Suc.IH [OF c'(2) Suc.prems(2) _ c'(3)] True Suc.prems(5) by simp
    with c'(1) True show ?thesis
      by (simp add: command_channel_load_next_command_def Cons_nth_drop_Suc [symmetric])
  next
    case False
    with Suc.prems have "i = length es" by simp
    with Suc.prems load_end [of c es] show ?thesis
      by (cases "command_channel_load_next_command c") (simp add: entry_off_end)
  qed
qed simp

lemma update_flags_refines:
  assumes w: "full_writes w" and d: "fdata (log_fd c) = enc_log es" and b: "length (enc_log es) < 2 ^ 63"
    and i: "i < length es"
  shows "\<exists>c'. command_channel_log_update_flags w c (of_nat (entry_off es i)) fl = Inr c' \<and>
    fdata (log_fd c') = enc_log (es[i := (fl, snd (es ! i))]) \<and> read_offset c' = read_offset c"
proof -
  let ?o = "entry_off es i" and ?n = "of_nat (length (snd (es ! i))) :: u64"
  let ?rest = "snd (es ! i) @ enc_log (drop (Suc i) es)"
  have le: "?o + 16 \<le> length (enc_log es)" using entry_off_bound [OF i] by simp
  have o: "?o < 2 ^ 63" "?o + 8 < 2 ^ 63" using le b by linarith+
  have s: "enc_log es = enc_log (take i es) @ le_bytes 8 ?n @ le_bytes 4 (fst (es ! i)) @ [0, 0, 0, 0] @ ?rest"
    using enc_log_split [OF i] by (simp add: enc_entry_def enc_metadata_def)
  have "enc_log (es[i := (fl, snd (es ! i))]) = enc_log (take i es) @ le_bytes 8 ?n @ le_bytes 4 fl @ [0, 0, 0, 0] @ ?rest"
    using i by (simp add: upd_conv_take_nth_drop enc_entry_def enc_metadata_def)
  then have u: "splice_at (?o + 8) (le_bytes 4 fl) (enc_log es) = enc_log (es[i := (fl, snd (es ! i))])"
    by (subst s) (simp add: splice_at_def entry_off_def)
  have "lseek_set (of_nat ?o + 8) (log_fd c) = (of_nat ?o + 8, (log_fd c)\<lparr>fpos := ?o + 8\<rparr>)"
    using lseek_set_small [OF o(2), of "log_fd c"] by simp
  then show ?thesis
    using w d o le sint_small [OF o(1)] u
    by (simp add: command_channel_log_update_flags_def write_full del: of_nat_less_iff)
qed

section \<open>Sequences of log operations\<close>

text \<open>A recording session appends commands and later rewrites flags by the offsets it was given. \<open>log_run\<close>
  runs it on the channel, \<open>log_spec\<close> on the abstract log.\<close>

datatype log_op = LogTransfer bytes bytes | LogFlags nat u32

fun log_run :: "os_write \<Rightarrow> log_op list \<Rightarrow> command_channel_log \<times> u64 list \<Rightarrow>
    (command_channel_log \<times> u64 list) res" where
  "log_run w [] s = Inr s"
| "log_run w (LogTransfer cmd region # ops) (c, offs) =
     rbind (command_channel_log_transfer_command w c cmd region) (\<lambda>(pos, c). log_run w ops (c, offs @ [pos]))"
| "log_run w (LogFlags k fl # ops) (c, offs) =
     (if k < length offs
      then rbind (command_channel_log_update_flags w c (offs ! k) fl) (\<lambda>c. log_run w ops (c, offs))
      else Inl OutOfBounds)"

definition image :: "bytes \<Rightarrow> bytes \<Rightarrow> bytes" where
  "image cmd region = take (unat (command_size (base_of cmd))) cmd @ take (unat (region_size (base_of cmd))) region"

fun log_spec :: "log_op list \<Rightarrow> log_entry list \<Rightarrow> log_entry list" where
  "log_spec [] es = es"
| "log_spec (LogTransfer cmd region # ops) es = log_spec ops (es @ [(0, image cmd region)])"
| "log_spec (LogFlags k fl # ops) es = log_spec ops (es[k := (fl, snd (es ! k))])"

definition transferable :: "bytes \<Rightarrow> bytes \<Rightarrow> bool" where
  "transferable cmd region \<longleftrightarrow>
     unat (command_size (base_of cmd)) \<le> length cmd \<and> unat (region_size (base_of cmd)) \<le> length region \<and>
     unat (command_size (base_of cmd)) + unat (region_size (base_of cmd)) < 2 ^ 64"

fun log_ops_ok :: "nat \<Rightarrow> log_op list \<Rightarrow> bool" where
  "log_ops_ok n [] \<longleftrightarrow> True"
| "log_ops_ok n (LogTransfer cmd region # ops) \<longleftrightarrow> transferable cmd region \<and> log_ops_ok (Suc n) ops"
| "log_ops_ok n (LogFlags k fl # ops) \<longleftrightarrow> k < n \<and> log_ops_ok n ops"

definition log_abs :: "log_entry list \<Rightarrow> command_channel_log \<times> u64 list \<Rightarrow> bool" where
  "log_abs es s \<longleftrightarrow> fdata (log_fd (fst s)) = enc_log es \<and> read_offset (fst s) = 0 \<and>
     snd s = map (\<lambda>i. of_nat (entry_off es i)) [0..<length es]"

lemma enc_log_flags_length:
  "k < length es \<Longrightarrow> length (enc_log (es[k := (fl, snd (es ! k))])) = length (enc_log es)"
  using enc_log_split [of k es] by (simp add: upd_conv_take_nth_drop)

lemma log_spec_grows: "log_ops_ok (length es) ops \<Longrightarrow> length (enc_log es) \<le> length (enc_log (log_spec ops es))"
proof (induction ops arbitrary: es)
  case (Cons x ops)
  then show ?case
  proof (cases x)
    case (LogTransfer cmd region)
    then show ?thesis using Cons.IH [of "es @ [(0, image cmd region)]"] Cons.prems by simp
  next
    case (LogFlags k fl)
    then show ?thesis
      using Cons.IH [of "es[k := (fl, snd (es ! k))]"] Cons.prems enc_log_flags_length [of k es fl] by simp
  qed
qed simp

lemma entry_off_flags:
  "k < length es \<Longrightarrow> entry_off (es[k := (fl, snd (es ! k))]) i = entry_off es i"
  using enc_log_flags_length [of k "take i es" fl] by (cases "k < i") (simp_all add: entry_off_def take_update_swap list_update_beyond)

lemma entry_off_append: "i \<le> length es \<Longrightarrow> entry_off (es @ fs) i = entry_off es i"
  by (simp add: entry_off_def)

lemma log_run_refines:
  assumes "full_writes w" "log_abs es s" "log_ops_ok (length es) ops" "length (enc_log (log_spec ops es)) < 2 ^ 63"
  shows "\<exists>s'. log_run w ops s = Inr s' \<and> log_abs (log_spec ops es) s'"
  using assms(2-)
proof (induction ops arbitrary: es s)
  case Nil
  then show ?case by simp
next
  case (Cons x ops)
  obtain c offs where s: "s = (c, offs)" by (cases s)
  have d: "fdata (log_fd c) = enc_log es" using Cons.prems(1) s by (simp add: log_abs_def)
  have b: "length (enc_log es) < 2 ^ 63" using log_spec_grows [OF Cons.prems(2)] Cons.prems(3) by linarith
  show ?case
  proof (cases x)
    case (LogTransfer cmd region)
    with Cons.prems transfer_refines [OF assms(1) d, of cmd region, folded image_def] obtain c' where
      "command_channel_log_transfer_command w c cmd region = Inr (of_nat (length (enc_log es)), c')"
      "log_abs (es @ [(0, image cmd region)]) (c', offs @ [of_nat (length (enc_log es))])"
      by (auto simp: log_abs_def s transferable_def entry_off_append simp flip: entry_off_end)
    then show ?thesis using Cons.IH [of "es @ [(0, image cmd region)]"] Cons.prems LogTransfer s by simp
  next
    case (LogFlags k fl)
    with Cons.prems have k: "k < length es" by simp
    from update_flags_refines [OF assms(1) d b k, of fl] obtain c' where
      "command_channel_log_update_flags w c (of_nat (entry_off es k)) fl = Inr c'"
      "log_abs (es[k := (fl, snd (es ! k))]) (c', offs)"
      using Cons.prems(1) k by (auto simp: log_abs_def s entry_off_flags)
    then show ?thesis
      using Cons.IH [of "es[k := (fl, snd (es ! k))]"] Cons.prems LogFlags k s by (simp add: log_abs_def)
  qed
qed

section \<open>Building a command in the log\<close>

lemma new_command_result:
  assumes w: "full_writes w" and d: "fdata (log_fd c) = enc_log es"
    and sz: "136 \<le> unat ss"
  shows "\<exists>cmd c'. command_channel_log_new_command w c ss ds = Inr (cmd, c') \<and> length cmd = unat ss \<and>
    fdata (log_fd c') = enc_log es @ enc_metadata (ss + ds) 0 \<and> read_offset c' = read_offset c \<and>
    command_size (base_of cmd) = ss \<and> region_size (base_of cmd) = ds \<and>
    command_start_offset cmd = of_nat (length (enc_log es)) + 16 \<and>
    current_buffer_offset cmd = of_nat (length (enc_log es)) + 16 + ss"
proof -
  have ok: "base_ok (base_of (replicate (unat ss) 0))" using sz by simp
  then have r: "length (reserved_area (base_of (replicate (unat ss) 0))) = 64" by (simp add: base_ok_def)
  show ?thesis
    using w d sz r
    by (simp add: command_channel_log_new_command_def lseek_end_def write_full splice_at_end Let_def base_ok_def
        command_start_offset_def current_buffer_offset_def get_put_u64_other)
qed

lemma attach_at:
  assumes w: "full_writes w" and p: "current_buffer_offset cmd = of_nat p" "p < 2 ^ 63" "bs \<noteq> []"
  shows "\<exists>c'. command_channel_log_attach_buffer w c cmd bs = Inr (of_nat p - command_start_offset cmd, c') \<and>
    fdata (log_fd c') = splice_at p bs (fdata (log_fd c)) \<and> read_offset c' = read_offset c"
  using w p by (simp add: command_channel_log_attach_buffer_def lseek_set_small write_or_exit_def file_write_def
      full_writes_def Let_def del: of_nat_less_iff)

lemma send_at:
  assumes w: "full_writes w" and p: "command_start_offset cmd = of_nat p" "p < 2 ^ 63"
    and l: "length cmd = unat (command_size (base_of cmd))" "cmd \<noteq> []"
  shows "\<exists>c'. command_channel_log_send_command w c cmd = Inr c' \<and>
    fdata (log_fd c') = splice_at p cmd (fdata (log_fd c)) \<and> read_offset c' = read_offset c"
  using w p l by (simp add: command_channel_log_send_command_def lseek_set_small write_or_exit_def file_write_def
      full_writes_def mem_read_def slice_at_def Let_def flip: l(1) del: of_nat_less_iff)

lemma splice_hole:
  "splice_at (length xs) cmd (splice_at (length xs + length cmd) bs xs) = xs @ cmd @ bs"
  by (simp add: splice_at_def)

section \<open>Properties\<close>

text \<open>C7: A recording session of transfers and flag updates, with complete writes, succeeds and refines
  the abstract log: afterwards loading from the start returns exactly the recorded images in order and
  then \<open>NULL\<close>, and loading at an offset that a transfer returned gives that command with its latest
  flags.\<close>

theorem log_session_replays:
  assumes "full_writes w" "log_ops_ok 0 ops" "length (enc_log (log_spec ops [])) < 2 ^ 63"
  shows "\<exists>c offs. log_run w ops (command_channel_log_new, []) = Inr (c, offs) \<and>
    length offs = length (log_spec ops []) \<and>
    load_all (Suc (length (log_spec ops []))) c = Some (map snd (log_spec ops [])) \<and>
    (\<forall>i < length offs. \<exists>c'. command_channel_log_load_command c (offs ! i) =
       (Some (snd (log_spec ops [] ! i)), Some (fst (log_spec ops [] ! i)), c'))"
proof -
  let ?es = "log_spec ops []"
  have "log_abs [] (command_channel_log_new, [])" by (simp add: log_abs_def command_channel_log_new_def)
  from log_run_refines [OF assms(1) this, of ops] assms(2,3) obtain c offs
    where r: "log_run w ops (command_channel_log_new, []) = Inr (c, offs)" and a: "log_abs ?es (c, offs)"
    by auto
  have "load_all (Suc (length ?es)) c = Some (map snd ?es)"
    using load_all_from [of c ?es 0] assms(3) a by (simp add: log_abs_def entry_off_def del: load_all.simps)
  moreover have "\<exists>c'. command_channel_log_load_command c (offs ! i) = (Some (snd (?es ! i)), Some (fst (?es ! i)), c')"
    if "i < length offs" for i
    using load_at [of c ?es i "offs ! i"] assms(3) a that by (auto simp: log_abs_def)
  ultimately show ?thesis using r a by (auto simp: log_abs_def)
qed

theorem log_session_replays_witness:
  "\<exists>c offs. log_run (\<lambda>_. int) [LogTransfer (ex_cmd 2) [7, 8], LogTransfer (ex_cmd 1) [9], LogFlags 0 1]
       (command_channel_log_new, []) = Inr (c, offs) \<and> length offs = 2 \<and>
     load_all 3 c = Some [ex_cmd 2 @ [7, 8], ex_cmd 1 @ [9]] \<and>
     (\<exists>c'. command_channel_log_load_command c (offs ! 0) = (Some (ex_cmd 2 @ [7, 8]), Some 1, c'))"
proof -
  let ?ops = "[LogTransfer (ex_cmd 2) [7, 8], LogTransfer (ex_cmd 1) [9], LogFlags 0 1]"
  have e: "log_spec ?ops [] = [(1, ex_cmd 2 @ [7, 8]), (0, ex_cmd 1 @ [9])]" by (simp add: image_def)
  have "full_writes (\<lambda>_. int)" "log_ops_ok 0 ?ops" "length (enc_log (log_spec ?ops [])) < 2 ^ 63"
    unfolding e by (simp_all add: full_writes_def transferable_def)
  from log_session_replays [OF this, unfolded e] show ?thesis by (force simp: numeral_3_eq_3 simp del: load_all.simps)
qed

text \<open>A command built in the log by \<open>new_command\<close>, one \<open>attach_buffer\<close> that fills the announced data
  region, the caller's writes to its own fields and \<open>send_command\<close> is appended as one record: loading it
  returns the final structure followed by the buffer, and the buffer is found under the identifier that
  \<open>attach_buffer\<close> returned.\<close>

theorem log_build_send_load:
  assumes w: "full_writes w" and d: "fdata (log_fd c) = enc_log es"
    and ss: "136 \<le> unat ss" and bs: "length bs = unat ds" "bs \<noteq> []"
    and b: "length (enc_log es) + 16 + unat ss + unat ds < 2 ^ 63"
    and new: "command_channel_log_new_command w c ss ds = Inr (cmd, c1)"
    and fin: "length cmd' = length cmd" "command_size (base_of cmd') = command_size (base_of cmd)"
      "reserved_area (base_of cmd') = reserved_area (base_of cmd)"
  shows "\<exists>c2 c3 c4. command_channel_log_attach_buffer w c1 cmd bs = Inr (ss, c2) \<and>
    command_channel_log_send_command w c2 cmd' = Inr c3 \<and>
    fdata (log_fd c3) = enc_log (es @ [(0, cmd' @ bs)]) \<and>
    command_channel_log_load_command c3 (of_nat (length (enc_log es))) = (Some (cmd' @ bs), Some 0, c4) \<and>
    command_channel_load_get_buffer (cmd' @ bs) ss (length bs) = Inr bs"
proof -
  let ?p = "length (enc_log es) + 16"
  from new_command_result [OF w d ss, of ds] new
  have n: "length cmd = unat ss" "fdata (log_fd c1) = enc_log es @ enc_metadata (ss + ds) 0"
    "command_size (base_of cmd) = ss" "command_start_offset cmd = of_nat ?p"
    "current_buffer_offset cmd = of_nat (?p + unat ss)" by auto
  have "?p + unat ss < 2 ^ 63" "?p < 2 ^ 63" using b by linarith+
  from attach_at [OF w n(5) this(1) bs(2), of c1] obtain c2 where
    a: "command_channel_log_attach_buffer w c1 cmd bs = Inr (of_nat (?p + unat ss) - of_nat ?p, c2)"
    "fdata (log_fd c2) = splice_at (?p + unat ss) bs (enc_log es @ enc_metadata (ss + ds) 0)"
    by (auto simp: n)
  have st: "command_start_offset cmd' = of_nat ?p" using n fin by (simp add: command_start_offset_def)
  from send_at [OF w st \<open>?p < 2 ^ 63\<close>, of c2] n fin ss obtain c3 where
    s: "command_channel_log_send_command w c2 cmd' = Inr c3" "fdata (log_fd c3) = splice_at ?p cmd' (fdata (log_fd c2))"
    by fastforce
  have "fdata (log_fd c3) = enc_log es @ enc_metadata (ss + ds) 0 @ cmd' @ bs"
    using s(2) a(2) n(1) fin(1) splice_hole [of "enc_log es @ enc_metadata (ss + ds) 0" cmd' bs] by simp
  moreover have "of_nat (length (cmd' @ bs)) = ss + ds" using n(1) fin(1) bs(1) by simp
  ultimately have f: "fdata (log_fd c3) = enc_log (es @ [(0, cmd' @ bs)])" by (simp add: enc_entry_def)
  from load_at [OF f, of "length es" "of_nat (length (enc_log es))"] b n(1) fin(1) bs(1)
  obtain c4 where "command_channel_log_load_command c3 (of_nat (length (enc_log es))) = (Some (cmd' @ bs), Some 0, c4)"
    by (auto simp: entry_off_append simp flip: entry_off_end)
  with a(1) s(1) f n(1) fin(1) show ?thesis
    by (simp add: command_channel_load_get_buffer_def mem_read_def slice_at_def)
qed

lemma fresh_log_new: "fdata (log_fd command_channel_log_new) = enc_log []"
  by (simp add: command_channel_log_new_def)

theorem log_build_send_load_witness:
  "\<exists>cmd c1 c2 c3 c4. command_channel_log_new_command (\<lambda>_. int) command_channel_log_new 136 2 = Inr (cmd, c1) \<and>
    command_channel_log_attach_buffer (\<lambda>_. int) c1 cmd [7, 8] = Inr (136, c2) \<and>
    command_channel_log_send_command (\<lambda>_. int) c2 cmd = Inr c3 \<and>
    command_channel_log_load_command c3 0 = (Some (cmd @ [7, 8]), Some 0, c4) \<and>
    command_channel_load_get_buffer (cmd @ [7, 8]) 136 (length [7, 8 :: u8]) = Inr [7, 8]"
proof -
  have w: "full_writes (\<lambda>_. int)" by (simp add: full_writes_def)
  from new_command_result [OF w fresh_log_new, of 136 2] obtain cmd c1 where
    n: "command_channel_log_new_command (\<lambda>_. int) command_channel_log_new 136 2 = Inr (cmd, c1)" by auto
  from log_build_send_load [OF w fresh_log_new _ _ _ _ n, of "[7, 8]" cmd] n show ?thesis by simp blast
qed

text \<open>\<open>attach_buffer\<close> does not advance the buffer offset of the command. A second buffer gets the
  identifier of the first and overwrites it, and a last record built from two buffers is shorter than
  its metadata announces, so it cannot be loaded.\<close>

theorem log_second_buffer_overwrites:
  assumes w: "full_writes w" and d: "fdata (log_fd c) = enc_log es"
    and ss: "136 \<le> unat ss" and bs: "b1 \<noteq> []" "b2 \<noteq> []" "unat ds = length b1 + length b2"
    and b: "length (enc_log es) + 16 + unat ss + unat ds < 2 ^ 63"
    and new: "command_channel_log_new_command w c ss ds = Inr (cmd, c1)"
  shows "\<exists>c2 c3 c4 c5. command_channel_log_attach_buffer w c1 cmd b1 = Inr (ss, c2) \<and>
    command_channel_log_attach_buffer w c2 cmd b2 = Inr (ss, c3) \<and>
    command_channel_log_send_command w c3 cmd = Inr c4 \<and>
    slice_at (length (enc_log es) + 16 + unat ss) (length b2) (fdata (log_fd c4)) = b2 \<and>
    command_channel_log_load_command c4 (of_nat (length (enc_log es))) = (None, Some 0, c5)"
proof -
  let ?e = "length (enc_log es)" and ?x = "enc_log es @ enc_metadata (ss + ds) 0"
  let ?q = "?e + 16 + unat ss" and ?tail = "b2 @ drop (length b2) b1"
  from new_command_result [OF w d ss, of ds] new
  have n: "length cmd = unat ss" "fdata (log_fd c1) = ?x"
    "command_size (base_of cmd) = ss" "command_start_offset cmd = of_nat (?e + 16)"
    "current_buffer_offset cmd = of_nat ?q" by auto
  have q: "?q < 2 ^ 63" "?e + 16 < 2 ^ 63" "?e < 2 ^ 63" using b by linarith+
  from attach_at [OF w n(5) q(1) bs(1), of c1] obtain c2 where
    a: "command_channel_log_attach_buffer w c1 cmd b1 = Inr (ss, c2)" "fdata (log_fd c2) = splice_at ?q b1 ?x"
    by (auto simp: n)
  from attach_at [OF w n(5) q(1) bs(2), of c2] obtain c3 where
    a': "command_channel_log_attach_buffer w c2 cmd b2 = Inr (ss, c3)" "fdata (log_fd c3) = splice_at ?q b2 (fdata (log_fd c2))"
    by (auto simp: n)
  from send_at [OF w n(4) q(2), of c3] n ss obtain c4 where
    s: "command_channel_log_send_command w c3 cmd = Inr c4" "fdata (log_fd c4) = splice_at (?e + 16) cmd (fdata (log_fd c3))"
    by fastforce
  have f: "fdata (log_fd c4) = enc_log es @ enc_metadata (ss + ds) 0 @ cmd @ ?tail"
    unfolding s(2) a'(2) a(2) using n(1) by (simp add: splice_at_def)
  have u: "unat (ss + ds) = unat ss + unat ds" using b by (intro unat_plus_small) simp
  have "length (cmd @ ?tail) < unat (ss + ds)"
    using n(1) bs u by (cases b1; cases b2) auto
  then have "\<exists>c5. command_channel_log_load_command c4 (of_nat ?e) = (None, Some 0, c5)"
    using f q(3) by (simp add: command_channel_log_load_command_def lseek_set_small sint_small read_slice Let_def
        slice_at_def del: of_nat_less_iff)
  moreover have "slice_at ?q (length b2) (fdata (log_fd c4)) = b2" using f n(1) by (simp add: slice_at_def)
  ultimately show ?thesis using a(1) a'(1) s(1) by blast
qed

theorem log_second_buffer_overwrites_witness:
  "\<exists>cmd c1 c2 c3 c4 c5. command_channel_log_new_command (\<lambda>_. int) command_channel_log_new 136 4 = Inr (cmd, c1) \<and>
    command_channel_log_attach_buffer (\<lambda>_. int) c1 cmd [1, 2] = Inr (136, c2) \<and>
    command_channel_log_attach_buffer (\<lambda>_. int) c2 cmd [3, 4] = Inr (136, c3) \<and>
    command_channel_log_send_command (\<lambda>_. int) c3 cmd = Inr c4 \<and>
    command_channel_log_load_command c4 0 = (None, Some 0, c5)"
proof -
  have w: "full_writes (\<lambda>_. int)" by (simp add: full_writes_def)
  from new_command_result [OF w fresh_log_new, of 136 4] obtain cmd c1 where
    n: "command_channel_log_new_command (\<lambda>_. int) command_channel_log_new 136 4 = Inr (cmd, c1)" by auto
  from log_second_buffer_overwrites [OF w fresh_log_new _ _ _ _ _ n, of "[1, 2]" "[3, 4]"] n show ?thesis
    by simp blast
qed

end
