(* ===== verification/Endpoint.thy ===== *)
theory Endpoint
  imports Handle_Pool Log_Channel
begin

text \<open>
  The endpoint bookkeeping of \<open>common/endpoint_lib.c\<close> that the generated stubs call: metadata of
  objects (\<open>ava_internal_metadata\<close>), the table of pending calls, the buffers managed for a call site or
  coupled to an object, and the recorded calls and dependencies that migration follows. A \<open>GArray\<close> is a
  reference-counted cell of an explicit heap, so that the second release of a buffer is visible.
\<close>

section \<open>Metadata\<close>

text \<open>Function pointers are addresses, \<open>NULL\<close> being 0; pointers to shadow records are heap addresses.\<close>

record metadata_base =
  coupled_shadow_buffers :: "nat list option"
  shadow :: "nat option"
  md_extract :: pointer
  md_replace :: pointer
  recorded_calls :: "(u64 \<times> u64) list option"
  dependencies :: "pointer list option"
  md_deallocator :: pointer

definition md_zero :: metadata_base where
  "md_zero = \<lparr>coupled_shadow_buffers = None, shadow = None, md_extract = 0, md_replace = 0,
     recorded_calls = None, dependencies = None, md_deallocator = 0\<rparr>"

type_synonym metadata_map = "pointer \<rightharpoonup> metadata_base"

definition metadata_map_new :: metadata_map where
  "metadata_map_new = Map.empty"

text \<open>The metadata of an object, created zeroed on first use, and the map with it.\<close>

definition ava_internal_metadata :: "metadata_map \<Rightarrow> pointer \<Rightarrow> metadata_base \<times> metadata_map" where
  "ava_internal_metadata mm p =
     (case mm p of Some md \<Rightarrow> (md, mm) | None \<Rightarrow> (md_zero, mm(p \<mapsto> md_zero)))"

definition ava_internal_metadata_no_create :: "metadata_map \<Rightarrow> pointer \<Rightarrow> metadata_base option" where
  "ava_internal_metadata_no_create mm p = mm p"

definition ava_add_recorded_call :: "metadata_map \<Rightarrow> pointer \<Rightarrow> u64 \<times> u64 \<Rightarrow> metadata_map" where
  "ava_add_recorded_call mm handle pair =
     (let (md, mm) = ava_internal_metadata mm handle;
          calls = (case recorded_calls md of None \<Rightarrow> [] | Some cs \<Rightarrow> cs)
      in mm(handle \<mapsto> md\<lparr>recorded_calls := Some (calls @ [pair])\<rparr>))"

definition ava_add_dependency :: "metadata_map \<Rightarrow> pointer \<Rightarrow> pointer \<Rightarrow> metadata_map" where
  "ava_add_dependency mm a b =
     (let (md, mm) = ava_internal_metadata mm a;
          deps = (case dependencies md of None \<Rightarrow> [] | Some ds \<Rightarrow> ds)
      in mm(a \<mapsto> md\<lparr>dependencies := Some (deps @ [b])\<rparr>))"

definition ava_assign_record_replay_functions ::
  "metadata_map \<Rightarrow> pointer \<Rightarrow> pointer \<Rightarrow> pointer \<Rightarrow> metadata_map" where
  "ava_assign_record_replay_functions mm handle extract replace =
     (let (md, mm) = ava_internal_metadata mm handle
      in mm(handle \<mapsto> md\<lparr>md_extract := extract, md_replace := replace\<rparr>))"

text \<open>Marking every recorded call of an object as expunged in the log.\<close>

fun expunge_pairs :: "os_write \<Rightarrow> (u64 \<times> u64) list \<Rightarrow> command_channel_log \<Rightarrow> command_channel_log res" where
  "expunge_pairs w [] lg = Inr lg"
| "expunge_pairs w ((a, b) # ps) lg =
     rbind (command_channel_log_update_flags w lg a 1) (\<lambda>lg.
     rbind (command_channel_log_update_flags w lg b 1) (\<lambda>lg. expunge_pairs w ps lg))"

definition ava_expunge_recorded_calls ::
  "os_write \<Rightarrow> metadata_map \<Rightarrow> command_channel_log \<Rightarrow> pointer \<Rightarrow> (metadata_map \<times> command_channel_log) res" where
  "ava_expunge_recorded_calls w mm lg handle =
     (let (md, mm) = ava_internal_metadata mm handle
      in case recorded_calls md of
           None \<Rightarrow> Inr (mm, lg)
         | Some ps \<Rightarrow> rbind (expunge_pairs w ps lg) (\<lambda>lg. Inr (mm, lg)))"

section \<open>Managed buffers\<close>

record garray =
  ga_refs :: nat
  ga_data :: bytes
  ga_capacity :: nat

record coupled_record =
  key_list :: "bytes list"
  buffer_list :: "nat list"

record ava_endpoint =
  managed_buffer_map :: "bytes \<rightharpoonup> nat"
  managed_by_coupled_map :: "pointer \<rightharpoonup> coupled_record"
  call_map :: "pointer ghash"
  call_counter :: u64
  garrays :: "nat \<rightharpoonup> garray"
  garray_next :: nat


text \<open>The key of a managed buffer, \<open>struct call_id_and_handle_t\<close>, in memory: the compiler's four padding
  bytes lie between the two fields, and hash and equality cover them.\<close>

definition call_id_and_handle :: "u32 \<Rightarrow> bytes \<Rightarrow> pointer \<Rightarrow> bytes" where
  "call_id_and_handle call_id pad handle = le_bytes 4 call_id @ pad @ le_bytes 8 handle"

definition nw_equal_call_id_and_handle :: "bytes \<Rightarrow> bytes \<Rightarrow> bool" where
  "nw_equal_call_id_and_handle k1 k2 \<longleftrightarrow> take 16 k1 = take 16 k2"

text \<open>GLib takes array sizes as 32 bit \<open>guint\<close>.\<close>

definition g_array_sized_new :: "u64 \<Rightarrow> ava_endpoint \<Rightarrow> nat \<times> ava_endpoint" where
  "g_array_sized_new sz ep =
     (garray_next ep,
      ep\<lparr>garrays := (garrays ep)(garray_next ep \<mapsto>
            \<lparr>ga_refs = 1, ga_data = [], ga_capacity = unat (ucast sz :: u32)\<rparr>),
         garray_next := garray_next ep + 1\<rparr>)"

definition g_array_set_size :: "nat \<Rightarrow> u64 \<Rightarrow> ava_endpoint \<Rightarrow> ava_endpoint res" where
  "g_array_set_size a sz ep =
     (case garrays ep a of
        None \<Rightarrow> Inl UseAfterFree
      | Some ga \<Rightarrow>
          let n = unat (ucast sz :: u32)
          in Inr (ep\<lparr>garrays := (garrays ep)(a \<mapsto>
               ga\<lparr>ga_data := take n (ga_data ga) @ replicate (n - length (ga_data ga)) 0,
                  ga_capacity := max n (ga_capacity ga)\<rparr>)\<rparr>))"

definition g_array_unref :: "nat \<Rightarrow> ava_endpoint \<Rightarrow> ava_endpoint res" where
  "g_array_unref a ep =
     (case garrays ep a of
        None \<Rightarrow> Inl DoubleFree
      | Some ga \<Rightarrow>
          if ga_refs ga = 1 then Inr (ep\<lparr>garrays := (garrays ep)(a := None)\<rparr>)
          else Inr (ep\<lparr>garrays := (garrays ep)(a \<mapsto> ga\<lparr>ga_refs := ga_refs ga - 1\<rparr>)\<rparr>))"

definition ava_coupled_record_new :: coupled_record where
  "ava_coupled_record_new = \<lparr>key_list = [], buffer_list = []\<rparr>"

definition ava_get_coupled_record_unlocked :: "ava_endpoint \<Rightarrow> pointer \<Rightarrow> coupled_record \<times> ava_endpoint" where
  "ava_get_coupled_record_unlocked ep coupled =
     (case managed_by_coupled_map ep coupled of
        Some rec \<Rightarrow> (rec, ep)
      | None \<Rightarrow> (ava_coupled_record_new,
                 ep\<lparr>managed_by_coupled_map := (managed_by_coupled_map ep)(coupled \<mapsto> ava_coupled_record_new)\<rparr>))"

definition ava_cached_alloc :: "ava_endpoint \<Rightarrow> u32 \<Rightarrow> bytes \<Rightarrow> pointer \<Rightarrow> u64 \<Rightarrow> (nat \<times> ava_endpoint) res" where
  "ava_cached_alloc ep call_id pad coupled sz =
     (let key = call_id_and_handle call_id pad coupled;
          (buffer, ep) =
            (case managed_buffer_map ep key of
               Some buffer \<Rightarrow> (buffer, ep)
             | None \<Rightarrow>
                 let (buffer, ep) = g_array_sized_new sz ep;
                     ep = ep\<lparr>managed_buffer_map := (managed_buffer_map ep)(key \<mapsto> buffer)\<rparr>;
                     (rec, ep) = ava_get_coupled_record_unlocked ep coupled;
                     rec = rec\<lparr>key_list := key_list rec @ [key], buffer_list := buffer_list rec @ [buffer]\<rparr>
                 in (buffer, ep\<lparr>managed_by_coupled_map := (managed_by_coupled_map ep)(coupled \<mapsto> rec)\<rparr>))
      in rbind (g_array_set_size buffer sz ep) (\<lambda>ep. Inr (buffer, ep)))"

definition ava_uncached_alloc :: "ava_endpoint \<Rightarrow> pointer \<Rightarrow> u64 \<Rightarrow> nat \<times> ava_endpoint" where
  "ava_uncached_alloc ep coupled sz =
     (let (buffer, ep) = g_array_sized_new sz ep;
          (rec, ep) = ava_get_coupled_record_unlocked ep coupled;
          rec = rec\<lparr>buffer_list := buffer_list rec @ [buffer]\<rparr>
      in (buffer, ep\<lparr>managed_by_coupled_map := (managed_by_coupled_map ep)(coupled \<mapsto> rec)\<rparr>))"

definition ava_static_alloc :: "ava_endpoint \<Rightarrow> u32 \<Rightarrow> bytes \<Rightarrow> u64 \<Rightarrow> (nat \<times> ava_endpoint) res" where
  "ava_static_alloc ep call_id pad sz = ava_cached_alloc ep call_id pad null_ptr sz"

text \<open>Releasing a record: every key is removed from the buffer map, which releases the buffer stored
  there, and then every buffer of the list is released.\<close>

fun remove_keys :: "bytes list \<Rightarrow> ava_endpoint \<Rightarrow> ava_endpoint res" where
  "remove_keys [] ep = Inr ep"
| "remove_keys (k # ks) ep =
     (case managed_buffer_map ep k of
        None \<Rightarrow> remove_keys ks ep
      | Some a \<Rightarrow> rbind (g_array_unref a (ep\<lparr>managed_buffer_map := (managed_buffer_map ep)(k := None)\<rparr>)) (remove_keys ks))"

fun unref_all :: "nat list \<Rightarrow> ava_endpoint \<Rightarrow> ava_endpoint res" where
  "unref_all [] ep = Inr ep"
| "unref_all (a # as) ep = rbind (g_array_unref a ep) (unref_all as)"

definition ava_coupled_record_free :: "ava_endpoint \<Rightarrow> coupled_record \<Rightarrow> ava_endpoint res" where
  "ava_coupled_record_free ep r = rbind (remove_keys (key_list r) ep) (unref_all (buffer_list r))"

text \<open>The table calls its value destructor with the value alone. \<open>ava_coupled_record_free\<close> is registered
  there although it takes the endpoint first, so its second argument is never set.\<close>

definition ava_coupled_free :: "ava_endpoint \<Rightarrow> pointer \<Rightarrow> ava_endpoint res" where
  "ava_coupled_free ep coupled =
     (case managed_by_coupled_map ep coupled of
        None \<Rightarrow> Inr ep
      | Some r \<Rightarrow> Inl Uninitialised)"

section \<open>Pending calls\<close>




section \<open>Pending calls against their specification\<close>







section \<open>Managed buffers\<close>

definition ep_inv :: "ava_endpoint \<Rightarrow> bool" where
  "ep_inv ep \<longleftrightarrow>
     (\<forall>k k' a. managed_buffer_map ep k = Some a \<longrightarrow> managed_buffer_map ep k' = Some a \<longrightarrow> k = k') \<and>
     (\<forall>k a. managed_buffer_map ep k = Some a \<longrightarrow> garrays ep a \<noteq> None) \<and> (\<forall>a \<ge> garray_next ep. garrays ep a = None)"

lemma set_size_Inr:
  "garrays ep a = Some ga \<Longrightarrow> \<exists>ga'. g_array_set_size a sz ep = Inr (ep\<lparr>garrays := (garrays ep)(a \<mapsto> ga')\<rparr>) \<and>
     length (ga_data ga') = unat sz mod 2 ^ 32 \<and>
     take (unat sz mod 2 ^ 32) (ga_data ga) = take (length (ga_data ga)) (ga_data ga')"
  by (auto simp: g_array_set_size_def Let_def unsigned_ucast_eq take_bit_eq_mod min_def)

lemma cached_alloc_known:
  assumes "managed_buffer_map ep (call_id_and_handle i pad c) = Some b" "garrays ep b = Some ga"
  shows "\<exists>ga'. ava_cached_alloc ep i pad c sz = Inr (b, ep\<lparr>garrays := (garrays ep)(b \<mapsto> ga')\<rparr>) \<and>
    length (ga_data ga') = unat sz mod 2 ^ 32"
  using set_size_Inr [OF assms(2), of sz] assms(1) by (auto simp: ava_cached_alloc_def)

lemma cached_alloc_new:
  assumes "managed_buffer_map ep (call_id_and_handle i pad c) = None"
  shows "\<exists>ga' ep'. ava_cached_alloc ep i pad c sz = Inr (garray_next ep, ep') \<and>
    garrays ep' = (garrays ep)(garray_next ep \<mapsto> ga') \<and> length (ga_data ga') = unat sz mod 2 ^ 32 \<and>
    managed_buffer_map ep' = (managed_buffer_map ep)(call_id_and_handle i pad c \<mapsto> garray_next ep) \<and>
    garray_next ep' = garray_next ep + 1"
  using assms
  by (auto simp: ava_cached_alloc_def g_array_sized_new_def ava_get_coupled_record_unlocked_def Let_def
      g_array_set_size_def unsigned_ucast_eq take_bit_eq_mod split: option.splits)

section \<open>Expunging recorded calls\<close>

text \<open>The indices of the log entries whose offset is one of the given pairs.\<close>

definition off_index :: "log_entry list \<Rightarrow> (u64 \<times> u64) list \<Rightarrow> nat \<Rightarrow> bool" where
  "off_index es ps i \<longleftrightarrow> of_nat (entry_off es i) \<in> fst ` set ps \<union> snd ` set ps"

definition pairs_in_log :: "log_entry list \<Rightarrow> (u64 \<times> u64) list \<Rightarrow> bool" where
  "pairs_in_log es ps \<longleftrightarrow> (\<forall>(a, b)\<in>set ps.
     (\<exists>i < length es. a = of_nat (entry_off es i)) \<and> (\<exists>i < length es. b = of_nat (entry_off es i)))"

lemma entry_off_strict: "i < j \<Longrightarrow> j \<le> length es \<Longrightarrow> entry_off es i < entry_off es j"
proof (induction j)
  case (Suc j)
  then show ?case
    using entry_off_Suc [of j es] by (cases "i = j") auto
qed simp

lemma entry_off_inj:
  assumes "i < length es" "j < length es" "length (enc_log es) < 2 ^ 63"
    "(of_nat (entry_off es i) :: u64) = of_nat (entry_off es j)"
  shows "i = j"
proof -
  have "entry_off es i < 2 ^ 63" "entry_off es j < 2 ^ 63"
    using assms(3) entry_off_le [of es i] entry_off_le [of es j] by linarith+
  then have "entry_off es i = entry_off es j" using assms(4) unat_small by metis
  then show ?thesis using entry_off_strict [of i j es] entry_off_strict [of j i es] assms(1,2) by (cases i j rule: linorder_cases) auto
qed

definition mark :: "(nat \<Rightarrow> bool) \<Rightarrow> log_entry list \<Rightarrow> log_entry list" where
  "mark P es = map (\<lambda>i. (if P i then 1 else fst (es ! i), snd (es ! i))) [0..<length es]"

lemma length_mark [simp]: "length (mark P es) = length es"
  by (simp add: mark_def)

lemma nth_mark: "i < length es \<Longrightarrow> mark P es ! i = (if P i then 1 else fst (es ! i), snd (es ! i))"
  by (simp add: mark_def)

lemma mark_update:
  "j < length es \<Longrightarrow> (mark P es)[j := (1, snd (mark P es ! j))] = mark (\<lambda>i. i = j \<or> P i) es"
  by (rule nth_equalityI) (auto simp: nth_mark nth_list_update)

lemma map_snd_mark: "map snd (mark P es) = map snd es"
  by (rule nth_equalityI) (simp_all add: nth_mark)

lemma entry_off_snd: "map snd es = map snd fs \<Longrightarrow> entry_off es i = entry_off fs i"
proof -
  have len: "length (enc_log xs) = (\<Sum>b\<leftarrow>map snd xs. 16 + length b)" for xs
    by (induction xs) simp_all
  assume "map snd es = map snd fs"
  then have "map snd (take i es) = map snd (take i fs)" by (simp flip: take_map)
  then show ?thesis by (simp only: entry_off_def len)
qed

lemma entry_off_mark [simp]: "entry_off (mark P es) i = entry_off es i"
  by (rule entry_off_snd) (rule map_snd_mark)

lemma length_enc_mark [simp]: "length (enc_log (mark P es)) = length (enc_log es)"
  using entry_off_mark [of P es "length es"] entry_off_end [of "mark P es"] entry_off_end [of es] by simp

lemma update_flags_mark:
  assumes "full_writes w" "fdata (log_fd c) = enc_log (mark P es)" "length (enc_log es) < 2 ^ 63" "j < length es"
  shows "\<exists>c'. command_channel_log_update_flags w c (of_nat (entry_off es j)) 1 = Inr c' \<and>
    fdata (log_fd c') = enc_log (mark (\<lambda>i. i = j \<or> P i) es)"
  using update_flags_refines [OF assms(1,2), of j 1] assms(3,4) by (auto simp: mark_update)

lemma expunge_pairs_mark:
  assumes "full_writes w" "fdata (log_fd c) = enc_log (mark P es)" "length (enc_log es) < 2 ^ 63" "pairs_in_log es ps"
  shows "\<exists>c'. expunge_pairs w ps c = Inr c' \<and> fdata (log_fd c') = enc_log (mark (\<lambda>i. off_index es ps i \<or> P i) es)"
  using assms(2,4)
proof (induction ps arbitrary: c P)
  case Nil
  then show ?case by (simp add: off_index_def)
next
  case (Cons x ps)
  obtain a b where x: "x = (a, b)" by (cases x)
  with Cons.prems(2) obtain i j where i: "i < length es" "a = of_nat (entry_off es i)"
    and j: "j < length es" "b = of_nat (entry_off es j)" by (auto simp: pairs_in_log_def)
  from update_flags_mark [OF assms(1) Cons.prems(1) assms(3) i(1)] obtain c1 where
    c1: "command_channel_log_update_flags w c a 1 = Inr c1" "fdata (log_fd c1) = enc_log (mark (\<lambda>k. k = i \<or> P k) es)"
    using i(2) by blast
  from update_flags_mark [OF assms(1) c1(2) assms(3) j(1)] obtain c2 where
    c2: "command_channel_log_update_flags w c1 b 1 = Inr c2"
        "fdata (log_fd c2) = enc_log (mark (\<lambda>k. k = j \<or> k = i \<or> P k) es)"
    using j(2) by blast
  from Cons.IH [OF c2(2)] Cons.prems(2) obtain c3 where
    c3: "expunge_pairs w ps c2 = Inr c3"
        "fdata (log_fd c3) = enc_log (mark (\<lambda>k. off_index es ps k \<or> k = j \<or> k = i \<or> P k) es)"
    by (auto simp: pairs_in_log_def)
  have "mark (\<lambda>k. off_index es ps k \<or> k = j \<or> k = i \<or> P k) es = mark (\<lambda>k. off_index es (x # ps) k \<or> P k) es"
    using entry_off_inj [OF _ i(1) assms(3)] entry_off_inj [OF _ j(1) assms(3)] i(2) j(2)
    by (auto simp: mark_def off_index_def x)
  with c1(1) c2(1) c3 x show ?case by simp
qed

lemma mark_none: "mark (\<lambda>_. False) es = es"
  by (rule nth_equalityI) (simp_all add: nth_mark)

section \<open>Properties\<close>




definition ep0 :: ava_endpoint where
  "ep0 = \<lparr>managed_buffer_map = Map.empty, managed_by_coupled_map = Map.empty, call_map = Map.empty,
     call_counter = 0, garrays = Map.empty, garray_next = 0\<rparr>"


text \<open>C33: Expunging an object marks exactly its recorded calls in the log: the update of every flag succeeds,
  and afterwards loading an entry gives the same command with flag 1 if the entry is one of the object's
  recorded calls or returns, and with its old flags otherwise.\<close>

theorem expunge_marks_recorded_calls:
  assumes "full_writes w" "fdata (log_fd lg) = enc_log es" "length (enc_log es) < 2 ^ 63"
    and "mm h = Some md" "recorded_calls md = Some ps" "pairs_in_log es ps"
  shows "\<exists>lg'. ava_expunge_recorded_calls w mm lg h = Inr (mm, lg') \<and>
    (\<forall>i < length es. \<exists>lg''. command_channel_log_load_command lg' (of_nat (entry_off es i)) =
       (Some (snd (es ! i)), Some (if off_index es ps i then 1 else fst (es ! i)), lg''))"
proof -
  have "fdata (log_fd lg) = enc_log (mark (\<lambda>_. False) es)" using assms(2) by (simp add: mark_none)
  from expunge_pairs_mark [OF assms(1) this assms(3,6)] obtain lg' where
    r: "expunge_pairs w ps lg = Inr lg'" "fdata (log_fd lg') = enc_log (mark (off_index es ps) es)" by auto
  have "\<exists>lg''. command_channel_log_load_command lg' (of_nat (entry_off es i)) =
      (Some (snd (es ! i)), Some (if off_index es ps i then 1 else fst (es ! i)), lg'')" if "i < length es" for i
    using load_at [OF r(2), of i "of_nat (entry_off es i)"] that assms(3) by (auto simp: nth_mark)
  with r(1) assms(4,5) show ?thesis by (auto simp: ava_expunge_recorded_calls_def ava_internal_metadata_def)
qed

theorem expunge_marks_recorded_calls_witness:
  "\<exists>lg lg' lg2 lg3. fdata (log_fd lg) = enc_log [(0, [1]), (0, [2]), (0, [3])] \<and>
     ava_expunge_recorded_calls (\<lambda>_. int) [5 \<mapsto> md_zero\<lparr>recorded_calls := Some [(0, 17)]\<rparr>] lg 5 =
       Inr ([5 \<mapsto> md_zero\<lparr>recorded_calls := Some [(0, 17)]\<rparr>], lg') \<and>
     command_channel_log_load_command lg' 17 = (Some [2], Some 1, lg2) \<and>
     command_channel_log_load_command lg' 34 = (Some [3], Some 0, lg3)"
proof -
  let ?es = "[(0, [1]), (0, [2]), (0, [3])] :: log_entry list"
  let ?lg = "command_channel_log_new\<lparr>log_fd := \<lparr>fdata = enc_log ?es, fpos = 0\<rparr>\<rparr>"
  let ?mm = "[5 \<mapsto> md_zero\<lparr>recorded_calls := Some [(0, 17)]\<rparr>]"
  have w: "full_writes (\<lambda>_. int)" by (simp add: full_writes_def)
  have o: "entry_off ?es 0 = 0" "entry_off ?es 1 = 17" "entry_off ?es 2 = 34"
    by (simp_all add: entry_off_def numeral_2_eq_2)
  have p: "pairs_in_log ?es [(0, 17)]"
    unfolding pairs_in_log_def using o by (auto intro: exI [of _ 0] exI [of _ 1])
  have "length (enc_log ?es) < 2 ^ 63" by simp
  from expunge_marks_recorded_calls [OF w _ this _ _ p, of ?lg ?mm 5] obtain lg' where
    e: "ava_expunge_recorded_calls (\<lambda>_. int) ?mm ?lg 5 = Inr (?mm, lg')"
    "\<forall>i < length ?es. \<exists>lg''. command_channel_log_load_command lg' (of_nat (entry_off ?es i)) =
       (Some (snd (?es ! i)), Some (if off_index ?es [(0, 17)] i then 1 else fst (?es ! i)), lg'')" by auto
  have x: "off_index ?es [(0, 17)] 1" "\<not> off_index ?es [(0, 17)] 2" unfolding off_index_def o by simp_all
  obtain lg2 where 1: "command_channel_log_load_command lg' 17 = (Some [2], Some 1, lg2)"
    using e(2) [rule_format, of 1] o(2) x(1) by auto
  obtain lg3 where 2: "command_channel_log_load_command lg' 34 = (Some [3], Some 0, lg3)"
    using e(2) [rule_format, of 2] o(3) x(2) by auto
  show ?thesis by (rule exI [of _ ?lg]) (use e(1) 1 2 in auto)
qed

text \<open>The key of a managed buffer includes the padding bytes of its structure: two requests for the same
  call site and object get the same buffer exactly when the padding agrees, although the code only sets
  the two fields.\<close>

theorem cached_alloc_key_padding:
  assumes "ep_inv ep" "length pad = 4" "length pad' = 4" "ava_cached_alloc ep i pad c sz = Inr (b, ep')"
    "managed_buffer_map ep (call_id_and_handle i pad' c) = None"
  shows "\<exists>b' ep''. ava_cached_alloc ep' i pad' c sz' = Inr (b', ep'') \<and> (b' = b \<longleftrightarrow> pad' = pad)"
proof -
  let ?k = "call_id_and_handle i pad c" and ?k' = "call_id_and_handle i pad' c"
  have key: "?k' = ?k \<longleftrightarrow> pad' = pad" using assms(2,3) by (simp add: call_id_and_handle_def)
  show ?thesis
  proof (cases "managed_buffer_map ep ?k")
    case None
    from cached_alloc_new [OF None, of sz] assms(4) obtain ga where
      r: "b = garray_next ep" "garrays ep' = (garrays ep)(garray_next ep \<mapsto> ga)"
      "managed_buffer_map ep' = (managed_buffer_map ep)(?k \<mapsto> garray_next ep)" "garray_next ep' = garray_next ep + 1" by auto
    show ?thesis
    proof (cases "pad' = pad")
      case True
      with cached_alloc_known [of ep' i pad' c b ga sz'] r show ?thesis by auto
    next
      case False
      with key r(3) assms(5) have "managed_buffer_map ep' ?k' = None" by simp
      from cached_alloc_new [OF this, of sz'] r False show ?thesis by auto
    qed
  next
    case (Some b0)
    with assms(1) have "garrays ep b0 \<noteq> None" unfolding ep_inv_def by blast
    then obtain ga where ga: "garrays ep b0 = Some ga" by blast
    from cached_alloc_known [OF Some ga, of sz] assms(4) have
      r: "b = b0" "managed_buffer_map ep' = managed_buffer_map ep" "garray_next ep' = garray_next ep" by auto
    have "b0 \<noteq> garray_next ep" using ga assms(1) by (auto simp: ep_inv_def)
    moreover have "pad' \<noteq> pad" using Some assms(5) by auto
    moreover have "managed_buffer_map ep' ?k' = None" using r assms(5) by simp
    ultimately show ?thesis using cached_alloc_new [of ep' i pad' c sz'] r by auto
  qed
qed

theorem cached_alloc_key_padding_witness:
  "\<exists>ep' b' ep''. ava_cached_alloc ep0 5 [0, 0, 0, 0] 0 8 = Inr (0, ep') \<and>
     ava_cached_alloc ep' 5 [1, 0, 0, 0] 0 8 = Inr (b', ep'') \<and> b' \<noteq> 0"
proof -
  have i: "ep_inv ep0" by (simp add: ep_inv_def ep0_def)
  from cached_alloc_new [of ep0 5 "[0, 0, 0, 0]" 0 8] obtain ep' where
    a: "ava_cached_alloc ep0 5 [0, 0, 0, 0] 0 8 = Inr (0, ep')" by (auto simp: ep0_def)
  from cached_alloc_key_padding [OF i _ _ a, of "[1, 0, 0, 0]" 8] a show ?thesis by (auto simp: ep0_def)
qed

text \<open>A cached buffer is registered both in the buffer map and in the list of its object but holds one
  reference: releasing the object's record releases the buffer twice. The registered destructor does not
  get that far, since it is called with the record as its first argument only.\<close>

theorem cached_buffer_released_twice:
  assumes "managed_buffer_map ep k = Some a" "garrays ep a = Some ga" "ga_refs ga = 1"
  shows "ava_coupled_record_free ep \<lparr>key_list = [k], buffer_list = [a]\<rparr> = Inl DoubleFree \<and>
    (managed_by_coupled_map ep c \<noteq> None \<longrightarrow> ava_coupled_free ep c = Inl Uninitialised)"
  using assms by (auto simp: ava_coupled_record_free_def g_array_unref_def ava_coupled_free_def)

theorem cached_buffer_released_twice_witness:
  "\<exists>ep' r. ava_cached_alloc ep0 5 [0, 0, 0, 0] 7 8 = Inr (0, ep') \<and> managed_by_coupled_map ep' 7 = Some r \<and>
     ava_coupled_record_free ep' r = Inl DoubleFree \<and> ava_coupled_free ep' 7 = Inl Uninitialised"
proof -
  let ?k = "call_id_and_handle 5 [0, 0, 0, 0] 7"
  obtain ep' where e: "ava_cached_alloc ep0 5 [0, 0, 0, 0] 7 8 = Inr (0, ep')"
    "managed_by_coupled_map ep' 7 = Some \<lparr>key_list = [?k], buffer_list = [0]\<rparr>"
    "managed_buffer_map ep' ?k = Some 0" "\<exists>ga. garrays ep' 0 = Some ga \<and> ga_refs ga = 1"
    by (simp add: ep0_def ava_cached_alloc_def g_array_sized_new_def ava_get_coupled_record_unlocked_def
        ava_coupled_record_new_def g_array_set_size_def Let_def)
  then show ?thesis using cached_buffer_released_twice [OF e(3), of _ 7] by auto
qed

end
