(* ===== verification/Shadow_Buffers.thy ===== *)
theory Shadow_Buffers
  imports Endpoint Socket_Channel
begin

text \<open>
  Shadow buffers (\<open>common/endpoint_lib.c\<close>, last part): a buffer of one endpoint has a counterpart on the
  other, found by the identifier in the header that travels with the data. A solid buffer belongs to the
  application; a shadow buffer is allocated and released by the endpoint. Records live in an explicit
  heap because metadata and the coupled lists keep pointers to them. The stub's allocator is a parameter
  that gives the address of the $n$-th allocation; calls of a deallocator are kept in order.
\<close>

section \<open>State\<close>

datatype ava_lifetime = AVA_CALL | AVA_COUPLED | AVA_STATIC | AVA_MANUAL

record shadow_record =
  sr_size :: u64
  sr_deallocator :: pointer
  sr_id :: pointer
  sr_local :: pointer

record shadow_state =
  buffers_by_id :: "pointer \<rightharpoonup> nat"
  sh_heap :: "nat \<rightharpoonup> shadow_record"
  sh_next :: nat
  sh_md :: metadata_map
  sh_gen :: id_gen
  sh_allocs :: nat
  sh_freed :: "(pointer \<times> pointer) list"

type_synonym allocator = "nat \<Rightarrow> u64 \<Rightarrow> pointer"

text \<open>The metadata of an object, changed in place.\<close>

definition sh_metadata :: "pointer \<Rightarrow> shadow_state \<Rightarrow> metadata_base \<times> shadow_state" where
  "sh_metadata p st = (let (md, mm) = ava_internal_metadata (sh_md st) p in (md, st\<lparr>sh_md := mm\<rparr>))"

definition sh_load :: "nat \<Rightarrow> shadow_state \<Rightarrow> shadow_record res" where
  "sh_load a st = (case sh_heap st a of None \<Rightarrow> Inl UseAfterFree | Some r \<Rightarrow> Inr r)"

section \<open>Operations\<close>

definition ava_shadow_buffer_new_record_unlocked ::
  "pointer \<Rightarrow> u64 \<Rightarrow> pointer \<Rightarrow> pointer \<Rightarrow> shadow_state \<Rightarrow> (nat \<times> shadow_state) res" where
  "ava_shadow_buffer_new_record_unlocked i sz local dealloc st =
     (let a = sh_next st;
          (md, st) = sh_metadata local st;
          st = st\<lparr>sh_heap := (sh_heap st)(a \<mapsto>
                 \<lparr>sr_size = sz, sr_deallocator = dealloc, sr_id = i, sr_local = local\<rparr>), sh_next := a + 1\<rparr>
      in if buffers_by_id st i \<noteq> None then Inl (Aborted ''Function returned failure: g_hash_table_insert'')
         else rbind (c_assert (shadow md = None) ''metadata->shadow == NULL'') (\<lambda>_.
              Inr (a, st\<lparr>buffers_by_id := (buffers_by_id st)(i \<mapsto> a),
                         sh_md := (sh_md st)(local \<mapsto> md\<lparr>shadow := Some a\<rparr>)\<rparr>)))"

text \<open>The table owns its records: removing an identifier frees the record stored under it.\<close>

definition remove_by_id :: "pointer \<Rightarrow> shadow_state \<Rightarrow> shadow_state" where
  "remove_by_id i st =
     (case buffers_by_id st i of
        None \<Rightarrow> st
      | Some a \<Rightarrow> st\<lparr>buffers_by_id := (buffers_by_id st)(i := None), sh_heap := (sh_heap st)(a := None)\<rparr>)"

definition ava_shadow_buffer_free_record_unlocked :: "nat \<Rightarrow> shadow_state \<Rightarrow> shadow_state res" where
  "ava_shadow_buffer_free_record_unlocked a st =
     rbind (sh_load a st) (\<lambda>r.
     rbind (c_assert (sr_deallocator r \<noteq> null_ptr) ''solid buffer is not supposed to be deallocated by AvA'') (\<lambda>_.
     Inr (remove_by_id (sr_id r) (st\<lparr>sh_freed := sh_freed st @ [(sr_deallocator r, sr_local r)]\<rparr>))))"

definition ava_shadow_buffer_free_unlocked :: "pointer \<Rightarrow> shadow_state \<Rightarrow> shadow_state res" where
  "ava_shadow_buffer_free_unlocked local st =
     (case ava_internal_metadata_no_create (sh_md st) local of
        None \<Rightarrow> Inr st
      | Some md \<Rightarrow>
          (case shadow md of
             None \<Rightarrow> Inr st
           | Some a \<Rightarrow>
               rbind (ava_shadow_buffer_free_record_unlocked a st) (\<lambda>st.
               Inr (st\<lparr>sh_md := (sh_md st)(local \<mapsto> md\<lparr>shadow := None\<rparr>)\<rparr>))))"

text \<open>Registering a record with the object its lifetime is coupled to.\<close>

definition couple_record :: "pointer \<Rightarrow> nat \<Rightarrow> shadow_state \<Rightarrow> shadow_state" where
  "couple_record coupled a st =
     (let (md, st) = sh_metadata coupled st;
          l = (case coupled_shadow_buffers md of None \<Rightarrow> [] | Some l \<Rightarrow> l)
      in st\<lparr>sh_md := (sh_md st)(coupled \<mapsto> md\<lparr>coupled_shadow_buffers := Some (l @ [a])\<rparr>)\<rparr>)"

definition create_shadow ::
  "allocator \<Rightarrow> pointer \<Rightarrow> u64 \<Rightarrow> ava_lifetime \<Rightarrow> pointer \<Rightarrow> pointer \<Rightarrow> shadow_state \<Rightarrow> (pointer \<times> shadow_state) res" where
  "create_shadow alloc i sz lifetime coupled dealloc st =
     (let local = alloc (sh_allocs st) sz;
          st = st\<lparr>sh_allocs := sh_allocs st + 1\<rparr>
      in rbind (ava_shadow_buffer_new_record_unlocked i sz local dealloc st) (\<lambda>(a, st).
         let coupled = (if lifetime = AVA_MANUAL then local else coupled)
         in Inr (local, if coupled \<noteq> null_ptr then couple_record coupled a st else st)))"

text \<open>\<open>get\<close> and \<open>new_shadow\<close> call each other: a buffer that must grow is freed and created again. The first
  argument bounds the depth of these calls.\<close>

definition shadow_fuel :: nat where
  "shadow_fuel = Suc (Suc (Suc (Suc 0)))"

fun ava_shadow_buffer_get_unlocked ::
    "nat \<Rightarrow> pointer \<Rightarrow> u64 \<Rightarrow> ava_lifetime \<Rightarrow> pointer \<Rightarrow> allocator option \<Rightarrow> pointer \<Rightarrow> shadow_state \<Rightarrow> (pointer \<times> shadow_state) res"
  and ava_shadow_buffer_new_shadow_unlocked ::
    "nat \<Rightarrow> pointer \<Rightarrow> u64 \<Rightarrow> ava_lifetime \<Rightarrow> pointer \<Rightarrow> allocator option \<Rightarrow> pointer \<Rightarrow> shadow_state \<Rightarrow> (pointer \<times> shadow_state) res"
where
  "ava_shadow_buffer_get_unlocked 0 i sz lifetime coupled alloc dealloc st = Inl OutOfFuel"
| "ava_shadow_buffer_get_unlocked (Suc n) i sz lifetime coupled alloc dealloc st =
     rbind (c_assert (lifetime \<noteq> AVA_CALL) ''lifetime != AVA_CALL'') (\<lambda>_.
     rbind (c_assert (i \<noteq> null_ptr) ''id != NULL'') (\<lambda>_.
     case buffers_by_id st i of
       None \<Rightarrow> Inl (AssertFail ''record != NULL'')
     | Some a \<Rightarrow>
         rbind (sh_load a st) (\<lambda>r.
         rbind (c_assert (sr_id r = i) ''record->id == id'') (\<lambda>_.
         if sr_size r < sz \<and> sr_deallocator r \<noteq> null_ptr
         then rbind (ava_shadow_buffer_free_unlocked (sr_local r) st) (\<lambda>st.
              ava_shadow_buffer_new_shadow_unlocked n i sz lifetime coupled alloc dealloc st)
         else Inr (sr_local r, st)))))"
| "ava_shadow_buffer_new_shadow_unlocked 0 i sz lifetime coupled alloc dealloc st = Inl OutOfFuel"
| "ava_shadow_buffer_new_shadow_unlocked (Suc n) i sz lifetime coupled alloc dealloc st =
     rbind (c_assert (lifetime \<noteq> AVA_CALL) ''lifetime != AVA_CALL'') (\<lambda>_.
     rbind (c_assert (i \<noteq> null_ptr) ''id != NULL'') (\<lambda>_.
     case alloc of
       None \<Rightarrow> Inl (AssertFail ''alloc != NULL'')
     | Some al \<Rightarrow>
         rbind (c_assert (dealloc \<noteq> null_ptr) ''dealloc != NULL'') (\<lambda>_.
         if buffers_by_id st i \<noteq> None
         then ava_shadow_buffer_get_unlocked n i sz lifetime coupled alloc dealloc st
         else create_shadow al i sz lifetime coupled dealloc st)))"

definition ava_shadow_buffer_new_solid_unlocked ::
  "pointer \<Rightarrow> u64 \<Rightarrow> ava_lifetime \<Rightarrow> pointer \<Rightarrow> shadow_state \<Rightarrow> shadow_state res" where
  "ava_shadow_buffer_new_solid_unlocked local sz lifetime dealloc st =
     rbind (c_assert (dealloc = null_ptr) ''dealloc == NULL'') (\<lambda>_.
     rbind (c_assert (lifetime \<noteq> AVA_CALL) ''lifetime != AVA_CALL'') (\<lambda>_.
     rbind (c_assert (local \<noteq> null_ptr) ''local != NULL'') (\<lambda>_.
     let (md, st) = sh_metadata local st
     in if shadow md \<noteq> None then Inr st
        else let (i, g) = next_id (sh_gen st)
             in rbind (ava_shadow_buffer_new_record_unlocked i sz local null_ptr (st\<lparr>sh_gen := g\<rparr>)) (\<lambda>(a, st).
                Inr st))))"

fun free_coupled_loop :: "nat list \<Rightarrow> shadow_state \<Rightarrow> shadow_state res" where
  "free_coupled_loop [] st = Inr st"
| "free_coupled_loop (a # as) st =
     rbind (sh_load a st) (\<lambda>r.
     rbind (ava_shadow_buffer_free_unlocked (sr_local r) st) (free_coupled_loop as))"

definition ava_shadow_buffer_free_coupled_unlocked :: "pointer \<Rightarrow> shadow_state \<Rightarrow> shadow_state res" where
  "ava_shadow_buffer_free_coupled_unlocked obj st =
     (case ava_internal_metadata_no_create (sh_md st) obj of
        None \<Rightarrow> Inr st
      | Some md \<Rightarrow>
          (case coupled_shadow_buffers md of
             None \<Rightarrow> Inr st
           | Some l \<Rightarrow>
               rbind (free_coupled_loop l st) (\<lambda>st.
               let (md, st) = sh_metadata obj st
               in Inr (st\<lparr>sh_md := (sh_md st)(obj \<mapsto> md\<lparr>coupled_shadow_buffers := None\<rparr>)\<rparr>))))"

section \<open>Headers\<close>

text \<open>\<open>struct ava_buffer_header_t\<close>, 24 bytes, of which seven are padding.\<close>

definition enc_header :: "bytes \<Rightarrow> pointer \<Rightarrow> u8 \<Rightarrow> u64 \<Rightarrow> bytes" where
  "enc_header pad i has sz = le_bytes 8 i @ [has] @ pad @ le_bytes 8 sz"

definition header_id :: "bytes \<Rightarrow> pointer" where "header_id h = get_u64 0 h"
definition header_size :: "bytes \<Rightarrow> u64" where "header_size h = get_u64 16 h"

definition ava_shadow_buffer_size :: "(u64 \<Rightarrow> u64) \<Rightarrow> u64 \<Rightarrow> u64" where
  "ava_shadow_buffer_size chan_size sz = chan_size 24 + chan_size sz"

definition ava_shadow_buffer_size_without_data :: "(u64 \<Rightarrow> u64) \<Rightarrow> u64 \<Rightarrow> u64" where
  "ava_shadow_buffer_size_without_data chan_size sz = chan_size 24"

text \<open>\<open>att\<close> is the channel's \<open>attach_buffer\<close> on the state of the command under construction.\<close>

definition ava_shadow_buffer_attach_buffer ::
  "('s \<Rightarrow> bytes \<Rightarrow> (u64 \<times> 's) res) \<Rightarrow> 's \<Rightarrow> bytes \<Rightarrow> pointer \<Rightarrow> bytes \<Rightarrow> ava_lifetime \<Rightarrow> shadow_state \<Rightarrow>
   (u64 \<times> 's \<times> shadow_state) res" where
  "ava_shadow_buffer_attach_buffer att s pad local data lifetime st =
     rbind (ava_shadow_buffer_new_solid_unlocked local (of_nat (length data)) lifetime null_ptr st) (\<lambda>st.
     let (md, st) = sh_metadata local st
     in case shadow md of
          None \<Rightarrow> Inl (AssertFail ''The shadow buffer should have already been created.'')
        | Some a \<Rightarrow>
            rbind (sh_load a st) (\<lambda>r.
            rbind (att s (enc_header pad (sr_id r) 1 (of_nat (length data)))) (\<lambda>(header_offset, s).
            rbind (att s data) (\<lambda>(buffer_offset, s).
            rbind (c_assert (buffer_offset - header_offset = 24) ''buffer_offset - header_offset == sizeof'') (\<lambda>_.
            Inr (buffer_offset, s, st))))))"

definition ava_shadow_buffer_attach_buffer_without_data ::
  "('s \<Rightarrow> bytes \<Rightarrow> (u64 \<times> 's) res) \<Rightarrow> 's \<Rightarrow> bytes \<Rightarrow> pointer \<Rightarrow> u64 \<Rightarrow> ava_lifetime \<Rightarrow> shadow_state \<Rightarrow>
   (u64 \<times> 's \<times> shadow_state) res" where
  "ava_shadow_buffer_attach_buffer_without_data att s pad local sz lifetime st =
     rbind (ava_shadow_buffer_new_solid_unlocked local sz lifetime null_ptr st) (\<lambda>st.
     let (md, st) = sh_metadata local st
     in case shadow md of
          None \<Rightarrow> Inl (AssertFail ''The shadow buffer should have already been created.'')
        | Some a \<Rightarrow>
            rbind (sh_load a st) (\<lambda>r.
            rbind (att s (enc_header pad (sr_id r) 0 sz)) (\<lambda>(header_offset, s).
            Inr (header_offset + 24, s, st))))"

text \<open>\<open>get\<close> reads bytes of the received command by buffer identifier.\<close>

definition ava_shadow_buffer_get_buffer ::
  "(u64 \<Rightarrow> nat \<Rightarrow> bytes res) \<Rightarrow> u64 \<Rightarrow> ava_lifetime \<Rightarrow> pointer \<Rightarrow> allocator option \<Rightarrow> pointer \<Rightarrow> shadow_state \<Rightarrow>
   (pointer \<times> u64 \<times> shadow_state) res" where
  "ava_shadow_buffer_get_buffer get offset lifetime coupled alloc dealloc st =
     rbind (c_assert (lifetime \<noteq> AVA_CALL) ''lifetime != AVA_CALL'') (\<lambda>_.
     rbind (get (offset - 24) 24) (\<lambda>h.
     rbind (ava_shadow_buffer_new_shadow_unlocked shadow_fuel (header_id h) (header_size h) lifetime coupled alloc dealloc st)
       (\<lambda>(shadow, st). Inr (shadow, header_size h, st))))"

section \<open>Invariant\<close>

text \<open>The shadow record an address points to.\<close>

definition md_shadow :: "metadata_map \<Rightarrow> pointer \<Rightarrow> nat option" where
  "md_shadow mm p = (case mm p of None \<Rightarrow> None | Some md \<Rightarrow> shadow md)"

abbreviation shadow_of :: "shadow_state \<Rightarrow> pointer \<Rightarrow> nat option" where
  "shadow_of st \<equiv> md_shadow (sh_md st)"

lemma md_shadow_upd [simp]: "md_shadow (mm(p \<mapsto> md)) = (md_shadow mm)(p := shadow md)"
  by (auto simp: md_shadow_def)

text \<open>Table, heap and metadata agree: the record found by an identifier carries that identifier and is the
  one its local buffer points to, and every record a buffer points to is in the table.\<close>

definition view_inv :: "(pointer \<rightharpoonup> nat) \<Rightarrow> (nat \<rightharpoonup> shadow_record) \<Rightarrow> (pointer \<Rightarrow> nat option) \<Rightarrow> nat \<Rightarrow> bool" where
  "view_inv B H S n \<longleftrightarrow>
     (\<forall>i a. B i = Some a \<longrightarrow> (\<exists>r. H a = Some r \<and> sr_id r = i \<and> S (sr_local r) = Some a)) \<and>
     (\<forall>p a. S p = Some a \<longrightarrow> (\<exists>r. H a = Some r \<and> sr_local r = p \<and> B (sr_id r) = Some a)) \<and>
     (\<forall>a \<ge> n. H a = None)"

definition shadow_inv :: "shadow_state \<Rightarrow> bool" where
  "shadow_inv st \<longleftrightarrow> view_inv (buffers_by_id st) (sh_heap st) (shadow_of st) (sh_next st)"

lemma view_inv_insert:
  assumes "view_inv B H S n" "B i = None" "S l = None"
  shows "view_inv (B(i \<mapsto> n)) (H(n \<mapsto> \<lparr>sr_size = sz, sr_deallocator = d, sr_id = i, sr_local = l\<rparr>)) (S(l \<mapsto> n)) (n + 1)"
proof -
  have n: "B j \<noteq> Some n" "S p \<noteq> Some n" for j p
    using assms(1) unfolding view_inv_def by (metis le_refl option.distinct(1))+
  have 1: "\<exists>r. H a = Some r \<and> sr_id r = j \<and> S (sr_local r) = Some a" if "B j = Some a" for j a
    using assms(1) that unfolding view_inv_def by blast
  have 2: "\<exists>r. H a = Some r \<and> sr_local r = p \<and> B (sr_id r) = Some a" if "S p = Some a" for p a
    using assms(1) that unfolding view_inv_def by blast
  have 3: "H a = None" if "n \<le> a" for a using assms(1) that unfolding view_inv_def by blast
  show ?thesis unfolding view_inv_def
  proof (intro conjI allI impI)
    fix j a assume "(B(i \<mapsto> n)) j = Some a"
    then show "\<exists>r. (H(n \<mapsto> \<lparr>sr_size = sz, sr_deallocator = d, sr_id = i, sr_local = l\<rparr>)) a = Some r \<and> sr_id r = j \<and>
        (S(l \<mapsto> n)) (sr_local r) = Some a"
      using 1 [of j a] n(1) [of j] assms(2,3) by (cases "j = i") force+
  next
    fix p a assume "(S(l \<mapsto> n)) p = Some a"
    then show "\<exists>r. (H(n \<mapsto> \<lparr>sr_size = sz, sr_deallocator = d, sr_id = i, sr_local = l\<rparr>)) a = Some r \<and> sr_local r = p \<and>
        (B(i \<mapsto> n)) (sr_id r) = Some a"
      using 2 [of p a] n(2) [of p] assms(2,3) by (cases "p = l") force+
  qed (use 3 in simp)
qed

lemma view_inv_remove:
  assumes "view_inv B H S n" "S l = Some a" "H a = Some r"
  shows "view_inv (B(sr_id r := None)) (H(a := None)) (S(l := None)) n"
proof -
  have 1: "\<exists>r. H a = Some r \<and> sr_id r = j \<and> S (sr_local r) = Some a" if "B j = Some a" for j a
    using assms(1) that unfolding view_inv_def by blast
  have 2: "\<exists>r. H a = Some r \<and> sr_local r = p \<and> B (sr_id r) = Some a" if "S p = Some a" for p a
    using assms(1) that unfolding view_inv_def by blast
  have 3: "H a = None" if "n \<le> a" for a using assms(1) that unfolding view_inv_def by blast
  have lr: "sr_local r = l" "B (sr_id r) = Some a" using 2 [OF assms(2)] assms(3) by auto
  show ?thesis unfolding view_inv_def
  proof (intro conjI allI impI)
    fix j b assume "(B(sr_id r := None)) j = Some b"
    then show "\<exists>r'. (H(a := None)) b = Some r' \<and> sr_id r' = j \<and> (S(l := None)) (sr_local r') = Some b"
      using 1 [of j b] assms(2,3) lr by (force split: if_splits)
  next
    fix p b assume "(S(l := None)) p = Some b"
    then show "\<exists>r'. (H(a := None)) b = Some r' \<and> sr_local r' = p \<and> (B(sr_id r := None)) (sr_id r') = Some b"
      using 2 [of p b] assms(2,3) lr by (force split: if_splits)
  qed (use 3 in simp)
qed

section \<open>Each operation on the view\<close>

lemma sh_metadata_view:
  "sh_metadata p st = (md, st') \<Longrightarrow> shadow_of st' = shadow_of st \<and> buffers_by_id st' = buffers_by_id st \<and>
     sh_heap st' = sh_heap st \<and> sh_next st' = sh_next st \<and> sh_freed st' = sh_freed st \<and> sh_gen st' = sh_gen st \<and>
     sh_allocs st' = sh_allocs st \<and> sh_md st' p = Some md \<and> shadow md = shadow_of st p"
  by (auto simp: sh_metadata_def ava_internal_metadata_def Let_def md_shadow_def md_zero_def fun_eq_iff
      split: option.splits if_splits)

lemma couple_record_view [simp]:
  "shadow_of (couple_record c a st) = shadow_of st" "buffers_by_id (couple_record c a st) = buffers_by_id st"
  "sh_heap (couple_record c a st) = sh_heap st" "sh_next (couple_record c a st) = sh_next st"
  "sh_freed (couple_record c a st) = sh_freed st"
proof -
  obtain md st' where m: "sh_metadata c st = (md, st')" by (cases "sh_metadata c st")
  from sh_metadata_view [OF m]
  show "shadow_of (couple_record c a st) = shadow_of st" "buffers_by_id (couple_record c a st) = buffers_by_id st"
    "sh_heap (couple_record c a st) = sh_heap st" "sh_next (couple_record c a st) = sh_next st"
    "sh_freed (couple_record c a st) = sh_freed st"
    by (auto simp: couple_record_def m Let_def)
qed

lemma new_record_Inr:
  assumes "ava_shadow_buffer_new_record_unlocked i sz l d st = Inr (a, st')"
  shows "a = sh_next st \<and> buffers_by_id st i = None \<and> shadow_of st l = None \<and>
    buffers_by_id st' = (buffers_by_id st)(i \<mapsto> a) \<and>
    sh_heap st' = (sh_heap st)(a \<mapsto> \<lparr>sr_size = sz, sr_deallocator = d, sr_id = i, sr_local = l\<rparr>) \<and>
    shadow_of st' = (shadow_of st)(l \<mapsto> a) \<and> sh_next st' = sh_next st + 1 \<and> sh_freed st' = sh_freed st"
proof -
  obtain md st1 where m: "sh_metadata l st = (md, st1)" by (cases "sh_metadata l st")
  from sh_metadata_view [OF m] assms show ?thesis
    by (auto simp: ava_shadow_buffer_new_record_unlocked_def m Let_def res_simps split: if_splits)
qed

lemma new_record_ok:
  assumes "buffers_by_id st i = None" "shadow_of st l = None"
  shows "\<exists>st'. ava_shadow_buffer_new_record_unlocked i sz l d st = Inr (sh_next st, st')"
proof -
  obtain md st1 where m: "sh_metadata l st = (md, st1)" by (cases "sh_metadata l st")
  from sh_metadata_view [OF m] assms show ?thesis
    by (simp add: ava_shadow_buffer_new_record_unlocked_def m Let_def)
qed

lemma new_record_inv [ava_inv]:
  "shadow_inv st \<Longrightarrow> ava_shadow_buffer_new_record_unlocked i sz l d st = Inr (a, st') \<Longrightarrow> shadow_inv st'"
  using view_inv_insert [of "buffers_by_id st" "sh_heap st" "shadow_of st" "sh_next st" i l sz d]
  by (auto simp: shadow_inv_def dest!: new_record_Inr)

lemma free_unlocked_none: "shadow_of st l = None \<Longrightarrow> ava_shadow_buffer_free_unlocked l st = Inr st"
  by (auto simp: ava_shadow_buffer_free_unlocked_def ava_internal_metadata_no_create_def md_shadow_def
      split: option.splits)

lemma free_unlocked_some:
  assumes inv: "shadow_inv st" and l: "shadow_of st l = Some a" and r: "sh_heap st a = Some r"
  shows "if sr_deallocator r = null_ptr
    then ava_shadow_buffer_free_unlocked l st = Inl (AssertFail ''solid buffer is not supposed to be deallocated by AvA'')
    else \<exists>st'. ava_shadow_buffer_free_unlocked l st = Inr st' \<and> buffers_by_id st' = (buffers_by_id st)(sr_id r := None) \<and>
      sh_heap st' = (sh_heap st)(a := None) \<and> shadow_of st' = (shadow_of st)(l := None) \<and> sh_next st' = sh_next st \<and>
      sh_freed st' = sh_freed st @ [(sr_deallocator r, sr_local r)] \<and> sh_allocs st' = sh_allocs st"
proof -
  from l obtain md where md: "sh_md st l = Some md" "shadow md = Some a" by (auto simp: md_shadow_def split: option.splits)
  have b: "buffers_by_id st (sr_id r) = Some a"
  proof -
    from inv l obtain r' where "sh_heap st a = Some r'" "buffers_by_id st (sr_id r') = Some a"
      unfolding shadow_inv_def view_inv_def by blast
    with r show ?thesis by simp
  qed
  show ?thesis
    using md b r
    by (auto simp: ava_shadow_buffer_free_unlocked_def ava_internal_metadata_no_create_def
        ava_shadow_buffer_free_record_unlocked_def sh_load_def remove_by_id_def)
qed

lemma free_unlocked_inv [ava_inv]:
  assumes inv: "shadow_inv st" and f: "ava_shadow_buffer_free_unlocked l st = Inr st'"
  shows "shadow_inv st'"
proof (cases "shadow_of st l")
  case None
  with inv f show ?thesis by (simp add: free_unlocked_none)
next
  case (Some a)
  with inv obtain r where r: "sh_heap st a = Some r" unfolding shadow_inv_def view_inv_def by blast
  from view_inv_remove [OF inv [unfolded shadow_inv_def] Some r] free_unlocked_some [OF inv Some r] f
  show ?thesis by (auto simp: shadow_inv_def split: if_splits)
qed

lemma create_shadow_inv [ava_inv]:
  "shadow_inv st \<Longrightarrow> create_shadow al i sz lt c d st = Inr (l, st') \<Longrightarrow> shadow_inv st'"
proof -
  assume inv: "shadow_inv st" and r: "create_shadow al i sz lt c d st = Inr (l, st')"
  let ?st = "st\<lparr>sh_allocs := sh_allocs st + 1\<rparr>"
  have "shadow_inv ?st" using inv by (simp add: shadow_inv_def)
  moreover from r obtain a st1 where "ava_shadow_buffer_new_record_unlocked i sz l d ?st = Inr (a, st1)"
    "st' = st1 \<or> (\<exists>c. st' = couple_record c a st1)"
    by (auto simp: create_shadow_def Let_def res_simps split: if_splits)
  ultimately show ?thesis using new_record_inv [of ?st i sz l d a st1] by (auto simp: shadow_inv_def)
qed






section \<open>Runs\<close>

datatype shadow_op =
    NewShadow pointer u64 ava_lifetime pointer
  | NewSolid pointer u64 ava_lifetime
  | GetShadow pointer u64 ava_lifetime pointer
  | FreeShadow pointer
  | FreeCoupled pointer

fun shadow_step :: "allocator \<Rightarrow> pointer \<Rightarrow> shadow_op \<Rightarrow> shadow_state \<Rightarrow> shadow_state res" where
  "shadow_step al d (NewShadow i sz lt c) st =
     rbind (ava_shadow_buffer_new_shadow_unlocked shadow_fuel i sz lt c (Some al) d st) (\<lambda>(l, st). Inr st)"
| "shadow_step al d (NewSolid l sz lt) st = ava_shadow_buffer_new_solid_unlocked l sz lt null_ptr st"
| "shadow_step al d (GetShadow i sz lt c) st =
     rbind (ava_shadow_buffer_get_unlocked shadow_fuel i sz lt c (Some al) d st) (\<lambda>(l, st). Inr st)"
| "shadow_step al d (FreeShadow l) st = ava_shadow_buffer_free_unlocked l st"
| "shadow_step al d (FreeCoupled obj) st = ava_shadow_buffer_free_coupled_unlocked obj st"

fun shadow_run :: "allocator \<Rightarrow> pointer \<Rightarrow> shadow_op list \<Rightarrow> shadow_state \<Rightarrow> shadow_state res" where
  "shadow_run al d [] st = Inr st"
| "shadow_run al d (x # xs) st = rbind (shadow_step al d x st) (shadow_run al d xs)"

definition shadow_init :: "id_gen \<Rightarrow> shadow_state" where
  "shadow_init g = \<lparr>buffers_by_id = Map.empty, sh_heap = Map.empty, sh_next = 0, sh_md = Map.empty,
     sh_gen = g, sh_allocs = 0, sh_freed = []\<rparr>"



lemma shadow_init_inv: "shadow_inv (shadow_init g)"
  by (simp add: shadow_inv_def shadow_init_def view_inv_def md_shadow_def)

section \<open>Creating and growing\<close>

lemma create_shadow_ok:
  assumes "buffers_by_id st i = None" "shadow_of st (al (sh_allocs st) sz) = None"
  shows "\<exists>a r st'. create_shadow al i sz lt c d st = Inr (al (sh_allocs st) sz, st') \<and> buffers_by_id st' i = Some a \<and>
    sh_heap st' a = Some r \<and> sr_size r = sz \<and> sr_deallocator r = d \<and> sr_local r = al (sh_allocs st) sz \<and>
    sh_freed st' = sh_freed st"
proof -
  let ?st = "st\<lparr>sh_allocs := sh_allocs st + 1\<rparr>" and ?l = "al (sh_allocs st) sz"
  from new_record_ok [of ?st i ?l sz d] assms obtain st1 where
    n: "ava_shadow_buffer_new_record_unlocked i sz ?l d ?st = Inr (sh_next ?st, st1)" by auto
  from new_record_Inr [OF n] show ?thesis by (auto simp: create_shadow_def n [simplified] Let_def)
qed

lemma new_shadow_fresh:
  assumes "buffers_by_id st i = None" "shadow_of st (al (sh_allocs st) sz) = None" "lt \<noteq> AVA_CALL" "i \<noteq> null_ptr" "d \<noteq> null_ptr"
  shows "ava_shadow_buffer_new_shadow_unlocked (Suc n) i sz lt c (Some al) d st = create_shadow al i sz lt c d st"
  using assms by simp

lemma get_enough:
  assumes "shadow_inv st" "buffers_by_id st i = Some a" "sh_heap st a = Some r" "sz \<le> sr_size r \<or> sr_deallocator r = null_ptr"
    "lt \<noteq> AVA_CALL" "i \<noteq> null_ptr"
  shows "ava_shadow_buffer_get_unlocked (Suc n) i sz lt c al d st = Inr (sr_local r, st)"
proof -
  have "sr_id r = i" using assms(1,2,3) unfolding shadow_inv_def view_inv_def by force
  with assms show ?thesis by (auto simp: sh_load_def)
qed

lemma get_grow:
  assumes inv: "shadow_inv st" and b: "buffers_by_id st i = Some a" and h: "sh_heap st a = Some r"
    and g: "sr_size r < sz" "sr_deallocator r \<noteq> null_ptr" and a: "lt \<noteq> AVA_CALL" "i \<noteq> null_ptr" "d \<noteq> null_ptr"
    and f: "shadow_of st (al (sh_allocs st) sz) = None"
  shows "\<exists>st1. ava_shadow_buffer_get_unlocked (Suc (Suc n)) i sz lt c (Some al) d st = create_shadow al i sz lt c d st1 \<and>
    buffers_by_id st1 i = None \<and> shadow_of st1 (al (sh_allocs st1) sz) = None \<and> sh_allocs st1 = sh_allocs st \<and>
    sh_freed st1 = sh_freed st @ [(sr_deallocator r, sr_local r)] \<and> shadow_inv st1"
proof -
  from inv b h have i: "sr_id r = i" "shadow_of st (sr_local r) = Some a"
    unfolding shadow_inv_def view_inv_def by force+
  from free_unlocked_some [OF inv i(2) h] g(2) obtain st1 where
    s: "ava_shadow_buffer_free_unlocked (sr_local r) st = Inr st1" "buffers_by_id st1 = (buffers_by_id st)(i := None)"
       "shadow_of st1 = (shadow_of st)(sr_local r := None)" "sh_allocs st1 = sh_allocs st"
       "sh_freed st1 = sh_freed st @ [(sr_deallocator r, sr_local r)]" by (auto simp: i)
  have "ava_shadow_buffer_get_unlocked (Suc (Suc n)) i sz lt c (Some al) d st =
      ava_shadow_buffer_new_shadow_unlocked (Suc n) i sz lt c (Some al) d st1"
    using b h i g a s(1) by (simp add: sh_load_def del: ava_shadow_buffer_new_shadow_unlocked.simps)
  also have "\<dots> = create_shadow al i sz lt c d st1"
    using s f a by (intro new_shadow_fresh) auto
  finally show ?thesis using s f free_unlocked_inv [OF inv s(1)] by auto
qed

lemma new_or_grow:
  assumes inv: "shadow_inv st" and lt: "lt \<noteq> AVA_CALL" and i: "i \<noteq> null_ptr" and d: "d \<noteq> null_ptr"
    and f: "shadow_of st (al (sh_allocs st) sz) = None"
  shows "\<exists>l st' a r. ava_shadow_buffer_new_shadow_unlocked (3 + n) i sz lt c (Some al) d st = Inr (l, st') \<and> shadow_inv st' \<and>
    buffers_by_id st' i = Some a \<and> sh_heap st' a = Some r \<and> sr_local r = l \<and> (sz \<le> sr_size r \<or> sr_deallocator r = null_ptr) \<and>
    sh_freed st' = sh_freed st @
      (case buffers_by_id st i of None \<Rightarrow> []
       | Some b \<Rightarrow> (case sh_heap st b of None \<Rightarrow> []
                   | Some q \<Rightarrow> if sr_size q < sz \<and> sr_deallocator q \<noteq> null_ptr then [(sr_deallocator q, sr_local q)] else [])) \<and>
    ava_shadow_buffer_new_shadow_unlocked (3 + n) i sz lt c (Some al) d st' = Inr (l, st')"
proof -
  have again: "ava_shadow_buffer_new_shadow_unlocked (3 + n) i sz lt c (Some al) d st' = Inr (sr_local r, st')"
    if "shadow_inv st'" "buffers_by_id st' i = Some a" "sh_heap st' a = Some r" "sz \<le> sr_size r \<or> sr_deallocator r = null_ptr" for st' a r
    using get_enough [OF that lt i, of "Suc n" c "Some al" d] that(2) lt i d
    by (simp add: numeral_3_eq_3 del: ava_shadow_buffer_get_unlocked.simps)
  show ?thesis
  proof (cases "buffers_by_id st i")
    case None
    from create_shadow_ok [of st i al sz lt c d] None f obtain a r st' where
      cr: "create_shadow al i sz lt c d st = Inr (al (sh_allocs st) sz, st')" "buffers_by_id st' i = Some a"
        "sh_heap st' a = Some r" "sr_size r = sz" "sr_local r = al (sh_allocs st) sz" "sh_freed st' = sh_freed st" by blast
    have "ava_shadow_buffer_new_shadow_unlocked (3 + n) i sz lt c (Some al) d st = Inr (al (sh_allocs st) sz, st')"
      using new_shadow_fresh [of st i al sz lt d "Suc (Suc n)" c] None f lt i d cr(1) by (simp add: numeral_3_eq_3)
    with create_shadow_inv [OF inv cr(1)] cr None again [of st' a r] show ?thesis by auto
  next
    case (Some b)
    with inv obtain q where q: "sh_heap st b = Some q" unfolding shadow_inv_def view_inv_def by blast
    show ?thesis
    proof (cases "sr_size q < sz \<and> sr_deallocator q \<noteq> null_ptr")
      case True
      from get_grow [of st i b q sz lt d al n c] inv Some q True lt i d f obtain st1 where
        g: "ava_shadow_buffer_get_unlocked (Suc (Suc n)) i sz lt c (Some al) d st = create_shadow al i sz lt c d st1"
        "buffers_by_id st1 i = None" "shadow_of st1 (al (sh_allocs st1) sz) = None"
        "sh_freed st1 = sh_freed st @ [(sr_deallocator q, sr_local q)]" "shadow_inv st1" by blast
      from create_shadow_ok [of st1 i al sz lt c d] g(2,3) obtain a r st' where
        cr: "create_shadow al i sz lt c d st1 = Inr (al (sh_allocs st1) sz, st')" "buffers_by_id st' i = Some a"
        "sh_heap st' a = Some r" "sr_size r = sz" "sr_local r = al (sh_allocs st1) sz" "sh_freed st' = sh_freed st1" by blast
      have "ava_shadow_buffer_new_shadow_unlocked (3 + n) i sz lt c (Some al) d st = Inr (al (sh_allocs st1) sz, st')"
        using g(1) cr(1) Some lt i d by (simp add: numeral_3_eq_3 del: ava_shadow_buffer_get_unlocked.simps)
      with create_shadow_inv [OF g(5) cr(1)] cr g(4) Some q True again [of st' a r] show ?thesis by auto
    next
      case False
      then have "sz \<le> sr_size q \<or> sr_deallocator q = null_ptr" by auto
      with again [OF inv Some q] inv Some q False show ?thesis by auto
    qed
  qed
qed

section \<open>Properties\<close>


lemmas shadow_eval = shadow_init_def create_shadow_def Let_def ava_shadow_buffer_new_record_unlocked_def
  sh_metadata_def ava_internal_metadata_def md_zero_def sh_load_def ava_shadow_buffer_free_unlocked_def
  ava_internal_metadata_no_create_def ava_shadow_buffer_free_record_unlocked_def remove_by_id_def
  couple_record_def ava_shadow_buffer_free_coupled_unlocked_def




lemma new_solid_ok:
  assumes inv: "shadow_inv st" and l: "l \<noteq> null_ptr" "lt \<noteq> AVA_CALL"
    and new: "buffers_by_id st (fst (next_id (sh_gen st))) = None" and nn: "buffers_by_id st null_ptr = None"
  shows "\<exists>st1 a r. ava_shadow_buffer_new_solid_unlocked l sz lt null_ptr st = Inr st1 \<and> shadow_of st1 l = Some a \<and>
    sh_heap st1 a = Some r \<and> sr_id r \<noteq> null_ptr"
proof -
  obtain md st1 where m: "sh_metadata l st = (md, st1)" by (cases "sh_metadata l st")
  note v = sh_metadata_view [OF m]
  show ?thesis
  proof (cases "shadow_of st l")
    case None
    let ?st = "st1\<lparr>sh_gen := snd (next_id (sh_gen st1))\<rparr>" and ?i = "fst (next_id (sh_gen st1))"
    from new_record_ok [of ?st ?i l sz null_ptr] v None new obtain st2 where
      n: "ava_shadow_buffer_new_record_unlocked ?i sz l null_ptr ?st = Inr (sh_next ?st, st2)" by auto
    from new_record_Inr [OF n] next_id_nonzero [of "sh_gen st1"] v None l n show ?thesis
      by (auto simp: ava_shadow_buffer_new_solid_unlocked_def m case_prod_beta)
  next
    case (Some a)
    with inv obtain r where r: "sh_heap st a = Some r" "buffers_by_id st (sr_id r) = Some a"
      unfolding shadow_inv_def view_inv_def by blast
    then have "sr_id r \<noteq> null_ptr" using nn by auto
    with r v Some l show ?thesis
      by (auto simp: ava_shadow_buffer_new_solid_unlocked_def m)
  qed
qed

lemma header_fields:
  assumes "length pad = 7"
  shows "header_id (enc_header pad i h sz) = i" "header_size (enc_header pad i h sz) = sz" "length (enc_header pad i h sz) = 24"
  using assms by (simp_all add: header_id_def header_size_def enc_header_def get_u64_def slice_at_def)

text \<open>Attaching header and data to a socket command puts them next to each other.\<close>

lemma attach_header_data:
  assumes ok: "sock_ok cmd" and sz: "24 + length data \<le> sock_room cmd" and d: "data \<noteq> []" and h: "length hdr = 24"
  shows "\<exists>cmd1 cmd2. command_channel_socket_attach_buffer cmd (Some hdr) = Inr (seek_cur cmd, cmd1) \<and>
    command_channel_socket_attach_buffer cmd1 (Some data) = Inr (seek_cur cmd + 24, cmd2) \<and>
    command_channel_socket_get_buffer cmd2 (seek_cur cmd) 24 = Inr hdr \<and>
    command_channel_socket_get_buffer cmd2 (seek_cur cmd + 24) (length data) = Inr data"
proof -
  have ne: "hdr \<noteq> []" using h by auto
  have r1: "length hdr \<le> sock_room cmd" using sz h by simp
  note s1 = sock_attach_step [OF ok ne r1]
  from sock.attach_ok [OF ok ne r1] s1(1) obtain cmd1 where
    a: "command_channel_socket_attach_buffer cmd (Some hdr) = Inr (seek_cur cmd, cmd1)" "sock_ok cmd1"
      "sock_room cmd1 = sock_room cmd - 24" "sock_live cmd1 (seek_cur cmd) 24"
      "command_channel_socket_get_buffer cmd1 (seek_cur cmd) 24 = Inr hdr" using h by auto
  have c1: "seek_cur cmd1 = seek_cur cmd + 24" using s1(1,2) a(1) h by auto
  have r2: "length data \<le> sock_room cmd1" using a(3) sz by simp
  from sock.attach_ok [OF a(2) d r2] sock_attach_step(1) [OF a(2) d r2] obtain cmd2 where
    b: "command_channel_socket_attach_buffer cmd1 (Some data) = Inr (seek_cur cmd1, cmd2)"
      "command_channel_socket_get_buffer cmd2 (seek_cur cmd1) (length data) = Inr data" by auto
  from sock.attach_frame [OF a(2) d r2 b(1) a(4)] a(5) have
    "command_channel_socket_get_buffer cmd2 (seek_cur cmd) 24 = Inr hdr" by simp
  with a(1) b c1 show ?thesis by auto
qed

text \<open>A buffer sent with its header arrives as a shadow buffer of the same identity: the sender registers
  its buffer, header and data are attached side by side, the receiver finds the data under the returned
  identifier, and reading the header gives it a registered shadow buffer under the sender's identifier
  with the size the sender announced.\<close>

theorem shadow_header_roundtrip:
  assumes inv: "shadow_inv st" and l: "local \<noteq> null_ptr" "lt \<noteq> AVA_CALL"
    and new: "buffers_by_id st (fst (next_id (sh_gen st))) = None" "buffers_by_id st null_ptr = None"
    and cmd: "sock_ok cmd" "24 + length data \<le> sock_room cmd" "data \<noteq> []" "length pad = 7"
    and rcv: "shadow_inv rst" "lt' \<noteq> AVA_CALL" "d \<noteq> null_ptr" "\<forall>sz. shadow_of rst (al (sh_allocs rst) sz) = None"
  shows "\<exists>off cmd' st' a r. ava_shadow_buffer_attach_buffer (\<lambda>cmd b. command_channel_socket_attach_buffer cmd (Some b)) cmd pad local data lt st =
      Inr (off, cmd', st') \<and> shadow_of st' local = Some a \<and> sh_heap st' a = Some r \<and>
    command_channel_socket_get_buffer cmd' off (length data) = Inr data \<and>
    (\<exists>p rst' b q. ava_shadow_buffer_get_buffer (command_channel_socket_get_buffer cmd') off lt' c (Some al) d rst =
        Inr (p, of_nat (length data), rst') \<and>
      buffers_by_id rst' (sr_id r) = Some b \<and> sh_heap rst' b = Some q \<and> sr_local q = p)"
proof -
  from new_solid_ok [OF inv l new, of "of_nat (length data)"] obtain st1 a r where
    s: "ava_shadow_buffer_new_solid_unlocked local (of_nat (length data)) lt null_ptr st = Inr st1"
      "shadow_of st1 local = Some a" "sh_heap st1 a = Some r" "sr_id r \<noteq> null_ptr" by blast
  obtain md st2 where m: "sh_metadata local st1 = (md, st2)" by (cases "sh_metadata local st1")
  note v = sh_metadata_view [OF m]
  let ?hd = "enc_header pad (sr_id r) 1 (of_nat (length data))"
  from attach_header_data [OF cmd(1-3) header_fields(3) [OF cmd(4)], of "sr_id r" 1 "of_nat (length data)"] obtain cmd1 cmd2 where
    c: "command_channel_socket_attach_buffer cmd (Some ?hd) = Inr (seek_cur cmd, cmd1)"
      "command_channel_socket_attach_buffer cmd1 (Some data) = Inr (seek_cur cmd + 24, cmd2)"
      "command_channel_socket_get_buffer cmd2 (seek_cur cmd) 24 = Inr ?hd"
      "command_channel_socket_get_buffer cmd2 (seek_cur cmd + 24) (length data) = Inr data" by blast
  from new_or_grow [OF rcv(1,2) s(4) rcv(3), of al "of_nat (length data)" 1 c] rcv(4)
  obtain p rst' b q where
    g: "ava_shadow_buffer_new_shadow_unlocked shadow_fuel (sr_id r) (of_nat (length data)) lt' c (Some al) d rst = Inr (p, rst')"
      "buffers_by_id rst' (sr_id r) = Some b" "sh_heap rst' b = Some q" "sr_local q = p"
    by (auto simp: shadow_fuel_def numeral_3_eq_3 simp del: ava_shadow_buffer_new_shadow_unlocked.simps)
  have "ava_shadow_buffer_attach_buffer (\<lambda>cmd b. command_channel_socket_attach_buffer cmd (Some b)) cmd pad local data lt st =
      Inr (seek_cur cmd + 24, cmd2, st2)"
    using s v c by (simp add: ava_shadow_buffer_attach_buffer_def m sh_load_def)
  moreover have "ava_shadow_buffer_get_buffer (command_channel_socket_get_buffer cmd2) (seek_cur cmd + 24) lt' c (Some al) d rst =
      Inr (p, of_nat (length data), rst')"
    using rcv(2) c(3) g(1) by (simp add: ava_shadow_buffer_get_buffer_def header_fields [OF cmd(4)])
  ultimately show ?thesis using s v c(4) g by auto
qed

theorem shadow_header_roundtrip_witness:
  "\<exists>cmd off cmd' st' p rst'.
     command_channel_socket_new_command (\<lambda>n. replicate n 9) \<lparr>sock_vm_id = 1, sock_out = [], sock_in = []\<rparr> 136 64 = Inr cmd \<and>
     ava_shadow_buffer_attach_buffer (\<lambda>cmd b. command_channel_socket_attach_buffer cmd (Some b)) cmd (replicate 7 0) 0x500 [1, 2]
       AVA_STATIC (shadow_init id_gen_init) = Inr (off, cmd', st') \<and>
     command_channel_socket_get_buffer cmd' off (length [1, 2 :: u8]) = Inr [1, 2] \<and>
     ava_shadow_buffer_get_buffer (command_channel_socket_get_buffer cmd') off AVA_STATIC 0 (Some (\<lambda>n _. 0x1000 + of_nat n)) 9
       (shadow_init id_gen_init) = Inr (p, 2, rst')"
proof -
  have "malloc_ok (\<lambda>n. replicate n 9)" by (simp add: malloc_ok_def)
  from sock_new_ok [OF this, of 136 64 "\<lparr>sock_vm_id = 1, sock_out = [], sock_in = []\<rparr>"] obtain cmd where
    c: "command_channel_socket_new_command (\<lambda>n. replicate n 9) \<lparr>sock_vm_id = 1, sock_out = [], sock_in = []\<rparr> 136 64 = Inr cmd"
      "sock_ok cmd" "sock_room cmd = 64" by auto
  have n: "buffers_by_id (shadow_init id_gen_init) x = None" "shadow_of (shadow_init id_gen_init) x = None" for x
    by (simp_all add: shadow_init_def md_shadow_def)
  from shadow_header_roundtrip [where st = "shadow_init id_gen_init" and rst = "shadow_init id_gen_init" and local = "0x500"
      and lt = AVA_STATIC and lt' = AVA_STATIC and cmd = cmd and data = "[1, 2]" and pad = "replicate 7 0" and d = 9
      and al = "\<lambda>n _. 0x1000 + of_nat n" and c = 0]
  show ?thesis using c n shadow_init_inv by simp blast
qed

text \<open>A shadow buffer coupled to an object leaves a dangling record when it grows: the object's list still
  points to the released record, so releasing the object's buffers reads freed memory.\<close>

theorem shadow_growth_leaves_dangling_record:
  assumes "i \<noteq> null_ptr" "c \<noteq> null_ptr" "d \<noteq> null_ptr" "s1 < s2" "al 0 s1 \<noteq> al 1 s2" "c \<noteq> al 0 s1" "c \<noteq> al 1 s2"
  shows "shadow_run al d [NewShadow i s1 AVA_COUPLED c, NewShadow i s2 AVA_COUPLED c, FreeCoupled c] (shadow_init g) =
    Inl UseAfterFree"
  using assms by (simp add: shadow_eval shadow_fuel_def)

theorem shadow_growth_leaves_dangling_record_witness:
  "shadow_run (\<lambda>n _. 0x1000 + of_nat n) 9 [NewShadow 77 8 AVA_COUPLED 5, NewShadow 77 16 AVA_COUPLED 5, FreeCoupled 5]
     (shadow_init id_gen_init) = Inl UseAfterFree"
  by (rule shadow_growth_leaves_dangling_record) simp_all

end
