(* ===== verification/Object_Extraction.thy ===== *)
theory Object_Extraction
  imports Endpoint Socket_Channel
begin

text \<open>
  Migration support (\<open>common/endpoint_lib.c\<close>, \<open>ava_extract_objects\<close> and \<open>ava_extract_objects_in_pair\<close>):
  collect the objects that the given roots depend on together with their recorded calls, sort the calls
  by their position in the log, forward each once, and then send the explicit state of the objects. The
  output channel is a vtable, as in \<open>include/cmd_channel_impl.h\<close>. GLib's sort, its hash table iteration
  order and the extract functions of the API are parameters.
\<close>

section \<open>Channels as vtables\<close>

record 'c chan_ops =
  co_buffer_size :: "u64 \<Rightarrow> u64"
  co_new :: "'c \<Rightarrow> u64 \<Rightarrow> u64 \<Rightarrow> (bytes \<times> 'c) res"
  co_attach :: "'c \<Rightarrow> bytes \<Rightarrow> bytes option \<Rightarrow> (u64 \<times> bytes \<times> 'c) res"
  co_send :: "'c \<Rightarrow> bytes \<Rightarrow> 'c res"
  co_transfer :: "'c \<Rightarrow> bytes \<Rightarrow> bytes \<Rightarrow> 'c res"

definition socket_ops :: "(nat \<Rightarrow> bytes) \<Rightarrow> os_io \<Rightarrow> command_channel_socket chan_ops" where
  "socket_ops mal os =
     \<lparr>co_buffer_size = (\<lambda>n. n),
      co_new = (\<lambda>c ss ds. rbind (command_channel_socket_new_command mal c ss ds) (\<lambda>cmd. Inr (cmd, c))),
      co_attach = (\<lambda>c cmd b. rbind (command_channel_socket_attach_buffer cmd b) (\<lambda>(off, cmd). Inr (off, cmd, c))),
      co_send = command_channel_socket_send_command os,
      co_transfer = command_channel_socket_transfer_command os\<rparr>"

definition log_ops :: "os_write \<Rightarrow> command_channel_log chan_ops" where
  "log_ops w =
     \<lparr>co_buffer_size = command_channel_log_buffer_size,
      co_new = command_channel_log_new_command w,
      co_attach = (\<lambda>c cmd b. case b of None \<Rightarrow> Inl NullDeref
         | Some bs \<Rightarrow> rbind (command_channel_log_attach_buffer w c cmd bs) (\<lambda>(off, c). Inr (off, cmd, c))),
      co_send = command_channel_log_send_command w,
      co_transfer = (\<lambda>c cmd region. rbind (command_channel_log_transfer_command w c cmd region) (\<lambda>(pos, c). Inr c))\<rparr>"

section \<open>Collecting dependencies\<close>

type_synonym extraction = "pointer set \<times> (u64 \<times> u64) list"

definition calls_of :: "metadata_map \<Rightarrow> pointer \<Rightarrow> (u64 \<times> u64) list" where
  "calls_of mm x = (case mm x of None \<Rightarrow> [] | Some md \<Rightarrow> (case recorded_calls md of None \<Rightarrow> [] | Some cs \<Rightarrow> cs))"

definition deps_of :: "metadata_map \<Rightarrow> pointer \<Rightarrow> pointer list" where
  "deps_of mm x = (case mm x of None \<Rightarrow> [] | Some md \<Rightarrow> (case dependencies md of None \<Rightarrow> [] | Some ds \<Rightarrow> ds))"

text \<open>\<open>extract_traverse\<close> is the recursive traversal, \<open>extract_foreach\<close> its calls on a list of objects. The first
  argument bounds the depth of the recursion.\<close>

fun extract_traverse :: "nat \<Rightarrow> metadata_map \<Rightarrow> pointer \<Rightarrow> extraction \<Rightarrow> extraction res"
  and extract_foreach :: "nat \<Rightarrow> metadata_map \<Rightarrow> pointer list \<Rightarrow> extraction \<Rightarrow> extraction res"
where
  "extract_traverse 0 mm root st = Inl OutOfFuel"
| "extract_traverse (Suc n) mm root (deps, pairs) =
     (if root \<in> deps then Inr (deps, pairs)
      else case mm root of
        None \<Rightarrow> Inr (insert root deps, pairs)
      | Some md \<Rightarrow>
          extract_foreach n mm (case dependencies md of None \<Rightarrow> [] | Some ds \<Rightarrow> ds)
            (insert root deps, pairs @ (case recorded_calls md of None \<Rightarrow> [] | Some cs \<Rightarrow> cs)))"
| "extract_foreach n mm [] st = Inr st"
| "extract_foreach n mm (d # ds) st = rbind (extract_traverse n mm d st) (extract_foreach n mm ds)"

section \<open>Forwarding recorded calls\<close>

definition order_by_a :: "u64 \<times> u64 \<Rightarrow> u64 \<times> u64 \<Rightarrow> int" where
  "order_by_a x y = (if fst x < fst y then - 1 else if fst x > fst y then 1 else 0)"

text \<open>\<open>flags\<close> is only set by a load that could read the metadata.\<close>

definition transfer_command ::
  "'c chan_ops \<Rightarrow> 'c \<Rightarrow> command_channel_log \<Rightarrow> u64 \<Rightarrow> ('c \<times> command_channel_log) res" where
  "transfer_command ops out lg offset =
     (case command_channel_log_load_command lg offset of
        (_, None, lg) \<Rightarrow> Inl Uninitialised
      | (msg, Some flags, lg) \<Rightarrow>
          if flags \<noteq> 1
          then (case msg of
                  None \<Rightarrow> Inl NullDeref
                | Some m \<Rightarrow> rbind (co_transfer ops out m (drop (unat (command_size (base_of m))) m)) (\<lambda>out. Inr (out, lg)))
          else Inr (out, lg))"

fun transfer_loop ::
  "'c chan_ops \<Rightarrow> u64 \<Rightarrow> (u64 \<times> u64) list \<Rightarrow> 'c \<times> command_channel_log \<Rightarrow> ('c \<times> command_channel_log) res" where
  "transfer_loop ops prev [] s = Inr s"
| "transfer_loop ops prev ((a, b) # ps) (out, lg) =
     (if a \<noteq> prev
      then rbind (transfer_command ops out lg a) (\<lambda>(out, lg).
           rbind (transfer_command ops out lg b) (transfer_loop ops a ps))
      else transfer_loop ops a ps (out, lg))"

text \<open>The commands of the internal API that migration uses, with their fields behind the base structure.\<close>

definition COMMAND_HANDLER_API :: u8 where "COMMAND_HANDLER_API = 0"
definition COMMAND_HANDLER_SHUTDOWN_API :: u64 where "COMMAND_HANDLER_SHUTDOWN_API = 1"
definition COMMAND_HANDLER_REPLACE_EXPLICIT_STATE :: u64 where "COMMAND_HANDLER_REPLACE_EXPLICIT_STATE = 2"
definition COMMAND_HANDLER_THREAD_EXIT :: u64 where "COMMAND_HANDLER_THREAD_EXIT = 3"
definition COMMAND_HANDLER_RECORDED_PAIR :: u64 where "COMMAND_HANDLER_RECORDED_PAIR = 4"
definition COMMAND_START_MIGRATION :: u64 where "COMMAND_START_MIGRATION = 5"
definition COMMAND_START_LIVE_MIGRATION :: u64 where "COMMAND_START_LIVE_MIGRATION = 6"
definition COMMAND_END_MIGRATION :: u64 where "COMMAND_END_MIGRATION = 7"
definition COMMAND_ACCEPT_LIVE_MIGRATION :: u64 where "COMMAND_ACCEPT_LIVE_MIGRATION = 8"
definition COMMAND_END_LIVE_MIGRATION :: u64 where "COMMAND_END_LIVE_MIGRATION = 9"

definition set_internal :: "u64 \<Rightarrow> bytes \<Rightarrow> bytes" where
  "set_internal cid cmd = set_base ((base_of cmd)\<lparr>api_id := COMMAND_HANDLER_API, command_id := cid\<rparr>) cmd"

definition transfer_command_in_pair ::
  "'c chan_ops \<Rightarrow> 'c \<Rightarrow> command_channel_log \<Rightarrow> u64 \<Rightarrow> u64 \<Rightarrow> ('c \<times> command_channel_log) res" where
  "transfer_command_in_pair ops out lg offset_a offset_b =
     (let (call, fa, lg) = command_channel_log_load_command lg offset_a;
          (ret, fb, lg) = command_channel_log_load_command lg offset_b
      in case (fa, fb) of
           (Some fa, Some fb) \<Rightarrow>
             if fa \<noteq> 1 \<and> fb \<noteq> 1
             then (case (call, ret) of
                     (Some call, Some ret) \<Rightarrow>
                       let nc = command_size (base_of call) + region_size (base_of call);
                           nr = command_size (base_of ret) + region_size (base_of ret)
                       in rbind (co_new ops out 152 (co_buffer_size ops nc + co_buffer_size ops nr)) (\<lambda>(cmd, out).
                          let cmd = set_internal COMMAND_HANDLER_RECORDED_PAIR cmd
                          in rbind (mem_read 0 (unat nc) call) (\<lambda>cb.
                             rbind (co_attach ops out cmd (Some cb)) (\<lambda>(ca, cmd, out).
                             let cmd = put_u64 136 ca cmd
                             in rbind (mem_read 0 (unat nr) ret) (\<lambda>rb.
                                rbind (co_attach ops out cmd (Some rb)) (\<lambda>(ra, cmd, out).
                                let cmd = put_u64 144 ra cmd
                                in rbind (co_send ops out cmd) (\<lambda>out. Inr (out, lg)))))))
                   | _ \<Rightarrow> Inl NullDeref)
             else Inr (out, lg)
         | (Some fa, None) \<Rightarrow> if fa \<noteq> 1 then Inl Uninitialised else Inr (out, lg)
         | (None, _) \<Rightarrow> Inl Uninitialised)"

fun transfer_loop_in_pair ::
  "'c chan_ops \<Rightarrow> u64 \<Rightarrow> (u64 \<times> u64) list \<Rightarrow> 'c \<times> command_channel_log \<Rightarrow> ('c \<times> command_channel_log) res" where
  "transfer_loop_in_pair ops prev [] s = Inr s"
| "transfer_loop_in_pair ops prev ((a, b) # ps) (out, lg) =
     (if a \<noteq> prev
      then rbind (transfer_command_in_pair ops out lg a b) (transfer_loop_in_pair ops a ps)
      else transfer_loop_in_pair ops a ps (out, lg))"

section \<open>Explicit state\<close>

text \<open>\<open>ext f obj\<close> is what the extract function \<open>f\<close> produces for an object, \<open>None\<close> if it leaves the length unset.\<close>

definition extract_explicit ::
  "'c chan_ops \<Rightarrow> (pointer \<Rightarrow> pointer \<Rightarrow> bytes option) \<Rightarrow> metadata_map \<Rightarrow> pointer \<Rightarrow>
   pool_ref \<times> id_gen \<times> 'c \<Rightarrow> (pool_ref \<times> id_gen \<times> 'c) res" where
  "extract_explicit ops ext mm obj s =
     (case mm obj of
        None \<Rightarrow> Inr s
      | Some md \<Rightarrow>
          if md_extract md = null_ptr then Inr s
          else let (pool, g, out) = s
               in rbind (nw_handle_pool_lookup_or_insert pool obj g) (\<lambda>(i, pool, g).
                  case ext (md_extract md) obj of
                    None \<Rightarrow> Inl (AssertFail ''len != -1'')
                  | Some data \<Rightarrow>
                      let len = of_nat (length data)
                      in rbind (co_new ops out 160 (co_buffer_size ops len)) (\<lambda>(cmd, out).
                         let cmd = put_u64 152 len (put_u64 136 i (set_internal COMMAND_HANDLER_REPLACE_EXPLICIT_STATE cmd))
                         in rbind (co_attach ops out cmd (Some data)) (\<lambda>(da, cmd, out).
                            rbind (co_send ops out (put_u64 144 da cmd)) (\<lambda>out. Inr (pool, g, out))))))"

fun explicit_loop ::
  "'c chan_ops \<Rightarrow> (pointer \<Rightarrow> pointer \<Rightarrow> bytes option) \<Rightarrow> metadata_map \<Rightarrow> pointer list \<Rightarrow>
   pool_ref \<times> id_gen \<times> 'c \<Rightarrow> (pool_ref \<times> id_gen \<times> 'c) res" where
  "explicit_loop ops ext mm [] s = Inr s"
| "explicit_loop ops ext mm (x # xs) s = rbind (extract_explicit ops ext mm x s) (explicit_loop ops ext mm xs)"

section \<open>The whole extraction\<close>

text \<open>\<open>gsort\<close> is \<open>g_ptr_array_sort\<close> with \<open>order_by_a\<close>, \<open>keys\<close> the order in which \<open>g_hash_table_foreach\<close> visits the
  set of dependencies.\<close>

definition collect :: "nat \<Rightarrow> metadata_map \<Rightarrow> pointer list \<Rightarrow> extraction res" where
  "collect n mm to_extract =
     rbind (extract_traverse n mm null_ptr ({}, [])) (extract_foreach n mm to_extract)"

definition ava_extract_objects ::
  "'c chan_ops \<Rightarrow> ((u64 \<times> u64) list \<Rightarrow> (u64 \<times> u64) list) \<Rightarrow> (pointer set \<Rightarrow> pointer list) \<Rightarrow>
   (pointer \<Rightarrow> pointer \<Rightarrow> bytes option) \<Rightarrow> nat \<Rightarrow> metadata_map \<Rightarrow> pointer list \<Rightarrow>
   pool_ref \<times> id_gen \<times> 'c \<times> command_channel_log \<Rightarrow> (pool_ref \<times> id_gen \<times> 'c \<times> command_channel_log) res" where
  "ava_extract_objects ops gsort keys ext n mm to_extract s =
     (let (pool, g, out, lg) = s
      in rbind (collect n mm to_extract) (\<lambda>(deps, pairs).
         rbind (transfer_loop ops (- 1) (gsort pairs) (out, lg)) (\<lambda>(out, lg).
         rbind (explicit_loop ops ext mm (keys deps) (pool, g, out)) (\<lambda>(pool, g, out).
         Inr (pool, g, out, lg)))))"

definition ava_extract_objects_in_pair ::
  "'c chan_ops \<Rightarrow> ((u64 \<times> u64) list \<Rightarrow> (u64 \<times> u64) list) \<Rightarrow> (pointer set \<Rightarrow> pointer list) \<Rightarrow>
   (pointer \<Rightarrow> pointer \<Rightarrow> bytes option) \<Rightarrow> nat \<Rightarrow> metadata_map \<Rightarrow> pointer list \<Rightarrow>
   pool_ref \<times> id_gen \<times> 'c \<times> command_channel_log \<Rightarrow> (pool_ref \<times> id_gen \<times> 'c \<times> command_channel_log) res" where
  "ava_extract_objects_in_pair ops gsort keys ext n mm to_extract s =
     (let (pool, g, out, lg) = s
      in rbind (collect n mm to_extract) (\<lambda>(deps, pairs).
         rbind (transfer_loop_in_pair ops (- 1) (gsort pairs) (out, lg)) (\<lambda>(out, lg).
         rbind (explicit_loop ops ext mm (keys deps) (pool, g, out)) (\<lambda>(pool, g, out).
         Inr (pool, g, out, lg)))))"

text \<open>The receiving side: the state of an object is replaced by the data of the command. \<open>get\<close> reads the
  buffers of the received command; the result is the call of the replace function.\<close>

definition ava_handle_replace_explicit_state ::
  "(u64 \<Rightarrow> nat \<Rightarrow> bytes res) \<Rightarrow> metadata_map \<Rightarrow> pool_ref \<Rightarrow> bytes \<Rightarrow> (pointer \<times> pointer \<times> bytes) res" where
  "ava_handle_replace_explicit_state get mm pool cmd =
     rbind (c_assert (command_id (base_of cmd) = COMMAND_HANDLER_REPLACE_EXPLICIT_STATE)
       ''cmd->base.command_id == COMMAND_HANDLER_REPLACE_EXPLICIT_STATE'') (\<lambda>_.
     rbind (nw_handle_pool_deref pool (get_u64 136 cmd)) (\<lambda>obj.
     case mm obj of
       None \<Rightarrow> Inl NullDeref
     | Some md \<Rightarrow>
         rbind (c_assert (md_replace md \<noteq> null_ptr) ''metadata->replace'') (\<lambda>_.
         rbind (get (get_u64 144 cmd) (unat (get_u64 152 cmd))) (\<lambda>data.
         Inr (md_replace md, obj, data)))))"

section \<open>What the traversal collects\<close>

definition edge :: "metadata_map \<Rightarrow> pointer \<Rightarrow> pointer \<Rightarrow> bool" where
  "edge mm x y \<longleftrightarrow> y \<in> set (deps_of mm x)"

text \<open>The result of a traversal that starts from the objects \<open>roots\<close> with \<open>V\<close> already visited.\<close>

definition collected :: "metadata_map \<Rightarrow> pointer set \<Rightarrow> pointer set \<Rightarrow> pointer set \<Rightarrow> (u64 \<times> u64) list \<Rightarrow> bool" where
  "collected mm roots V V' P \<longleftrightarrow>
     V \<subseteq> V' \<and> roots \<subseteq> V' \<and> finite (V' - V) \<and> (\<forall>x \<in> V' - V. set (deps_of mm x) \<subseteq> V') \<and>
     (\<forall>y \<in> V' - V. \<exists>r \<in> roots. (edge mm)\<^sup>*\<^sup>* r y) \<and> mset P = (\<Sum>x \<in> V' - V. mset (calls_of mm x))"

lemma collected_visited: "roots \<subseteq> V \<Longrightarrow> collected mm roots V V []"
  by (simp add: collected_def)

lemma collected_trans:
  assumes "collected mm R V V1 P1" "collected mm S V1 V2 P2"
  shows "collected mm (R \<union> S) V V2 (P1 @ P2)"
proof -
  have d: "V2 - V = (V2 - V1) \<union> (V1 - V)" "(V2 - V1) \<inter> (V1 - V) = {}"
    using assms by (auto simp: collected_def)
  have "mset (P1 @ P2) = (\<Sum>x \<in> V2 - V. mset (calls_of mm x))"
    unfolding d(1) using assms d(2) by (subst sum.union_disjoint) (auto simp: collected_def)
  moreover have "finite (V2 - V)" unfolding d(1) using assms by (simp add: collected_def)
  ultimately show ?thesis using assms unfolding collected_def by blast
qed

lemma collected_root:
  assumes "root \<notin> V" "collected mm (set (deps_of mm root)) (insert root V) V' P"
  shows "collected mm {root} V V' (calls_of mm root @ P)"
proof -
  have d: "V' - V = insert root (V' - insert root V)" using assms by (auto simp: collected_def)
  have f: "finite (V' - insert root V)" using assms(2) by (simp add: collected_def)
  have "mset (calls_of mm root @ P) = (\<Sum>x \<in> V' - V. mset (calls_of mm x))"
    unfolding d using assms(2) f by (subst sum.insert) (auto simp: collected_def)
  moreover have "\<exists>r \<in> {root}. (edge mm)\<^sup>*\<^sup>* r y" if "y \<in> V' - V" for y
  proof (cases "y = root")
    case False
    with that assms(2) obtain r where r: "r \<in> set (deps_of mm root)" "(edge mm)\<^sup>*\<^sup>* r y"
      unfolding collected_def by blast
    then show ?thesis by (auto simp: edge_def intro: converse_rtranclp_into_rtranclp)
  qed simp
  moreover have "\<forall>x \<in> V' - V. set (deps_of mm x) \<subseteq> V'" using assms(2) unfolding collected_def by blast
  ultimately show ?thesis using assms(2) f d unfolding collected_def by auto
qed

lemma card_visit:
  assumes "finite D" "root \<in> D" "root \<notin> V" "card (D - V) < Suc n"
  shows "card (D - insert root V) < n"
proof -
  have "D - insert root V \<subset> D - V" using assms(2,3) by blast
  then have "card (D - insert root V) < card (D - V)" using assms(1) by (intro psubset_card_mono) auto
  with assms(4) show ?thesis by simp
qed

lemma extract_collects:
  "finite (dom mm) \<Longrightarrow> card (dom mm - fst st) < n \<Longrightarrow>
     \<exists>V' P. extract_traverse n mm root st = Inr (V', snd st @ P) \<and> collected mm {root} (fst st) V' P"
  "finite (dom mm) \<Longrightarrow> card (dom mm - fst st) < n \<Longrightarrow>
     \<exists>V' P. extract_foreach n mm ds st = Inr (V', snd st @ P) \<and> collected mm (set ds) (fst st) V' P"
proof (induction n mm root st and n mm ds st rule: extract_traverse_extract_foreach.induct)
  case (1 mm root st)
  then show ?case by simp
next
  case (2 n mm root V pairs)
  show ?case
  proof (cases "root \<in> V")
    case True
    then show ?thesis using collected_visited [of "{root}" V mm] by simp
  next
    case False
    show ?thesis
    proof (cases "mm root")
      case None
      then have "collected mm {root} V (insert root V) []"
        using collected_root [OF False, of mm "insert root V" "[]"] by (simp add: collected_visited deps_of_def calls_of_def)
      with None False show ?thesis by simp
    next
      case (Some md)
      then have eq: "(case dependencies md of None \<Rightarrow> [] | Some ds \<Rightarrow> ds) = deps_of mm root"
        "(case recorded_calls md of None \<Rightarrow> [] | Some cs \<Rightarrow> cs) = calls_of mm root"
        by (simp_all add: deps_of_def calls_of_def)
      have "root \<in> dom mm" using Some by auto
      then have "card (dom mm - insert root V) < n" using card_visit [OF 2(2) _ False] 2(3) by simp
      with 2(1) [OF False Some] 2(2) obtain V' P where
        r: "extract_foreach n mm (deps_of mm root) (insert root V, pairs @ calls_of mm root) = Inr (V', (pairs @ calls_of mm root) @ P)"
           "collected mm (set (deps_of mm root)) (insert root V) V' P" by (auto simp: eq)
      with Some False collected_root [OF False r(2)] show ?thesis by (simp add: eq)
    qed
  qed
next
  case (3 n mm st)
  then show ?case by (cases st) (simp add: collected_visited)
next
  case (4 n mm d ds st)
  from 4(1) [OF 4(3,4)] obtain V1 P1 where
    a: "extract_traverse n mm d st = Inr (V1, snd st @ P1)" "collected mm {d} (fst st) V1 P1" by blast
  have "dom mm - V1 \<subseteq> dom mm - fst st" using a(2) by (auto simp: collected_def)
  then have "card (dom mm - V1) < n" using card_mono [of "dom mm - fst st" "dom mm - V1"] 4(3,4) by simp
  with 4(2) [of "(V1, snd st @ P1)"] 4(3) obtain V2 P2 where
    b: "extract_foreach n mm ds (V1, snd st @ P1) = Inr (V2, (snd st @ P1) @ P2)" "collected mm (set ds) V1 V2 P2" by auto
  from collected_trans [OF a(2) b(2)] a(1) b(1) show ?case by simp
qed

text \<open>The objects reachable from the given ones and from the sentinel for global calls.\<close>

definition reachable_objects :: "metadata_map \<Rightarrow> pointer list \<Rightarrow> pointer set" where
  "reachable_objects mm roots = {y. \<exists>r \<in> insert null_ptr (set roots). (edge mm)\<^sup>*\<^sup>* r y}"

lemma collect_reachable:
  assumes "finite (dom mm)" "card (dom mm) < n"
  shows "\<exists>P. collect n mm roots = Inr (reachable_objects mm roots, P) \<and>
    mset P = (\<Sum>x \<in> reachable_objects mm roots. mset (calls_of mm x)) \<and> finite (reachable_objects mm roots)"
proof -
  from extract_collects(1) [OF assms(1), of "({}, [])" n null_ptr] assms(2) obtain V1 P1 where
    a: "extract_traverse n mm null_ptr ({}, []) = Inr (V1, P1)" "collected mm {null_ptr} {} V1 P1" by auto
  have "card (dom mm - V1) < n" using card_mono [of "dom mm" "dom mm - V1"] assms by simp
  with extract_collects(2) [OF assms(1), of "(V1, P1)" n roots] obtain V P where
    b: "extract_foreach n mm roots (V1, P1) = Inr (V, P1 @ P)" "collected mm (set roots) V1 V P" by auto
  have c: "collected mm (insert null_ptr (set roots)) {} V (P1 @ P)" using collected_trans [OF a(2) b(2)] by simp
  have "y \<in> V" if "(edge mm)\<^sup>*\<^sup>* r y" "r \<in> insert null_ptr (set roots)" for r y
    using that
  proof (induction rule: rtranclp_induct)
    case base
    then show ?case using c by (auto simp: collected_def)
  next
    case (step y z)
    then have "y \<in> V" by simp
    then have "set (deps_of mm y) \<subseteq> V" using c unfolding collected_def by blast
    with step(2) show ?case by (auto simp: edge_def)
  qed
  then have "V = reachable_objects mm roots" using c unfolding collected_def reachable_objects_def by auto
  with a(1) b(1) c show ?thesis by (auto simp: collect_def collected_def)
qed

section \<open>What the loop forwards\<close>

definition glib_sort :: "((u64 \<times> u64) list \<Rightarrow> (u64 \<times> u64) list) \<Rightarrow> bool" where
  "glib_sort gsort \<longleftrightarrow> (\<forall>ps. mset (gsort ps) = mset ps \<and> sorted_wrt (\<lambda>x y. order_by_a x y \<le> 0) (gsort ps))"

lemma order_by_a_le: "order_by_a x y \<le> 0 \<longleftrightarrow> fst x \<le> fst y"
  by (auto simp: order_by_a_def)

fun dedup :: "u64 \<Rightarrow> (u64 \<times> u64) list \<Rightarrow> (u64 \<times> u64) list" where
  "dedup prev [] = []"
| "dedup prev ((a, b) # ps) = (if a \<noteq> prev then (a, b) # dedup a ps else dedup a ps)"

lemma dedup_set: "set (dedup prev ps) \<subseteq> set ps"
  by (induction prev ps rule: dedup.induct) auto

lemma dedup_sorted:
  "sorted_wrt (\<lambda>x y. fst x \<le> fst y) ps \<Longrightarrow> \<forall>x \<in> set ps. prev \<le> fst x \<Longrightarrow>
     sorted_wrt (<) (map fst (dedup prev ps)) \<and> (\<forall>x \<in> set (dedup prev ps). prev < fst x) \<and>
     fst ` set (dedup prev ps) = fst ` set ps - {prev}"
proof (induction prev ps rule: dedup.induct)
  case (2 prev a b ps)
  show ?case
  proof (cases "a = prev")
    case True
    with 2(2) [OF _ ] 2(3,4) show ?thesis by auto
  next
    case False
    with 2(4) have pa: "prev < a" by auto
    have ih: "sorted_wrt (<) (map fst (dedup a ps))" "\<forall>x \<in> set (dedup a ps). a < fst x"
      "fst ` set (dedup a ps) = fst ` set ps - {a}" using 2(1) [OF False] 2(3) by simp_all
    have lt: "\<forall>x \<in> set (dedup a ps). prev < fst x" using ih(2) pa by (blast intro: less_trans)
    have "prev \<notin> fst ` set ps" using 2(3) pa by (force simp: not_le)
    then have "fst ` set (dedup prev ((a, b) # ps)) = fst ` set ((a, b) # ps) - {prev}"
      using False by (simp add: ih(3) insert_Diff_if)
    moreover have "sorted_wrt (<) (map fst (dedup prev ((a, b) # ps)))" using False ih(1,2) by simp
    moreover have "\<forall>x \<in> set (dedup prev ((a, b) # ps)). prev < fst x" using False lt pa by simp
    ultimately show ?thesis by blast
  qed
qed simp

lemma dedup_first:
  assumes "sorted_wrt (\<lambda>x y. fst x \<le> fst y) ps" "prev \<notin> fst ` set ps"
  shows "sorted_wrt (<) (map fst (dedup prev ps)) \<and> fst ` set (dedup prev ps) = fst ` set ps"
proof (cases ps)
  case (Cons x qs)
  then obtain a b where "x = (a, b)" by (cases x)
  with Cons assms dedup_sorted [of qs a] show ?thesis by auto
qed simp

text \<open>The messages at an offset of the abstract log: the image of the entry unless it is expunged.\<close>

definition msgs_at :: "log_entry list \<Rightarrow> u64 \<Rightarrow> bytes list" where
  "msgs_at es off = [snd (es ! i). i \<leftarrow> [0..<length es], of_nat (entry_off es i) = off \<and> fst (es ! i) \<noteq> 1]"

definition pair_msgs :: "log_entry list \<Rightarrow> (u64 \<times> u64) list \<Rightarrow> bytes list" where
  "pair_msgs es ps = concat (map (\<lambda>(a, b). msgs_at es a @ msgs_at es b) ps)"

lemma pair_msgs_Cons: "pair_msgs es ((a, b) # ps) = msgs_at es a @ msgs_at es b @ pair_msgs es ps"
  by (simp add: pair_msgs_def)

fun send_msgs :: "'c chan_ops \<Rightarrow> bytes list \<Rightarrow> 'c \<Rightarrow> 'c res" where
  "send_msgs ops [] out = Inr out"
| "send_msgs ops (m # ms) out =
     rbind (co_transfer ops out m (drop (unat (command_size (base_of m))) m)) (send_msgs ops ms)"

lemma send_msgs_append: "send_msgs ops (xs @ ys) out = rbind (send_msgs ops xs out) (send_msgs ops ys)"
proof (induction xs arbitrary: out)
  case (Cons m xs)
  have "send_msgs ops (xs @ ys) = (\<lambda>out. rbind (send_msgs ops xs out) (send_msgs ops ys))" using Cons by (rule ext)
  then show ?case by (simp add: rbind_assoc)
qed simp

lemma pick_none: "i \<notin> set ks \<Longrightarrow> concat (map (\<lambda>k. if k = i \<and> c then [f k] else []) ks) = []"
  by (induction ks) auto

lemma pick_one:
  "i \<in> set ks \<Longrightarrow> distinct ks \<Longrightarrow>
     concat (map (\<lambda>k. if k = i \<and> c then [f k] else []) ks) = (if c then [f i] else [])"
  using pick_none [of i _ c f] by (induction ks) (auto simp del: concat_eq_Nil_conv)

lemma msgs_at_entry:
  assumes "i < length es" "length (enc_log es) < 2 ^ 63"
  shows "msgs_at es (of_nat (entry_off es i)) = (if fst (es ! i) = 1 then [] else [snd (es ! i)])"
proof -
  have "(of_nat (entry_off es k) = (of_nat (entry_off es i) :: u64) \<and> fst (es ! k) \<noteq> 1) = (k = i \<and> fst (es ! i) \<noteq> 1)"
    if "k < length es" for k using entry_off_inj [OF that assms(1,2)] by auto
  then have "msgs_at es (of_nat (entry_off es i)) =
      concat (map (\<lambda>k. if k = i \<and> fst (es ! i) \<noteq> 1 then [snd (es ! k)] else []) [0..<length es])"
    unfolding msgs_at_def by (intro arg_cong [of _ _ concat] map_cong) auto
  also have "\<dots> = (if fst (es ! i) = 1 then [] else [snd (es ! i)])"
    using pick_one [of i "[0..<length es]" "fst (es ! i) \<noteq> 1" "\<lambda>k. snd (es ! k)"] assms(1) by simp
  finally show ?thesis .
qed

lemma transfer_command_msgs:
  assumes d: "fdata (log_fd lg) = enc_log es" "length (enc_log es) < 2 ^ 63"
    and o: "off = of_nat (entry_off es i)" "i < length es"
  shows "\<exists>lg'. fdata (log_fd lg') = enc_log es \<and> (\<forall>out.
    transfer_command ops out lg off = rbind (send_msgs ops (msgs_at es off) out) (\<lambda>out. Inr (out, lg')))"
proof -
  from load_at [OF d o(2), of off] o(1) obtain lg' where l: "fdata (log_fd lg') = enc_log es"
    "command_channel_log_load_command lg off = (Some (snd (es ! i)), Some (fst (es ! i)), lg')" by auto
  have "transfer_command ops out lg off = rbind (send_msgs ops (msgs_at es off) out) (\<lambda>out. Inr (out, lg'))" for out
    using msgs_at_entry [OF o(2) d(2)] unfolding transfer_command_def l(2) o(1) [symmetric] by (simp add: rbind_assoc)
  with l(1) show ?thesis by (intro exI [of _ lg'] conjI allI)
qed

lemma transfer_loop_msgs:
  assumes "fdata (log_fd lg) = enc_log es" "length (enc_log es) < 2 ^ 63" "pairs_in_log es ps"
  shows "\<exists>lg'. fdata (log_fd lg') = enc_log es \<and> (\<forall>out. transfer_loop ops prev ps (out, lg) =
    rbind (send_msgs ops (pair_msgs es (dedup prev ps)) out) (\<lambda>out. Inr (out, lg')))"
  using assms(1,3)
proof (induction prev ps arbitrary: lg rule: dedup.induct)
  case (2 prev a b ps)
  have ps: "pairs_in_log es ps" and ab: "\<exists>i < length es. a = of_nat (entry_off es i)" "\<exists>i < length es. b = of_nat (entry_off es i)"
    using 2(4) by (auto simp: pairs_in_log_def)
  show ?case
  proof (cases "a = prev")
    case True
    then have eq: "transfer_loop ops prev ((a, b) # ps) (out, lg) = transfer_loop ops a ps (out, lg)"
      "dedup prev ((a, b) # ps) = dedup a ps" for out by simp_all
    show ?thesis unfolding eq by (rule 2(2) [OF _ 2(3) ps]) (simp add: True)
  next
    case False
    from ab obtain i j where ij: "a = of_nat (entry_off es i)" "i < length es" "b = of_nat (entry_off es j)" "j < length es"
      by auto
    from transfer_command_msgs [OF 2(3) assms(2) ij(1,2), of ops] obtain lg1 where l1: "fdata (log_fd lg1) = enc_log es"
      "\<forall>out. transfer_command ops out lg a = rbind (send_msgs ops (msgs_at es a) out) (\<lambda>out. Inr (out, lg1))" by (elim exE conjE)
    from transfer_command_msgs [OF l1(1) assms(2) ij(3,4), of ops] obtain lg2 where l2: "fdata (log_fd lg2) = enc_log es"
      "\<forall>out. transfer_command ops out lg1 b = rbind (send_msgs ops (msgs_at es b) out) (\<lambda>out. Inr (out, lg2))" by (elim exE conjE)
    from 2(1) [OF False l2(1) ps] obtain lg3 where l3: "fdata (log_fd lg3) = enc_log es"
      "\<forall>out. transfer_loop ops a ps (out, lg2) = rbind (send_msgs ops (pair_msgs es (dedup a ps)) out) (\<lambda>out. Inr (out, lg3))"
      by (elim exE conjE)
    have *: "transfer_loop ops prev ((a, b) # ps) (out, lg) =
        rbind (send_msgs ops (pair_msgs es (dedup prev ((a, b) # ps))) out) (\<lambda>out. Inr (out, lg3))" for out
      
      by (simp only: transfer_loop.simps dedup.simps False not_False_eq_True if_True pair_msgs_Cons send_msgs_append rbind_assoc
          l1(2) [rule_format] l2(2) [rule_format] l3(2) [rule_format] rbind.simps prod.case)
    show ?thesis by (intro exI [of _ lg3] conjI allI l3(1) *)
  qed
next
  case (1 prev)
  show ?case using 1(1) by (intro exI [of _ lg] conjI allI) (simp_all add: pair_msgs_def)
qed

section \<open>Forwarding over a socket\<close>

definition forwardable :: "bytes \<Rightarrow> bool" where
  "forwardable m \<longleftrightarrow> sendable m \<and> region_size (base_of m) \<noteq> 0"

lemma sock_transfer_ok:
  assumes "io_progress os" "forwardable m"
  shows "command_channel_socket_transfer_command os out m (drop (unat (command_size (base_of m))) m) =
    Inr (out\<lparr>sock_out := sock_out out @ m\<rparr>)"
proof -
  let ?cs = "unat (command_size (base_of m))" and ?rs = "unat (region_size (base_of m))"
  have s: "136 \<le> ?cs" "length m = ?cs + ?rs" "?rs \<noteq> 0"
    using assms(2) by (simp_all add: forwardable_def sendable_def unsigned_eq_0_iff)
  then have ne: "take ?cs m \<noteq> []" "drop ?cs m \<noteq> []" by auto
  from send_socket_progress [OF assms(1) ne(1), of "sock_out out"] obtain r where
    s1: "send_socket os (take ?cs m) (sock_out out) = Inr (r, sock_out out @ take ?cs m)" by auto
  from send_socket_progress [OF assms(1) ne(2), of "sock_out out @ take ?cs m"] obtain r' where
    s2: "send_socket os (drop ?cs m) (sock_out out @ take ?cs m) = Inr (r', sock_out out @ m)" by auto
  have "mem_read 0 ?cs m = Inr (take ?cs m)" "mem_read 0 ?rs (drop ?cs m) = Inr (drop ?cs m)"
    using s by (simp_all add: mem_read_def slice_at_def)
  then show ?thesis using s1 s2 by (simp add: command_channel_socket_transfer_command_def Let_def)
qed

lemma send_msgs_socket:
  assumes "io_progress os" "\<forall>m \<in> set ms. forwardable m"
  shows "send_msgs (socket_ops mal os) ms out = Inr (out\<lparr>sock_out := sock_out out @ concat ms\<rparr>)"
  using assms(2)
  by (induction ms arbitrary: out) (simp_all add: socket_ops_def sock_transfer_ok [OF assms(1)])

lemma pair_msgs_subset: "set (pair_msgs es ps) \<subseteq> snd ` set es"
  by (auto simp: pair_msgs_def msgs_at_def)

lemma explicit_loop_none:
  assumes "\<forall>x md. mm x = Some md \<longrightarrow> md_extract md = null_ptr"
  shows "explicit_loop ops ext mm xs s = Inr s"
proof (induction xs arbitrary: s)
  case (Cons x xs)
  have "extract_explicit ops ext mm x s = Inr s" using assms by (auto simp: extract_explicit_def split: option.split)
  with Cons show ?case by simp
qed simp

lemma pairs_not_minus_one:
  assumes "pairs_in_log es ps" "length (enc_log es) < 2 ^ 63"
  shows "- 1 \<notin> fst ` set ps"
proof
  assume "- 1 \<in> fst ` set ps"
  then obtain i where i: "i < length es" "(- 1 :: u64) = of_nat (entry_off es i)"
    using assms(1) by (fastforce simp: pairs_in_log_def)
  have "entry_off es i < 2 ^ 63" using entry_off_le [of es i] assms(2) by linarith
  then have "unat (of_nat (entry_off es i) :: u64) < 2 ^ 63" by simp
  then have "unat (- 1 :: u64) < 2 ^ 63" by (simp only: i(2))
  then show False by (simp add: unsigned_minus_1_eq_mask mask_eq_exp_minus_1)
qed

text \<open>Extraction of objects without explicit state over any channel: which recorded calls are forwarded, and in
  which order.\<close>

lemma extract_forwards:
  assumes fin: "finite (dom mm)" "card (dom mm) < n" and gs: "glib_sort gsort"
    and lg: "fdata (log_fd lg) = enc_log es" "length (enc_log es) < 2 ^ 63"
    and ps: "\<forall>x \<in> reachable_objects mm roots. pairs_in_log es (calls_of mm x)"
    and ex: "\<forall>x md. mm x = Some md \<longrightarrow> md_extract md = null_ptr"
  shows "\<exists>qs lg'. (\<forall>out. ava_extract_objects ops gsort keys ext n mm roots (pool, g, out, lg) =
      rbind (send_msgs ops (pair_msgs es qs) out) (\<lambda>out. Inr (pool, g, out, lg'))) \<and>
    sorted_wrt (<) (map fst qs) \<and> set qs \<subseteq> (\<Union>x \<in> reachable_objects mm roots. set (calls_of mm x)) \<and>
    fst ` set qs = (\<Union>x \<in> reachable_objects mm roots. fst ` set (calls_of mm x)) \<and> pairs_in_log es qs"
proof -
  let ?R = "reachable_objects mm roots"
  from collect_reachable [OF fin, of roots] obtain P where P: "collect n mm roots = Inr (?R, P)"
    "mset P = (\<Sum>x \<in> ?R. mset (calls_of mm x))" "finite ?R" by blast
  have g: "mset (gsort P) = mset P" "sorted_wrt (\<lambda>x y. fst x \<le> fst y) (gsort P)"
    using gs by (simp_all add: glib_sort_def order_by_a_le)
  have setP: "set (gsort P) = (\<Union>x \<in> ?R. set (calls_of mm x))"
    using arg_cong [OF P(2), of set_mset] g(1) P(3) by (simp add: set_mset_sum flip: set_mset_mset)
  have pl: "pairs_in_log es (gsort P)" using ps setP by (auto simp: pairs_in_log_def)
  let ?qs = "dedup (- 1) (gsort P)"
  from transfer_loop_msgs [OF lg pl, of ops "- 1"] obtain lg' where
    tl: "\<forall>out. transfer_loop ops (- 1) (gsort P) (out, lg) =
      rbind (send_msgs ops (pair_msgs es ?qs) out) (\<lambda>out. Inr (out, lg'))" by (elim exE conjE) (rule that)
  have 1: "\<forall>out. ava_extract_objects ops gsort keys ext n mm roots (pool, g, out, lg) =
      rbind (send_msgs ops (pair_msgs es ?qs) out) (\<lambda>out. Inr (pool, g, out, lg'))"
    using P(1) tl by (simp add: ava_extract_objects_def explicit_loop_none [OF ex] rbind_assoc)
  have 2: "sorted_wrt (<) (map fst ?qs)" "fst ` set ?qs = (\<Union>x \<in> ?R. fst ` set (calls_of mm x))"
    using dedup_first [OF g(2) pairs_not_minus_one [OF pl lg(2)]] by (simp_all add: setP image_UN)
  have 3: "set ?qs \<subseteq> (\<Union>x \<in> ?R. set (calls_of mm x))" using dedup_set [of "- 1" "gsort P"] setP by simp
  have 4: "pairs_in_log es ?qs" using pl dedup_set [of "- 1" "gsort P"] by (auto simp: pairs_in_log_def)
  show ?thesis by (intro exI [of _ ?qs] exI [of _ lg'] conjI 1 2 3 4)
qed

text \<open>C6: Migration of the objects reachable from the roots (and of the globally recorded calls) over a socket
  terminates for any dependency graph, cycles included, and forwards the recorded calls of exactly those objects: each distinct call
  once, in the order in which the log has them, with its reply right behind it, leaving out expunged entries;
  the receiving endpoint gets these messages unchanged and in this order.\<close>

theorem extraction_forwards_calls:
  assumes fin: "finite (dom mm)" "card (dom mm) < n" and gs: "glib_sort gsort"
    and os: "io_progress os" "io_progress os'" "malloc_ok mal'"
    and lg: "fdata (log_fd lg) = enc_log es" "length (enc_log es) < 2 ^ 63"
    and ps: "\<forall>x \<in> reachable_objects mm roots. pairs_in_log es (calls_of mm x)"
    and es: "\<forall>e \<in> set es. forwardable (snd e)"
    and ex: "\<forall>x md. mm x = Some md \<longrightarrow> md_extract md = null_ptr" and out: "sock_out out = []"
  shows "\<exists>qs out' lg'.
    ava_extract_objects (socket_ops mal os) gsort keys ext n mm roots (pool, g, out, lg) = Inr (pool, g, out', lg') \<and>
    sorted_wrt (<) (map fst qs) \<and> set qs \<subseteq> (\<Union>x \<in> reachable_objects mm roots. set (calls_of mm x)) \<and>
    fst ` set qs = (\<Union>x \<in> reachable_objects mm roots. fst ` set (calls_of mm x)) \<and>
    sock_receive_n mal' os' (length (pair_msgs es qs)) (peer\<lparr>sock_in := sock_out out'\<rparr>) =
      Inr (map Some (pair_msgs es qs), peer\<lparr>sock_in := []\<rparr>)"
proof -
  from extract_forwards [OF fin gs lg ps ex, where ops = "socket_ops mal os" and keys = keys and ext = ext and pool = pool and g = g]
  obtain qs lg' where q: "\<forall>out. ava_extract_objects (socket_ops mal os) gsort keys ext n mm roots (pool, g, out, lg) =
      rbind (send_msgs (socket_ops mal os) (pair_msgs es qs) out) (\<lambda>out. Inr (pool, g, out, lg'))"
    and r: "sorted_wrt (<) (map fst qs)" "set qs \<subseteq> (\<Union>x \<in> reachable_objects mm roots. set (calls_of mm x))"
      "fst ` set qs = (\<Union>x \<in> reachable_objects mm roots. fst ` set (calls_of mm x))" by (elim exE conjE) (rule that)
  have fw: "\<forall>m \<in> set (pair_msgs es qs). forwardable m" using es pair_msgs_subset [of es qs] by blast
  let ?out = "out\<lparr>sock_out := concat (pair_msgs es qs)\<rparr>"
  have 1: "ava_extract_objects (socket_ops mal os) gsort keys ext n mm roots (pool, g, out, lg) = Inr (pool, g, ?out, lg')"
    using q send_msgs_socket [OF os(1) fw] out by simp
  have 2: "sock_receive_n mal' os' (length (pair_msgs es qs)) (peer\<lparr>sock_in := sock_out ?out\<rparr>) =
      Inr (map Some (pair_msgs es qs), peer\<lparr>sock_in := []\<rparr>)"
    using sock_receive_n_ok [OF os(2,3), of "pair_msgs es qs" "peer\<lparr>sock_in := sock_out ?out\<rparr>" "[]"] fw
    by (simp add: forwardable_def)
  show ?thesis by (intro exI [of _ qs] exI [of _ ?out] exI [of _ lg'] conjI 1 2 r)
qed

definition ex_log :: "log_entry list" where
  "ex_log = [(0, ex_cmd 2 @ [7, 8]), (0, ex_cmd 1 @ [9])]"

definition ex_graph :: metadata_map where
  "ex_graph = [16 \<mapsto> md_zero\<lparr>recorded_calls := Some [(0, 154)], dependencies := Some [32]\<rparr>,
     32 \<mapsto> md_zero\<lparr>recorded_calls := Some [(0, 154)], dependencies := Some [16]\<rparr>]"

lemma ex_log_facts:
  "length (enc_log ex_log) < 2 ^ 63" "entry_off ex_log 0 = 0" "entry_off ex_log (Suc 0) = 154" "length ex_log = Suc (Suc 0)"
  "\<forall>e \<in> set ex_log. forwardable (snd e)"
  by (simp_all add: ex_log_def entry_off_def forwardable_def sendable_def base_of_append)

lemma ex_log_pairs: "pairs_in_log ex_log [(0, 154)]" "pair_msgs ex_log [(0, 154)] = [ex_cmd 2 @ [7, 8], ex_cmd 1 @ [9]]"
proof -
  show "pairs_in_log ex_log [(0, 154)]"
    unfolding pairs_in_log_def using ex_log_facts(2-4) by (auto intro: exI [of _ 0] exI [of _ "Suc 0"])
  show "pair_msgs ex_log [(0, 154)] = [ex_cmd 2 @ [7, 8], ex_cmd 1 @ [9]]"
    using msgs_at_entry [OF _ ex_log_facts(1), of 0] msgs_at_entry [OF _ ex_log_facts(1), of "Suc 0"]
    by (simp add: pair_msgs_def ex_log_facts) (simp add: ex_log_def)
qed

lemma ex_graph_facts:
  "dom ex_graph = {16, 32}" "x \<noteq> 16 \<Longrightarrow> x \<noteq> 32 \<Longrightarrow> calls_of ex_graph x = []" "calls_of ex_graph 16 = [(0, 154)]"
  "calls_of ex_graph 32 = [(0, 154)]" "ex_graph x = Some md \<Longrightarrow> md_extract md = null_ptr"
  by (auto simp: ex_graph_def calls_of_def md_zero_def split: if_splits)

theorem extraction_forwards_calls_witness:
  "\<exists>out' lg'. ava_extract_objects (socket_ops (\<lambda>n. replicate n 9) (\<lambda>_ _. 1)) (sort_key fst) (\<lambda>_. []) (\<lambda>_ _. None) 3 ex_graph [16]
      (None, id_gen_init, \<lparr>sock_vm_id = 1, sock_out = [], sock_in = []\<rparr>, \<lparr>log_fd = \<lparr>fdata = enc_log ex_log, fpos = 0\<rparr>, read_offset = 0\<rparr>) =
      Inr (None, id_gen_init, out', lg') \<and>
    sock_receive_n (\<lambda>n. replicate n 9) (\<lambda>_ _. 5) (length [(), ()]) \<lparr>sock_vm_id = 0, sock_out = [], sock_in = sock_out out'\<rparr> =
      Inr ([Some (ex_cmd 2 @ [7, 8]), Some (ex_cmd 1 @ [9])], \<lparr>sock_vm_id = 0, sock_out = [], sock_in = []\<rparr>)"
proof -
  have h: "io_progress (\<lambda>_ _. 1)" "io_progress (\<lambda>_ _. 5)" "malloc_ok (\<lambda>n. replicate n 9)"
    by (simp_all add: io_progress_def malloc_ok_def)
  have g: "glib_sort (sort_key fst)"
    using sorted_sort_key [of "fst :: u64 \<times> u64 \<Rightarrow> u64"] by (simp add: glib_sort_def order_by_a_le sorted_map)
  have r: "16 \<in> reachable_objects ex_graph [16]" by (auto simp: reachable_objects_def)
  have c: "\<forall>x \<in> reachable_objects ex_graph [16]. pairs_in_log ex_log (calls_of ex_graph x)"
  proof
    show "pairs_in_log ex_log (calls_of ex_graph x)" for x
      using ex_graph_facts(2) [of x] ex_graph_facts(3,4) ex_log_pairs(1) by (cases "x = 16 \<or> x = 32") (auto simp: pairs_in_log_def)
  qed
  have all: "set (calls_of ex_graph x) \<subseteq> {(0, 154)}" for x
    using ex_graph_facts(2) [of x] ex_graph_facts(3,4) by (cases "x = 16 \<or> x = 32") auto
  let ?out = "\<lparr>sock_vm_id = 1, sock_out = [], sock_in = []\<rparr>" and ?peer = "\<lparr>sock_vm_id = 0, sock_out = [], sock_in = []\<rparr>"
  let ?lg = "\<lparr>log_fd = \<lparr>fdata = enc_log ex_log, fpos = 0\<rparr>, read_offset = 0\<rparr>"
  let ?R = "reachable_objects ex_graph [16]"
  have f: "finite (dom ex_graph)" "card (dom ex_graph) < 3" "fdata (log_fd ?lg) = enc_log ex_log" "sock_out ?out = []"
    "\<forall>x md. ex_graph x = Some md \<longrightarrow> md_extract md = null_ptr" using ex_graph_facts(5) by (simp_all add: ex_graph_facts(1))
  note ext = extraction_forwards_calls [OF f(1,2) g h f(3) ex_log_facts(1) c ex_log_facts(5) f(5,4),
      where mal = "\<lambda>n. replicate n 9" and keys = "\<lambda>_. []" and ext = "\<lambda>_ _. None" and pool = None and g = id_gen_init and peer = ?peer]
  from ext obtain qs out' lg' where
    q: "ava_extract_objects (socket_ops (\<lambda>n. replicate n 9) (\<lambda>_ _. 1)) (sort_key fst) (\<lambda>_. []) (\<lambda>_ _. None) 3 ex_graph [16]
      (None, id_gen_init, ?out, ?lg) = Inr (None, id_gen_init, out', lg')"
    "sorted_wrt (<) (map fst qs)" "set qs \<subseteq> (\<Union>x \<in> ?R. set (calls_of ex_graph x))"
    "fst ` set qs = (\<Union>x \<in> ?R. fst ` set (calls_of ex_graph x))"
    "sock_receive_n (\<lambda>n. replicate n 9) (\<lambda>_ _. 5) (length (pair_msgs ex_log qs)) (?peer\<lparr>sock_in := sock_out out'\<rparr>) =
      Inr (map Some (pair_msgs ex_log qs), ?peer\<lparr>sock_in := []\<rparr>)"
    by (elim exE conjE) (rule that)
  have "set qs \<subseteq> {(0, 154)}" using q(3) all by blast
  moreover have "qs \<noteq> []" using q(4) r ex_graph_facts(3) by auto
  moreover have "distinct qs" using q(2) by (simp add: strict_sorted_iff distinct_map)
  ultimately have "qs = [(0, 154)]" by (cases qs; cases "tl qs") auto
  with q(1,5) show ?thesis by (auto simp: ex_log_pairs(2))
qed

section \<open>Explicit state over a socket\<close>

lemma put_u64_base:
  assumes "136 \<le> off" "off + 8 \<le> length cmd"
  shows "base_of (put_u64 off v cmd) = base_of cmd" "seek_cur (put_u64 off v cmd) = seek_cur cmd"
  using assms by (simp_all add: put_u64_def base_of_splice seek_cur_def)

lemma set_internal_simps:
  assumes "136 \<le> length cmd"
  shows "base_of (set_internal cid cmd) = (base_of cmd)\<lparr>api_id := COMMAND_HANDLER_API, command_id := cid\<rparr>"
    "length (set_internal cid cmd) = length cmd" "seek_cur (set_internal cid cmd) = seek_cur cmd"
proof -
  have "base_ok ((base_of cmd)\<lparr>api_id := COMMAND_HANDLER_API, command_id := cid\<rparr>)"
    using base_ok_base_of [OF assms] by (simp add: base_ok_def)
  then show "base_of (set_internal cid cmd) = (base_of cmd)\<lparr>api_id := COMMAND_HANDLER_API, command_id := cid\<rparr>"
    "length (set_internal cid cmd) = length cmd" "seek_cur (set_internal cid cmd) = seek_cur cmd"
    using assms by (simp_all add: set_internal_def seek_cur_def)
qed

text \<open>The command that carries the state, once its data is attached at offset 160.\<close>

lemma replace_command:
  fixes cmd data :: bytes and i cid :: u64
  assumes l: "length cmd = 160 + length data" "seek_cur cmd = 160" and d: "data \<noteq> []" "160 + length data < 2 ^ 64"
    and b: "command_size (base_of cmd) = 160" "region_size (base_of cmd) = of_nat (length data)"
  defines "cmd1 \<equiv> put_u64 152 (of_nat (length data)) (put_u64 136 i (set_internal cid cmd))"
  shows "\<exists>cmd2. command_channel_socket_attach_buffer cmd1 (Some data) = Inr (160, cmd2) \<and> sendable (put_u64 144 160 cmd2) \<and>
    command_id (base_of (put_u64 144 160 cmd2)) = cid \<and> get_u64 136 (put_u64 144 160 cmd2) = i \<and>
    get_u64 152 (put_u64 144 160 cmd2) = of_nat (length data) \<and> slice_at 160 (length data) (put_u64 144 160 cmd2) = data"
proof -
  have c1: "length cmd1 = length cmd" "base_of cmd1 = (base_of cmd)\<lparr>api_id := COMMAND_HANDLER_API, command_id := cid\<rparr>"
    "seek_cur cmd1 = 160" "get_u64 136 cmd1 = i" "get_u64 152 cmd1 = of_nat (length data)"
    using l by (simp_all add: cmd1_def put_u64_base set_internal_simps get_put_u64_other)
  have ok: "sock_ok cmd1" "length data \<le> sock_room cmd1" using c1 l d by (simp_all add: sock_ok_def sock_room_def)
  let ?s = "set_seek_cur (160 + of_nat (length data)) cmd1"
  let ?c = "splice_at 160 data ?s"
  have att: "command_channel_socket_attach_buffer cmd1 (Some data) = Inr (160, ?c)"
    using sock_attach_step(1) [OF ok(1) d(1) ok(2)] c1(3) by simp
  have s: "length ?s = length cmd" "length ?c = length cmd" "base_of ?c = base_of ?s"
    using l c1 by (simp_all add: seek_simps base_of_splice)
  have dr: "slice_at p 8 ?s = slice_at p 8 cmd1" if "136 \<le> p" for p
  proof -
    have "drop p ?s = drop (p - 136) (drop 136 ?s)" using that by simp
    then show ?thesis using that l c1(1) by (simp add: slice_at_def seek_simps)
  qed
  have g: "get_u64 p ?c = get_u64 p cmd1" if "136 \<le> p" "p + 8 \<le> 160" for p
    using that s l dr [of p] by (simp add: get_u64_def slice_splice_disjoint)
  let ?f = "put_u64 144 160 ?c"
  have "get_u64 136 ?f = i" "get_u64 152 ?f = of_nat (length data)"
    using c1 g [of 136] g [of 152] s l by (simp_all add: get_put_u64_other)
  moreover have "slice_at 160 (length data) ?f = data"
    using s l slice_splice_same [of 160 data ?s] by (simp add: put_u64_def slice_splice_disjoint)
  moreover have "sendable ?f" "command_id (base_of ?f) = cid"
    using c1 s l d b by (simp_all add: sendable_def put_u64_base seek_simps unat_of_nat)
  ultimately show ?thesis using att by blast
qed

text \<open>C35: The explicit state of an object survives migration: what its extract function produced at the source is what the
  target hands to the replace function of the object that the transmitted identifier denotes there.\<close>

theorem explicit_state_roundtrip:
  assumes os: "io_progress os" "io_progress os'" "malloc_ok mal" "malloc_ok mal'"
    and src: "mm obj = Some md" "md_extract md \<noteq> null_ptr" "ext (md_extract md) obj = Some data"
    and d: "data \<noteq> []" "160 + length data < 2 ^ 64"
    and i: "nw_handle_pool_lookup_or_insert pool obj g = Inr (i, pool', g')"
    and tgt: "nw_handle_pool_deref rpool i = Inr obj'" "rmm obj' = Some rmd" "md_replace rmd \<noteq> null_ptr"
    and out: "sock_out out = []"
  shows "\<exists>out' blk. extract_explicit (socket_ops mal os) ext mm obj (pool, g, out) = Inr (pool', g', out') \<and>
    command_channel_socket_receive_command mal' os' 1 POLLIN (peer\<lparr>sock_in := sock_out out'\<rparr>) =
      Inr (Some blk, peer\<lparr>sock_in := []\<rparr>) \<and>
    ava_handle_replace_explicit_state (command_channel_socket_get_buffer blk) rmm rpool blk = Inr (md_replace rmd, obj', data)"
proof -
  have u: "unat (of_nat (length data) :: u64) = length data" using d by (simp add: unat_of_nat)
  from sock_new_ok [OF os(3), of 160 "of_nat (length data)" out] d obtain cmd where
    n: "command_channel_socket_new_command mal out 160 (of_nat (length data)) = Inr cmd"
    "length cmd = 160 + length data" "seek_cur cmd = 160" "command_size (base_of cmd) = 160"
    "region_size (base_of cmd) = of_nat (length data)" by (auto simp: u)
  from replace_command [OF n(2,3) d n(4,5), where i = i and cid = COMMAND_HANDLER_REPLACE_EXPLICIT_STATE] obtain cmd2 where
    a: "command_channel_socket_attach_buffer (put_u64 152 (of_nat (length data)) (put_u64 136 i
        (set_internal COMMAND_HANDLER_REPLACE_EXPLICIT_STATE cmd))) (Some data) = Inr (160, cmd2)"
    and s: "sendable (put_u64 144 160 cmd2)"
    and f: "command_id (base_of (put_u64 144 160 cmd2)) = COMMAND_HANDLER_REPLACE_EXPLICIT_STATE"
      "get_u64 136 (put_u64 144 160 cmd2) = i" "get_u64 152 (put_u64 144 160 cmd2) = of_nat (length data)"
      "slice_at 160 (length data) (put_u64 144 160 cmd2) = data" by blast
  let ?f = "put_u64 144 160 cmd2"
  let ?out = "out\<lparr>sock_out := sent_block ?f\<rparr>"
  have x: "extract_explicit (socket_ops mal os) ext mm obj (pool, g, out) = Inr (pool', g', ?out)"
    using src i n(1) a sock_send_ok [OF os(1) s, of out] out
    by (simp add: extract_explicit_def socket_ops_def Let_def)
  have r: "command_channel_socket_receive_command mal' os' 1 POLLIN (peer\<lparr>sock_in := sock_out ?out\<rparr>) =
      Inr (Some (sent_block ?f), peer\<lparr>sock_in := []\<rparr>)"
    using sock_receive_ok [OF os(2,4) sendable_sent [OF s], of "peer\<lparr>sock_in := sock_out ?out\<rparr>" "[]"]
    by (simp add: poll_bits)
  have l: "136 \<le> length ?f" using s by (simp add: sendable_def)
  have g: "get_u64 p (sent_block ?f) = get_u64 p ?f" if "136 \<le> p" for p
    using that sent_block_simps(3) [OF l] by (simp add: get_u64_def)
  have "slice_at 160 (length data) (sent_block ?f) = data" using sent_block_simps(3) [OF l, of 160] f(4) by simp
  moreover have "160 + length data \<le> length (sent_block ?f)"
  proof -
    have "min (length data) (length ?f - 160) = length data" using arg_cong [OF f(4), of length] by (simp only: length_slice)
    moreover have "0 < length data" using d(1) by simp
    ultimately show ?thesis unfolding sent_block_simps(2) [OF l] by linarith
  qed
  ultimately have "ava_handle_replace_explicit_state (command_channel_socket_get_buffer (sent_block ?f)) rmm rpool (sent_block ?f) =
      Inr (md_replace rmd, obj', data)"
    using tgt f(1-3) g [of 136] g [of 152] g [of 144] u sent_block_simps(1) [OF l]
    by (simp add: ava_handle_replace_explicit_state_def command_channel_socket_get_buffer_def mem_read_def)
  with x r show ?thesis by blast
qed

theorem explicit_state_roundtrip_witness:
  "\<exists>pool' g' out' blk.
    extract_explicit (socket_ops (\<lambda>n. replicate n 9) (\<lambda>_ _. 1)) (\<lambda>f obj. Some [1, 2, 3]) [16 \<mapsto> md_zero\<lparr>md_extract := 0x500\<rparr>] 16
      (None, id_gen_init, \<lparr>sock_vm_id = 1, sock_out = [], sock_in = []\<rparr>) = Inr (pool', g', out') \<and>
    command_channel_socket_receive_command (\<lambda>n. replicate n 9) (\<lambda>_ _. 5) 1 POLLIN
      \<lparr>sock_vm_id = 0, sock_out = [], sock_in = sock_out out'\<rparr> = Inr (Some blk, \<lparr>sock_vm_id = 0, sock_out = [], sock_in = []\<rparr>) \<and>
    ava_handle_replace_explicit_state (command_channel_socket_get_buffer blk) [16 \<mapsto> md_zero\<lparr>md_replace := 0x600\<rparr>] None blk =
      Inr (0x600, 16, [1, 2, 3])"
proof -
  have h: "io_progress (\<lambda>_ _. 1)" "io_progress (\<lambda>_ _. 5)" "malloc_ok (\<lambda>n. replicate n 9)"
    by (simp_all add: io_progress_def malloc_ok_def)
  let ?md = "md_zero\<lparr>md_extract := 0x500\<rparr>" and ?rmd = "md_zero\<lparr>md_replace := 0x600\<rparr>"
  let ?mm = "[16 \<mapsto> ?md] :: metadata_map" and ?rmm = "[16 \<mapsto> ?rmd] :: metadata_map"
  show ?thesis
    using explicit_state_roundtrip [where os = "\<lambda>_ _. 1" and os' = "\<lambda>_ _. 5" and mal = "\<lambda>n. replicate n 9" and
        mal' = "\<lambda>n. replicate n 9" and mm = ?mm and obj = 16 and md = ?md and ext = "\<lambda>f obj. Some [1, 2, 3]" and data = "[1, 2, 3]"
        and pool = None and g = id_gen_init and i = 16 and pool' = None and g' = id_gen_init and rpool = None and obj' = 16
        and rmm = ?rmm and rmd = ?rmd and out = "\<lparr>sock_vm_id = 1, sock_out = [], sock_in = []\<rparr>"
        and peer = "\<lparr>sock_vm_id = 0, sock_out = [], sock_in = []\<rparr>"] h
    by (auto simp: nw_handle_pool_lookup_or_insert_def nw_handle_pool_deref_def)
qed

end
