(* ===== verification/Cmd_Handler.thy ===== *)
theory Cmd_Handler
  imports Object_Extraction
begin

text \<open>
  The command handler (\<open>common/cmd_handler.c\<close>): the table of API handlers, dispatch of a command to its API, and the
  internal API with its migration commands. The handlers of an API are generated code and appear as
  parameters that are looked up by the function pointer in the table. Handle pools live in a heap because
  migration replaces the global pool while handlers hold a pointer to it. The command blocks that a channel
  hands out live in a heap of their own, so that releasing one twice is visible.
\<close>

section \<open>The table of handlers\<close>

datatype handler_ref = Internal_api_handler | Api_handler nat

record command_handler =
  ch_replay :: "nat option"
  ch_handle :: "handler_ref option"
  ch_print :: "nat option"

type_synonym api_table = "command_handler list"

definition MAX_API_ID :: nat where "MAX_API_ID = 256"

definition nw_apis_init :: api_table where
  "nw_apis_init = replicate MAX_API_ID \<lparr>ch_replay = None, ch_handle = None, ch_print = None\<rparr>"

text \<open>The identifier is a C \<open>int\<close>; a negative one passes the assertion and indexes outside the table.\<close>

definition register_command_handler ::
  "int \<Rightarrow> handler_ref option \<Rightarrow> nat option \<Rightarrow> nat option \<Rightarrow> api_table \<Rightarrow> api_table res" where
  "register_command_handler api h p r apis =
     rbind (c_assert (api < int MAX_API_ID) ''api_id < MAX_API_ID'') (\<lambda>_.
     if api < 0 then Inl OutOfBounds
     else rbind (c_assert (ch_handle (apis ! nat api) = None) ''Only one handler can be registered for each API id'') (\<lambda>_.
          Inr (apis[nat api := \<lparr>ch_replay = r, ch_handle = h, ch_print = p\<rparr>])))"

definition init_internal_command_handler :: "api_table \<Rightarrow> api_table res" where
  "init_internal_command_handler = register_command_handler 0 (Some Internal_api_handler) None None"

section \<open>The state of a worker\<close>

text \<open>\<open>app\<close> is the state of the API implementation, \<open>w_chan\<close> the channel to the guest, \<open>w_target\<close> the connection to
  the target of a live migration.\<close>

record ('a, 'c) worker =
  app :: 'a
  w_chan :: 'c
  w_apis :: api_table
  w_pools :: "nat \<rightharpoonup> nw_handle_pool"
  w_next_pool :: nat
  nw_global_handle_pool :: nat
  w_ids :: id_gen
  w_metadata :: metadata_map
  nw_record_command_channel :: command_channel_log
  nw_end_migration_flag :: bool
  w_target :: "command_channel_socket option"

text \<open>Code outside the sources that the handler calls: the channel to the guest, the functions of the APIs
  (called with the accessor for buffers of the command, the pool and the command), GLib and the operating
  system.\<close>

type_synonym buffers = "bytes \<Rightarrow> u64 \<Rightarrow> nat \<Rightarrow> bytes res"

record ('a, 'c) environ =
  env_ops :: "'c chan_ops"
  env_handle :: "nat \<Rightarrow> buffers \<Rightarrow> nat \<Rightarrow> bytes \<Rightarrow> ('a, 'c) worker \<Rightarrow> ('a, 'c) worker res"
  env_replay :: "nat \<Rightarrow> buffers \<Rightarrow> nat \<Rightarrow> bytes \<Rightarrow> bytes \<Rightarrow> ('a, 'c) worker \<Rightarrow> ('a, 'c) worker res"
  env_replace :: "pointer \<Rightarrow> pointer \<Rightarrow> bytes \<Rightarrow> 'a \<Rightarrow> 'a"
  env_extract :: "'a \<Rightarrow> pointer \<Rightarrow> pointer \<Rightarrow> bytes option"
  env_write :: os_write
  env_sort :: "(u64 \<times> u64) list \<Rightarrow> (u64 \<times> u64) list"
  env_keys :: "pointer set \<Rightarrow> pointer list"
  env_ht_keys :: "pointer ghash \<Rightarrow> pointer list"
  env_fuel :: nat
  env_malloc :: "nat \<Rightarrow> bytes"
  env_io :: os_io
  env_tcp :: command_channel_socket

type_synonym cmd_heap = "nat set \<times> nat"

definition new_block :: "cmd_heap \<Rightarrow> nat \<times> cmd_heap" where
  "new_block h = (snd h, insert (snd h) (fst h), Suc (snd h))"

definition free_command :: "nat \<Rightarrow> cmd_heap \<Rightarrow> cmd_heap res" where
  "free_command i h = (if i \<in> fst h then Inr (fst h - {i}, snd h) else Inl DoubleFree)"

definition pool_at :: "('a, 'c) worker \<Rightarrow> nat \<Rightarrow> nw_handle_pool res" where
  "pool_at w i = (case w_pools w i of None \<Rightarrow> Inl UseAfterFree | Some p \<Rightarrow> Inr p)"

section \<open>Internal commands\<close>

text \<open>A command without arguments of the internal API; a reply to the guest carries the thread of the request.\<close>

definition send_internal :: "'c chan_ops \<Rightarrow> u64 \<Rightarrow> u64 option \<Rightarrow> 'c \<Rightarrow> 'c res" where
  "send_internal ops cid thread out =
     rbind (co_new ops out 136 0) (\<lambda>(cmd, out).
     let cmd = set_internal cid cmd;
         cmd = (case thread of None \<Rightarrow> cmd | Some t \<Rightarrow> set_base ((base_of cmd)\<lparr>thread_id := t\<rparr>) cmd)
     in co_send ops out cmd)"

definition notify_guest :: "('a, 'c) environ \<Rightarrow> u64 \<Rightarrow> ('a, 'c) worker \<Rightarrow> ('a, 'c) worker res" where
  "notify_guest env thread w =
     rbind (send_internal (env_ops env) COMMAND_END_MIGRATION (Some thread) (w_chan w)) (\<lambda>c. Inr (w\<lparr>w_chan := c\<rparr>))"

definition replay_command ::
  "('a, 'c) environ \<Rightarrow> buffers \<Rightarrow> nat \<Rightarrow> bytes \<Rightarrow> bytes \<Rightarrow> ('a, 'c) worker \<Rightarrow> ('a, 'c) worker res" where
  "replay_command env get hp call_cmd ret_cmd w =
     rbind (c_assert (api_id (base_of call_cmd) = api_id (base_of ret_cmd)) ''call_cmd->api_id == ret_cmd->api_id'') (\<lambda>_.
     case ch_replay (w_apis w ! unat (api_id (base_of call_cmd))) of
       None \<Rightarrow> Inl (AssertFail ''nw_apis[api_id].replay != NULL'')
     | Some k \<Rightarrow> env_replay env k get hp call_cmd ret_cmd w)"

text \<open>The command at a buffer of another command: its size is in its own base structure.\<close>

definition nested_command :: "buffers \<Rightarrow> bytes \<Rightarrow> u64 \<Rightarrow> bytes res" where
  "nested_command get cmd i =
     rbind (get cmd i 136) (\<lambda>b. get cmd i (unat (command_size (base_of b) + region_size (base_of b))))"

definition handle_replace_explicit ::
  "('a, 'c) environ \<Rightarrow> buffers \<Rightarrow> nat \<Rightarrow> bytes \<Rightarrow> ('a, 'c) worker \<Rightarrow> ('a, 'c) worker res" where
  "handle_replace_explicit env get hp cmd w =
     rbind (pool_at w hp) (\<lambda>pool.
     rbind (ava_handle_replace_explicit_state (get cmd) (w_metadata w) (Some pool) cmd) (\<lambda>(f, obj, data).
     Inr (w\<lparr>app := env_replace env f obj data (app w)\<rparr>)))"

definition handle_recorded_pair ::
  "('a, 'c) environ \<Rightarrow> buffers \<Rightarrow> bytes \<Rightarrow> ('a, 'c) worker \<Rightarrow> ('a, 'c) worker res" where
  "handle_recorded_pair env get cmd w =
     rbind (nested_command get cmd (get_u64 136 cmd)) (\<lambda>call_cmd.
     rbind (nested_command get cmd (get_u64 144 cmd)) (\<lambda>ret_cmd.
     replay_command env get (nw_global_handle_pool w) call_cmd ret_cmd w))"

definition live_migration :: "('a, 'c) environ \<Rightarrow> bytes \<Rightarrow> ('a, 'c) worker \<Rightarrow> ('a, 'c) worker res" where
  "live_migration env cmd w =
     (let ops = socket_ops (env_malloc env) (env_io env)
      in rbind (send_internal ops COMMAND_ACCEPT_LIVE_MIGRATION None (env_tcp env)) (\<lambda>out.
         rbind (pool_at w (nw_global_handle_pool w)) (\<lambda>pool.
         rbind (ava_extract_objects_in_pair ops (env_sort env) (env_keys env) (env_extract env (app w)) (env_fuel env)
                  (w_metadata w) (nw_handle_pool_get_live_handles (env_ht_keys env) pool)
                  (Some pool, w_ids w, out, nw_record_command_channel w)) (\<lambda>(p, g, out, lg).
         rbind (send_internal ops COMMAND_END_LIVE_MIGRATION None out) (\<lambda>out.
         notify_guest env (thread_id (base_of cmd))
           (w\<lparr>w_pools := (w_pools w)(nw_global_handle_pool w := p), w_ids := g, nw_record_command_channel := lg,
              w_target := Some out\<rparr>))))))"

text \<open>The first half of a migration within the worker: the transfer log with the recorded calls, the explicit state
  and the end marker. The recorder and a new pool take over.\<close>

definition prepare_migration ::
  "('a, 'c) environ \<Rightarrow> ('a, 'c) worker \<Rightarrow> (command_channel_log \<times> nat \<times> ('a, 'c) worker) res" where
  "prepare_migration env w =
     rbind (pool_at w (nw_global_handle_pool w)) (\<lambda>pool.
     rbind (ava_extract_objects (log_ops (env_write env)) (env_sort env) (env_keys env) (env_extract env (app w)) (env_fuel env)
              (w_metadata w) (nw_handle_pool_get_live_handles (env_ht_keys env) pool)
              (Some pool, w_ids w, command_channel_log_new, nw_record_command_channel w)) (\<lambda>(p, g, transfer_chan, lg).
     rbind (send_internal (log_ops (env_write env)) COMMAND_END_MIGRATION None transfer_chan) (\<lambda>transfer_chan.
     let hp = w_next_pool w
     in Inr (transfer_chan, hp,
          w\<lparr>w_pools := (w_pools w)(nw_global_handle_pool w := p, hp \<mapsto> nw_handle_pool_new), w_next_pool := Suc hp, w_ids := g,
            nw_record_command_channel := command_channel_log_new\<rparr>))))"

definition finish_migration :: "('a, 'c) environ \<Rightarrow> nat \<Rightarrow> bytes \<Rightarrow> ('a, 'c) worker \<Rightarrow> ('a, 'c) worker res" where
  "finish_migration env hp cmd w =
     rbind (pool_at w (nw_global_handle_pool w)) (\<lambda>_.
     notify_guest env (thread_id (base_of cmd))
       (w\<lparr>w_pools := (w_pools w)(nw_global_handle_pool w := None), nw_global_handle_pool := hp\<rparr>))"

section \<open>Dispatch\<close>

text \<open>A command of the internal API runs the handler again from inside the migration loop; the first
  argument bounds the depth of these calls together with the number of commands in the transfer log.\<close>

fun handle_command ::
    "nat \<Rightarrow> ('a, 'c) environ \<Rightarrow> buffers \<Rightarrow> nat \<Rightarrow> nat \<times> bytes \<Rightarrow> ('a, 'c) worker \<times> cmd_heap \<Rightarrow> (('a, 'c) worker \<times> cmd_heap) res"
  and internal_api_handler ::
    "nat \<Rightarrow> ('a, 'c) environ \<Rightarrow> buffers \<Rightarrow> nat \<Rightarrow> bytes \<Rightarrow> ('a, 'c) worker \<times> cmd_heap \<Rightarrow> (('a, 'c) worker \<times> cmd_heap) res"
  and migration_loop ::
    "nat \<Rightarrow> ('a, 'c) environ \<Rightarrow> nat \<Rightarrow> command_channel_log \<Rightarrow> ('a, 'c) worker \<times> cmd_heap \<Rightarrow> (('a, 'c) worker \<times> cmd_heap) res"
where
  "handle_command 0 env get hp bc s = Inl OutOfFuel"
| "handle_command (Suc n) env get hp (blk, cmd) (w, h) =
     (case ch_handle (w_apis w ! unat (api_id (base_of cmd))) of
        None \<Rightarrow> Inl (AssertFail ''nw_apis[api_id].handle != NULL'')
      | Some f \<Rightarrow>
          rbind (case f of Internal_api_handler \<Rightarrow> internal_api_handler n env get hp cmd (w, h)
                 | Api_handler k \<Rightarrow> rbind (env_handle env k get hp cmd w) (\<lambda>w. Inr (w, h))) (\<lambda>(w, h).
          rbind (free_command blk h) (\<lambda>h. Inr (w, h))))"
| "internal_api_handler 0 env get hp cmd s = Inl OutOfFuel"
| "internal_api_handler (Suc n) env get hp cmd (w, h) =
     rbind (c_assert (api_id (base_of cmd) = COMMAND_HANDLER_API) ''cmd->api_id == COMMAND_HANDLER_API'') (\<lambda>_.
     let c = command_id (base_of cmd)
     in if c = COMMAND_HANDLER_SHUTDOWN_API then Inl (ExitProc 0)
        else if c = COMMAND_START_MIGRATION then
          rbind (prepare_migration env w) (\<lambda>(transfer_chan, replay_pool, w).
          rbind (migration_loop n env replay_pool transfer_chan (w, h)) (\<lambda>(w, h).
          rbind (finish_migration env replay_pool cmd w) (\<lambda>w. Inr (w, h))))
        else if c = COMMAND_END_MIGRATION then Inr (w\<lparr>nw_end_migration_flag := True\<rparr>, h)
        else if c = COMMAND_HANDLER_REPLACE_EXPLICIT_STATE then rbind (handle_replace_explicit env get hp cmd w) (\<lambda>w. Inr (w, h))
        else if c = COMMAND_START_LIVE_MIGRATION then rbind (live_migration env cmd w) (\<lambda>w. Inr (w, h))
        else if c = COMMAND_END_LIVE_MIGRATION then Inl (ExitProc 0)
        else if c = COMMAND_ACCEPT_LIVE_MIGRATION then Inr (w, h)
        else if c = COMMAND_HANDLER_RECORDED_PAIR then rbind (handle_recorded_pair env get cmd w) (\<lambda>w. Inr (w, h))
        else Inl (ExitProc 0))"
| "migration_loop 0 env hp transfer_chan s = Inl OutOfFuel"
| "migration_loop (Suc n) env hp transfer_chan (w, h) =
     (case command_channel_load_next_command transfer_chan of
        (None, _) \<Rightarrow> Inl NullDeref
      | (Some call_cmd, transfer_chan) \<Rightarrow>
          let (call_blk, h) = new_block h
          in if api_id (base_of call_cmd) = COMMAND_HANDLER_API
             then if command_id (base_of call_cmd) = COMMAND_END_MIGRATION then Inr (w, h)
                  else rbind (handle_command n env command_channel_load_get_buffer hp (call_blk, call_cmd) (w, h)) (\<lambda>(w, h).
                       rbind (free_command call_blk h) (\<lambda>h. migration_loop n env hp transfer_chan (w, h)))
             else case command_channel_load_next_command transfer_chan of
                    (None, _) \<Rightarrow> Inl NullDeref
                  | (Some ret_cmd, transfer_chan) \<Rightarrow>
                      let (ret_blk, h) = new_block h
                      in rbind (replay_command env command_channel_load_get_buffer hp call_cmd ret_cmd w) (\<lambda>w.
                         rbind (free_command ret_blk h) (\<lambda>h.
                         rbind (free_command call_blk h) (\<lambda>h.
                         migration_loop n env hp transfer_chan (w, h)))))"

definition handle_command_and_notify ::
  "nat \<Rightarrow> ('a, 'c) environ \<Rightarrow> buffers \<Rightarrow> nat \<times> bytes \<Rightarrow> ('a, 'c) worker \<times> cmd_heap \<Rightarrow> (('a, 'c) worker \<times> cmd_heap) res" where
  "handle_command_and_notify n env get bc s = handle_command n env get (nw_global_handle_pool (fst s)) bc s"

section \<open>Starting and stopping the handler thread\<close>

record 'c handler_control =
  init_command_handler_executed :: bool
  nw_global_command_channel :: "'c option"
  nw_handler_thread :: bool

definition init_command_handler :: "(unit \<Rightarrow> 'c) \<Rightarrow> 'c handler_control \<Rightarrow> 'c handler_control" where
  "init_command_handler channel_create s =
     (if \<not> init_command_handler_executed s
      then s\<lparr>nw_global_command_channel := Some (channel_create ()), nw_handler_thread := True, init_command_handler_executed := True\<rparr>
      else s)"

definition destroy_command_handler :: "'c handler_control \<Rightarrow> 'c handler_control" where
  "destroy_command_handler s =
     (if init_command_handler_executed s
      then s\<lparr>nw_handler_thread := False, nw_global_command_channel := None, init_command_handler_executed := False\<rparr>
      else s)"

section \<open>Messages in a transfer log\<close>

definition storable :: "bytes \<Rightarrow> bool" where
  "storable m \<longleftrightarrow> 136 \<le> unat (command_size (base_of m)) \<and> length m < 2 ^ 63 \<and>
     length m = unat (command_size (base_of m)) + unat (region_size (base_of m))"

lemma send_msgs_log:
  assumes "full_writes wr" "\<forall>m \<in> set ms. storable m" "fdata (log_fd c) = enc_log es"
  shows "\<exists>c'. send_msgs (log_ops wr) ms c = Inr c' \<and> fdata (log_fd c') = enc_log (es @ map (Pair 0) ms) \<and>
    read_offset c' = read_offset c"
  using assms(2,3)
proof (induction ms arbitrary: c es)
  case (Cons m ms)
  let ?cs = "unat (command_size (base_of m))"
  have m: "?cs \<le> length m" "unat (region_size (base_of m)) \<le> length (drop ?cs m)"
    "?cs + unat (region_size (base_of m)) < 2 ^ 64" "take ?cs m @ take (unat (region_size (base_of m))) (drop ?cs m) = m"
    using Cons.prems(1) by (simp_all add: storable_def)
  from transfer_refines [OF assms(1) Cons.prems(2) m(1-3)] obtain c1 where
    c1: "command_channel_log_transfer_command wr c m (drop ?cs m) = Inr (of_nat (length (enc_log es)), c1)"
    "fdata (log_fd c1) = enc_log (es @ [(0, m)])" "read_offset c1 = read_offset c" unfolding m(4) by auto
  from Cons.IH [OF _ c1(2)] Cons.prems(1) obtain c2 where
    "send_msgs (log_ops wr) ms c1 = Inr c2" "fdata (log_fd c2) = enc_log ((es @ [(0, m)]) @ map (Pair 0) ms)"
    "read_offset c2 = read_offset c1" by auto
  with c1 show ?case by (auto simp: log_ops_def)
qed simp

text \<open>The marker that ends a transfer.\<close>

lemma send_internal_log:
  assumes "full_writes wr" "fdata (log_fd c) = enc_log es" "length (enc_log es) + 152 < 2 ^ 63"
  shows "\<exists>c' mk. send_internal (log_ops wr) cid None c = Inr c' \<and> fdata (log_fd c') = enc_log (es @ [(0, mk)]) \<and>
    read_offset c' = read_offset c \<and> length mk = 136 \<and> api_id (base_of mk) = COMMAND_HANDLER_API \<and> command_id (base_of mk) = cid"
proof -
  let ?p = "length (enc_log es) + 16"
  have "136 \<le> unat (136 :: u64)" by simp
  from new_command_result [OF assms(1,2) this, of 0] obtain cmd c1 where
    n: "command_channel_log_new_command wr c 136 0 = Inr (cmd, c1)" "length cmd = 136"
    "fdata (log_fd c1) = enc_log es @ enc_metadata 136 0" "read_offset c1 = read_offset c"
    "command_size (base_of cmd) = 136" "command_start_offset cmd = of_nat ?p" by auto
  let ?m = "set_internal cid cmd"
  have m: "length ?m = 136" "base_of ?m = (base_of cmd)\<lparr>api_id := COMMAND_HANDLER_API, command_id := cid\<rparr>"
    using n(2) by (simp_all add: set_internal_simps)
  have "command_start_offset ?m = of_nat ?p" "?p < 2 ^ 63" "length ?m = unat (command_size (base_of ?m))" "?m \<noteq> []"
    using n(5,6) m assms(3) by (auto simp: command_start_offset_def)
  from send_at [OF assms(1) this, of c1] obtain c2 where
    s: "command_channel_log_send_command wr c1 ?m = Inr c2" "fdata (log_fd c2) = splice_at ?p ?m (fdata (log_fd c1))"
    "read_offset c2 = read_offset c1" by auto
  have "fdata (log_fd c2) = enc_log (es @ [(0, ?m)])"
    using s(2) n(3) m(1) splice_at_end [of "enc_log es @ enc_metadata 136 0" ?m] by (simp add: enc_entry_def)
  then show ?thesis using n(1,4) s(1,3) m by (auto simp: send_internal_def log_ops_def)
qed

section \<open>Replaying a transfer log\<close>

fun replay_spec ::
  "('a, 'c) environ \<Rightarrow> nat \<Rightarrow> (bytes \<times> bytes) list \<Rightarrow> ('a, 'c) worker \<Rightarrow> ('a, 'c) worker res" where
  "replay_spec env hp [] w = Inr w"
| "replay_spec env hp ((call_cmd, ret_cmd) # ps) w =
     rbind (replay_command env command_channel_load_get_buffer hp call_cmd ret_cmd w) (replay_spec env hp ps)"

definition flatten :: "(bytes \<times> bytes) list \<Rightarrow> bytes list" where
  "flatten ps = concat (map (\<lambda>(a, b). [a, b]) ps)"

lemma load_next:
  assumes "fdata (log_fd c) = enc_log es" "length (enc_log es) < 2 ^ 63" "i < length es" "read_offset c = of_nat (entry_off es i)"
  shows "\<exists>c'. command_channel_load_next_command c = (Some (snd (es ! i)), c') \<and> fdata (log_fd c') = enc_log es \<and>
    read_offset c' = of_nat (entry_off es (Suc i))"
  using load_at [OF assms(1-3), of "- 1"] assms(4) by (auto simp: command_channel_load_next_command_def)

definition heap_ok :: "cmd_heap \<Rightarrow> bool" where
  "heap_ok h \<longleftrightarrow> (\<forall>i \<in> fst h. i < snd h)"

lemma next_entry:
  assumes "map snd (drop i es) = x # xs"
  shows "i < length es" "snd (es ! i) = x" "map snd (drop (Suc i) es) = xs"
proof -
  show i: "i < length es" using assms by (cases "i < length es") auto
  from assms show "snd (es ! i) = x" "map snd (drop (Suc i) es) = xs" by (simp_all add: Cons_nth_drop_Suc [OF i, symmetric])
qed

lemma flatten_simps [simp]: "flatten [] = []" "flatten ((a, b) # ps) = a # b # flatten ps"
  by (simp_all add: flatten_def)

lemma migration_loop_replays:
  assumes "fdata (log_fd c) = enc_log es" "length (enc_log es) < 2 ^ 63" "read_offset c = of_nat (entry_off es i)"
    "map snd (drop i es) = flatten ps @ [mk]" "\<forall>(a, b) \<in> set ps. api_id (base_of a) \<noteq> COMMAND_HANDLER_API"
    "api_id (base_of mk) = COMMAND_HANDLER_API" "command_id (base_of mk) = COMMAND_END_MIGRATION" "heap_ok h" "length ps < n"
  shows "migration_loop n env hp c (w, h) =
    rbind (replay_spec env hp ps w) (\<lambda>w. Inr (w, insert (snd h + 2 * length ps) (fst h), Suc (snd h + 2 * length ps)))"
  using assms(1,3-5,8,9)
proof (induction ps arbitrary: n c i w h)
  case Nil
  then obtain k where k: "n = Suc k" by (cases n) auto
  have i: "map snd (drop i es) = mk # []" using Nil.prems(3) by simp
  from load_next [OF Nil.prems(1) assms(2) next_entry(1) [OF i] Nil.prems(2)] next_entry(2) [OF i] show ?case
    unfolding k using assms(6,7) by (auto simp: new_block_def)
next
  case (Cons p ps)
  obtain a b where p: "p = (a, b)" by (cases p)
  from Cons.prems(6) obtain k where k: "n = Suc k" "length ps < k" by (cases n) auto
  have i: "map snd (drop i es) = a # b # flatten ps @ [mk]" using Cons.prems(3) by (simp add: p)
  have j: "map snd (drop (Suc i) es) = b # flatten ps @ [mk]" by (rule next_entry(3) [OF i])
  from load_next [OF Cons.prems(1) assms(2) next_entry(1) [OF i] Cons.prems(2)] next_entry(2) [OF i] obtain c1 where
    c1: "command_channel_load_next_command c = (Some a, c1)" "fdata (log_fd c1) = enc_log es"
    "read_offset c1 = of_nat (entry_off es (Suc i))" by auto
  from load_next [OF c1(2) assms(2) next_entry(1) [OF j] c1(3)] next_entry(2) [OF j] obtain c2 where
    c2: "command_channel_load_next_command c1 = (Some b, c2)" "fdata (log_fd c2) = enc_log es"
    "read_offset c2 = of_nat (entry_off es (Suc (Suc i)))" by auto
  have a: "api_id (base_of a) \<noteq> COMMAND_HANDLER_API" "\<forall>(a, b) \<in> set ps. api_id (base_of a) \<noteq> COMMAND_HANDLER_API"
    using Cons.prems(4) by (auto simp: p)
  obtain F s where h: "h = (F, s)" by (cases h)
  have "s \<notin> F" "Suc s \<notin> F" using Cons.prems(5) by (auto simp: h heap_ok_def)
  then have F: "insert (Suc s) (insert s F) - {Suc s} - {s} = F" by auto
  have ok: "heap_ok (F, Suc (Suc s))" using Cons.prems(5) by (auto simp: h heap_ok_def)
  have ih: "migration_loop k env hp c2 (w, F, Suc (Suc s)) = rbind (replay_spec env hp ps w)
      (\<lambda>w. Inr (w, insert (Suc (Suc s) + 2 * length ps) F, Suc (Suc (Suc s) + 2 * length ps)))" for w
    using Cons.IH [OF c2(2,3) next_entry(3) [OF j] a(2) ok k(2)] by simp
  show ?case unfolding k(1) h p
    using c1(1) c2(1) a(1) F by (simp add: new_block_def free_command_def ih rbind_assoc)
qed

section \<open>Migration inside a worker\<close>

lemma pair_msgs_flatten:
  assumes "pairs_in_log es qs" "length (enc_log es) < 2 ^ 63" "\<forall>e \<in> set es. fst e \<noteq> 1"
  shows "pair_msgs es qs = flatten (map (\<lambda>(a, b). (hd (msgs_at es a), hd (msgs_at es b))) qs)"
    "\<forall>(a, b) \<in> set qs. hd (msgs_at es a) \<in> snd ` set es \<and> hd (msgs_at es b) \<in> snd ` set es"
proof -
  have one: "msgs_at es a = [hd (msgs_at es a)]" "hd (msgs_at es a) \<in> snd ` set es"
    if "\<exists>i < length es. a = of_nat (entry_off es i)" for a
    using that msgs_at_entry [OF _ assms(2)] assms(3) by auto
  have in_log: "\<exists>i < length es. a = of_nat (entry_off es i)" "\<exists>i < length es. b = of_nat (entry_off es i)"
    if "(a, b) \<in> set qs" for a b using assms(1) that by (auto simp: pairs_in_log_def)
  show "\<forall>(a, b) \<in> set qs. hd (msgs_at es a) \<in> snd ` set es \<and> hd (msgs_at es b) \<in> snd ` set es"
    using in_log one(2) by blast
  have "msgs_at es a @ msgs_at es b = [hd (msgs_at es a), hd (msgs_at es b)]" if "(a, b) \<in> set qs" for a b
    by (subst one(1) [OF in_log(1) [OF that]], subst one(1) [OF in_log(2) [OF that]]) simp
  then show "pair_msgs es qs = flatten (map (\<lambda>(a, b). (hd (msgs_at es a), hd (msgs_at es b))) qs)"
    unfolding pair_msgs_def flatten_def map_map by (intro arg_cong [of _ _ concat] map_cong) auto
qed

lemma pairs_bound:
  assumes "pairs_in_log es qs" "sorted_wrt (<) (map fst qs)"
  shows "length qs \<le> length es"
proof -
  have d: "distinct (map fst qs)" using assms(2) by (simp add: strict_sorted_iff)
  have "fst ` set qs \<subseteq> (\<lambda>i. of_nat (entry_off es i)) ` {..<length es}" using assms(1) by (auto simp: pairs_in_log_def)
  then have "card (fst ` set qs) \<le> card {..<length es}" by (rule surj_card_le [rotated]) simp
  moreover have "card (fst ` set qs) = length qs" using distinct_card [OF d] by simp
  ultimately show ?thesis by simp
qed

lemma enc_log_bound: "\<forall>m \<in> set ms. length m \<le> B \<Longrightarrow> length (enc_log (map (Pair 0) ms)) \<le> length ms * (16 + B)"
  by (induction ms) (auto simp: algebra_simps)

lemma length_flatten: "length (flatten ps) = 2 * length ps"
  by (induction ps) auto

text \<open>A worker whose recorded session can be migrated: the global pool is live, the log holds complete commands of API
  calls, none of them expunged, of at most \<open>B\<close> bytes each, the recorded calls of the objects that the live handles
  depend on are in it, and no object has explicit state.\<close>

definition live_objects :: "('a, 'c) environ \<Rightarrow> ('a, 'c) worker \<Rightarrow> pointer set" where
  "live_objects env w =
     (case w_pools w (nw_global_handle_pool w) of None \<Rightarrow> {}
      | Some pool \<Rightarrow> reachable_objects (w_metadata w) (nw_handle_pool_get_live_handles (env_ht_keys env) pool))"

definition migratable :: "('a, 'c) environ \<Rightarrow> ('a, 'c) worker \<Rightarrow> log_entry list \<Rightarrow> nat \<Rightarrow> bool" where
  "migratable env w es B \<longleftrightarrow>
     w_pools w (nw_global_handle_pool w) \<noteq> None \<and> finite (dom (w_metadata w)) \<and> card (dom (w_metadata w)) < env_fuel env \<and>
     fdata (log_fd (nw_record_command_channel w)) = enc_log es \<and> length (enc_log es) < 2 ^ 63 \<and>
     (\<forall>x \<in> live_objects env w. pairs_in_log es (calls_of (w_metadata w) x)) \<and>
     (\<forall>e \<in> set es. fst e \<noteq> 1 \<and> storable (snd e) \<and> length (snd e) \<le> B \<and> api_id (base_of (snd e)) \<noteq> COMMAND_HANDLER_API) \<and>
     2 * length es * (16 + B) + 152 < 2 ^ 63 \<and> (\<forall>x md. w_metadata w x = Some md \<longrightarrow> md_extract md = null_ptr)"

text \<open>A selection of the recorded calls of some objects: every call offset once, in increasing order.\<close>

definition calls_in_order :: "metadata_map \<Rightarrow> pointer set \<Rightarrow> (u64 \<times> u64) list \<Rightarrow> bool" where
  "calls_in_order mm R qs \<longleftrightarrow> sorted_wrt (<) (map fst qs) \<and> set qs \<subseteq> (\<Union>x \<in> R. set (calls_of mm x)) \<and>
     fst ` set qs = (\<Union>x \<in> R. fst ` set (calls_of mm x))"

definition logged_pairs :: "log_entry list \<Rightarrow> (u64 \<times> u64) list \<Rightarrow> (bytes \<times> bytes) list" where
  "logged_pairs es qs = map (\<lambda>(a, b). (hd (msgs_at es a), hd (msgs_at es b))) qs"

text \<open>The transfer log that migration prepares: the recorded calls and replies of the live objects, then the
  end marker.\<close>

lemma prepare_migration_log:
  assumes mig: "migratable env w es B" and gs: "glib_sort (env_sort env)" and wr: "full_writes (env_write env)"
  shows "\<exists>qs tlog mk. prepare_migration env w = Inr (tlog, w_next_pool w,
      w\<lparr>w_pools := (w_pools w)(w_next_pool w \<mapsto> nw_handle_pool_new), w_next_pool := Suc (w_next_pool w),
        nw_record_command_channel := command_channel_log_new\<rparr>) \<and>
    fdata (log_fd tlog) = enc_log (map (Pair 0) (flatten (logged_pairs es qs) @ [mk])) \<and>
    length (enc_log (map (Pair 0) (flatten (logged_pairs es qs) @ [mk]))) < 2 ^ 63 \<and>
    read_offset tlog = 0 \<and> api_id (base_of mk) = COMMAND_HANDLER_API \<and> command_id (base_of mk) = COMMAND_END_MIGRATION \<and>
    calls_in_order (w_metadata w) (live_objects env w) qs \<and> pairs_in_log es qs \<and> length qs \<le> length es"
proof -
  from mig obtain pool where pool: "w_pools w (nw_global_handle_pool w) = Some pool" by (auto simp: migratable_def)
  have R: "live_objects env w = reachable_objects (w_metadata w) (nw_handle_pool_get_live_handles (env_ht_keys env) pool)"
    using pool by (simp add: live_objects_def)
  have fin: "finite (dom (w_metadata w))" "card (dom (w_metadata w)) < env_fuel env"
    and lg: "fdata (log_fd (nw_record_command_channel w)) = enc_log es" "length (enc_log es) < 2 ^ 63"
    and es: "\<forall>e \<in> set es. fst e \<noteq> 1 \<and> storable (snd e) \<and> length (snd e) \<le> B" "2 * length es * (16 + B) + 152 < 2 ^ 63"
    and ex: "\<forall>x md. w_metadata w x = Some md \<longrightarrow> md_extract md = null_ptr"
    and ps: "\<forall>x \<in> reachable_objects (w_metadata w) (nw_handle_pool_get_live_handles (env_ht_keys env) pool).
      pairs_in_log es (calls_of (w_metadata w) x)" using mig unfolding migratable_def R by blast+
  let ?roots = "nw_handle_pool_get_live_handles (env_ht_keys env) pool" and ?ops = "log_ops (env_write env)"
  from extract_forwards [OF fin gs lg ps ex, where ops = ?ops and keys = "env_keys env" and ext = "env_extract env (app w)"
      and pool = "Some pool" and g = "w_ids w"]
  obtain qs lg' where q: "\<forall>out. ava_extract_objects ?ops (env_sort env) (env_keys env) (env_extract env (app w)) (env_fuel env)
        (w_metadata w) ?roots (Some pool, w_ids w, out, nw_record_command_channel w) =
      rbind (send_msgs ?ops (pair_msgs es qs) out) (\<lambda>out. Inr (Some pool, w_ids w, out, lg'))"
    and c: "sorted_wrt (<) (map fst qs)"
      "set qs \<subseteq> (\<Union>x \<in> reachable_objects (w_metadata w) ?roots. set (calls_of (w_metadata w) x))"
      "fst ` set qs = (\<Union>x \<in> reachable_objects (w_metadata w) ?roots. fst ` set (calls_of (w_metadata w) x))" "pairs_in_log es qs"
    by (elim exE conjE) (rule that)
  have "calls_in_order (w_metadata w) (live_objects env w) qs" unfolding calls_in_order_def R by (intro conjI c(1-3))
  note r = this c(4)
  have len: "length qs \<le> length es" using pairs_bound [OF r(2)] r(1) by (simp add: calls_in_order_def)
  let ?ps = "logged_pairs es qs"
  have fl: "pair_msgs es qs = flatten ?ps" unfolding logged_pairs_def by (rule pair_msgs_flatten(1) [OF r(2) lg(2)]) (use es(1) in blast)
  have sub: "set (pair_msgs es qs) \<subseteq> snd ` set es" by (rule pair_msgs_subset)
  have m: "\<forall>m \<in> set (pair_msgs es qs). storable m" "\<forall>m \<in> set (pair_msgs es qs). length m \<le> B"
    using sub es(1) by (auto dest!: subsetD)
  from send_msgs_log [OF wr m(1), of command_channel_log_new "[]"] obtain c where
    c: "send_msgs ?ops (pair_msgs es qs) command_channel_log_new = Inr c"
    "fdata (log_fd c) = enc_log (map (Pair 0) (pair_msgs es qs))" "read_offset c = 0"
    by (auto simp: command_channel_log_new_def)
  have "length (enc_log (map (Pair 0) (pair_msgs es qs))) \<le> length (pair_msgs es qs) * (16 + B)" by (rule enc_log_bound [OF m(2)])
  also have "\<dots> \<le> 2 * length es * (16 + B)" unfolding fl length_flatten using len by (intro mult_right_mono) (simp_all add: logged_pairs_def)
  finally have bd: "length (enc_log (map (Pair 0) (pair_msgs es qs))) + 152 < 2 ^ 63" using es(2) by linarith
  from send_internal_log [OF wr c(2) bd, of COMMAND_END_MIGRATION] obtain c' mk where
    e: "send_internal ?ops COMMAND_END_MIGRATION None c = Inr c'" "fdata (log_fd c') = enc_log (map (Pair 0) (pair_msgs es qs) @ [(0, mk)])"
    "read_offset c' = read_offset c" "length mk = 136" "api_id (base_of mk) = COMMAND_HANDLER_API" "command_id (base_of mk) = COMMAND_END_MIGRATION"
    by (elim exE conjE) (rule that)
  have ro: "read_offset c' = 0" using e(3) c(3) by simp
  have p: "prepare_migration env w = Inr (c', w_next_pool w,
      w\<lparr>w_pools := (w_pools w)(w_next_pool w \<mapsto> nw_handle_pool_new), w_next_pool := Suc (w_next_pool w),
        nw_record_command_channel := command_channel_log_new\<rparr>)"
    using pool q c(1) e(1) by (simp add: prepare_migration_def pool_at_def Let_def fun_upd_idem)
  have d: "fdata (log_fd c') = enc_log (map (Pair 0) (flatten ?ps @ [mk]))" using e(2) by (simp add: fl)
  have l: "length (enc_log (map (Pair 0) (flatten ?ps @ [mk]))) < 2 ^ 63" using bd e(4) by (simp add: fl)
  show ?thesis by (intro exI [of _ qs] exI [of _ c'] exI [of _ mk] conjI p d l ro e(5) e(6) r len)
qed

text \<open>C1: A migration inside the worker replays into a fresh handle pool exactly the recorded calls of the objects that
  the live handles depend on: each distinct call once and in the order of the log, paired with its reply. It
  then retires the old pool and notifies the guest; every command that was read back is released exactly once, except the
  end marker, which stays allocated.\<close>

theorem migration_replays_calls:
  assumes mig: "migratable env w es B" and gs: "glib_sort (env_sort env)" and wr: "full_writes (env_write env)"
    and cmd: "api_id (base_of cmd) = COMMAND_HANDLER_API" "command_id (base_of cmd) = COMMAND_START_MIGRATION"
    and h: "heap_ok h" "length es < n"
  shows "\<exists>qs k. calls_in_order (w_metadata w) (live_objects env w) qs \<and> k \<notin> fst h \<and>
    internal_api_handler (Suc n) env get hp cmd (w, h) =
      rbind (replay_spec env (w_next_pool w) (logged_pairs es qs)
        (w\<lparr>w_pools := (w_pools w)(w_next_pool w \<mapsto> nw_handle_pool_new), w_next_pool := Suc (w_next_pool w),
           nw_record_command_channel := command_channel_log_new\<rparr>)) (\<lambda>w'.
      rbind (finish_migration env (w_next_pool w) cmd w') (\<lambda>w'. Inr (w', insert k (fst h), Suc k)))"
proof -
  let ?w = "w\<lparr>w_pools := (w_pools w)(w_next_pool w \<mapsto> nw_handle_pool_new), w_next_pool := Suc (w_next_pool w),
        nw_record_command_channel := command_channel_log_new\<rparr>"
  from prepare_migration_log [OF mig gs wr] obtain qs tlog mk where
    p: "prepare_migration env w = Inr (tlog, w_next_pool w, ?w)"
    and l: "fdata (log_fd tlog) = enc_log (map (Pair 0) (flatten (logged_pairs es qs) @ [mk]))"
      "length (enc_log (map (Pair 0) (flatten (logged_pairs es qs) @ [mk]))) < 2 ^ 63" "read_offset tlog = 0"
    and mk: "api_id (base_of mk) = COMMAND_HANDLER_API" "command_id (base_of mk) = COMMAND_END_MIGRATION"
    and q: "calls_in_order (w_metadata w) (live_objects env w) qs" "pairs_in_log es qs" "length qs \<le> length es"
    by (elim exE conjE) (rule that)
  have m: "length (enc_log es) < 2 ^ 63" "\<forall>e \<in> set es. fst e \<noteq> 1"
    "\<forall>e \<in> set es. api_id (base_of (snd e)) \<noteq> COMMAND_HANDLER_API" using mig by (simp_all add: migratable_def)
  have api: "\<forall>(a, b) \<in> set (logged_pairs es qs). api_id (base_of a) \<noteq> COMMAND_HANDLER_API"
    using pair_msgs_flatten(2) [OF q(2) m(1,2)] m(3) by (fastforce simp: logged_pairs_def)
  let ?k = "snd h + 2 * length qs"
  have loop: "migration_loop n env (w_next_pool w) tlog (?w, h) =
      rbind (replay_spec env (w_next_pool w) (logged_pairs es qs) ?w) (\<lambda>w. Inr (w, insert ?k (fst h), Suc ?k))"
    using migration_loop_replays [OF l(1,2) _ _ api mk h(1), of 0 n env "w_next_pool w" ?w] l(3) q(3) h(2)
    by (simp add: logged_pairs_def entry_off_def comp_def)
  have "internal_api_handler (Suc n) env get hp cmd (w, h) =
      rbind (replay_spec env (w_next_pool w) (logged_pairs es qs) ?w) (\<lambda>w'.
      rbind (finish_migration env (w_next_pool w) cmd w') (\<lambda>w'. Inr (w', insert ?k (fst h), Suc ?k)))"
    using cmd p loop
    by (simp add: COMMAND_START_MIGRATION_def COMMAND_HANDLER_SHUTDOWN_API_def Let_def rbind_assoc)
  moreover have "?k \<notin> fst h" using h(1) by (auto simp: heap_ok_def)
  ultimately show ?thesis using q(1) by (intro exI [of _ qs] exI [of _ ?k] conjI)
qed

text \<open>A worker with two objects that depend on each other, one recorded call and an API that collects what it
  replays.\<close>

definition ex_call :: "u8 \<Rightarrow> bytes" where
  "ex_call v = set_base (zero_base\<lparr>api_id := 7, command_size := 136, region_size := 1\<rparr>) (replicate 136 0) @ [v]"

lemma ex_call_simps [simp]:
  "length (ex_call v) = 137" "base_of (ex_call v) = zero_base\<lparr>api_id := 7, command_size := 136, region_size := 1\<rparr>"
  by (simp_all add: ex_call_def base_of_append base_ok_def zero_base_def)

definition ex_calls :: "log_entry list" where
  "ex_calls = [(0, ex_call 1), (0, ex_call 2)]"

definition ex_objects :: metadata_map where
  "ex_objects = [16 \<mapsto> md_zero\<lparr>recorded_calls := Some [(0, 153)], dependencies := Some [32]\<rparr>,
     32 \<mapsto> md_zero\<lparr>recorded_calls := Some [(0, 153)], dependencies := Some [16]\<rparr>]"

definition ex_env :: "((bytes \<times> bytes) list, command_channel_socket) environ" where
  "ex_env = \<lparr>env_ops = socket_ops (\<lambda>n. replicate n 9) (\<lambda>_ _. 1), env_handle = (\<lambda>k get hp cmd w. Inr w),
     env_replay = (\<lambda>k get hp a b w. Inr (w\<lparr>app := app w @ [(a, b)]\<rparr>)), env_replace = (\<lambda>f obj data a. a),
     env_extract = (\<lambda>a f obj. None), env_write = (\<lambda>_. int), env_sort = sort_key fst, env_keys = (\<lambda>_. []),
     env_ht_keys = (\<lambda>_. [16]), env_fuel = 3, env_malloc = (\<lambda>n. replicate n 9), env_io = (\<lambda>_ _. 1),
     env_tcp = \<lparr>sock_vm_id = 0, sock_out = [], sock_in = []\<rparr>\<rparr>"

definition ex_worker :: "((bytes \<times> bytes) list, command_channel_socket) worker" where
  "ex_worker = \<lparr>app = [], w_chan = \<lparr>sock_vm_id = 1, sock_out = [], sock_in = []\<rparr>,
     w_apis = nw_apis_init[7 := \<lparr>ch_replay = Some 0, ch_handle = Some (Api_handler 0), ch_print = None\<rparr>],
     w_pools = [0 \<mapsto> nw_handle_pool_new], w_next_pool = 1, nw_global_handle_pool = 0, w_ids = id_gen_init,
     w_metadata = ex_objects, nw_record_command_channel = \<lparr>log_fd = \<lparr>fdata = enc_log ex_calls, fpos = 0\<rparr>, read_offset = 0\<rparr>,
     nw_end_migration_flag = False, w_target = None\<rparr>"

lemma ex_calls_facts:
  "length (enc_log ex_calls) < 2 ^ 63" "entry_off ex_calls 0 = 0" "entry_off ex_calls (Suc 0) = 153" "length ex_calls = Suc (Suc 0)"
  by (simp_all add: ex_calls_def entry_off_def)

lemma ex_objects_facts:
  "dom ex_objects = {16, 32}" "x \<noteq> 16 \<Longrightarrow> x \<noteq> 32 \<Longrightarrow> calls_of ex_objects x = []" "calls_of ex_objects 16 = [(0, 153)]"
  "calls_of ex_objects 32 = [(0, 153)]" "ex_objects x = Some md \<Longrightarrow> md_extract md = null_ptr"
  by (auto simp: ex_objects_def calls_of_def md_zero_def split: if_splits)

lemma ex_pairs: "pairs_in_log ex_calls [(0, 153)]" "logged_pairs ex_calls [(0, 153)] = [(ex_call 1, ex_call 2)]"
proof -
  show "pairs_in_log ex_calls [(0, 153)]"
    unfolding pairs_in_log_def using ex_calls_facts(2-4) by (auto intro: exI [of _ 0] exI [of _ "Suc 0"])
  show "logged_pairs ex_calls [(0, 153)] = [(ex_call 1, ex_call 2)]"
    using msgs_at_entry [OF _ ex_calls_facts(1), of 0] msgs_at_entry [OF _ ex_calls_facts(1), of "Suc 0"]
    by (simp add: logged_pairs_def ex_calls_facts) (simp add: ex_calls_def)
qed

lemma glib_sort_key: "glib_sort (sort_key fst)"
  using sorted_sort_key [of "fst :: u64 \<times> u64 \<Rightarrow> u64"] by (simp add: glib_sort_def order_by_a_le sorted_map)

lemma ex_migratable: "migratable ex_env ex_worker ex_calls 137"
proof -
  have "pairs_in_log ex_calls (calls_of ex_objects x)" for x
    using ex_objects_facts(2) [of x] ex_objects_facts(3,4) ex_pairs(1) by (cases "x = 16 \<or> x = 32") (auto simp: pairs_in_log_def)
  moreover have "\<forall>e \<in> set ex_calls. fst e \<noteq> 1 \<and> storable (snd e) \<and> length (snd e) \<le> 137 \<and> api_id (base_of (snd e)) \<noteq> COMMAND_HANDLER_API"
    by (simp add: ex_calls_def storable_def COMMAND_HANDLER_API_def)
  ultimately show ?thesis
    using ex_calls_facts(1,4) ex_objects_facts(1,5) by (simp add: migratable_def ex_worker_def ex_env_def)
qed

lemma send_internal_socket:
  assumes "malloc_ok mal" "io_progress os"
  shows "\<exists>c'. send_internal (socket_ops mal os) cid t c = Inr c'"
proof -
  from sock_new_ok [OF assms(1), of 136 0 c] obtain cmd where
    n: "command_channel_socket_new_command mal c 136 0 = Inr cmd" "length cmd = 136" "command_size (base_of cmd) = 136"
    "region_size (base_of cmd) = 0" by auto
  let ?m = "set_internal cid cmd"
  let ?f = "case t of None \<Rightarrow> ?m | Some t \<Rightarrow> set_base ((base_of ?m)\<lparr>thread_id := t\<rparr>) ?m"
  have m: "length ?m = 136" "base_of ?m = (base_of cmd)\<lparr>api_id := COMMAND_HANDLER_API, command_id := cid\<rparr>"
    using n(2) by (simp_all add: set_internal_simps)
  have "base_ok ((base_of ?m)\<lparr>thread_id := t\<rparr>)" for t using base_ok_base_of [of ?m] m(1) by (simp add: base_ok_def)
  then have "sendable ?f" using m n(3,4) by (cases t) (simp_all add: sendable_def)
  from sock_send_ok [OF assms(2) this, of c] show ?thesis
    using n(1) by (auto simp: send_internal_def socket_ops_def Let_def)
qed

theorem migration_replays_calls_witness:
  "\<exists>w' h'. internal_api_handler (Suc 3) ex_env command_channel_socket_get_buffer 0 (set_internal COMMAND_START_MIGRATION (ex_cmd 0))
      (ex_worker, {}, 0) = Inr (w', h') \<and>
    app w' = [(ex_call 1, ex_call 2)] \<and> nw_global_handle_pool w' = 1 \<and> w_pools w' 0 = None \<and> w_pools w' 1 = Some nw_handle_pool_new"
proof -
  let ?cmd = "set_internal COMMAND_START_MIGRATION (ex_cmd 0)"
  have cmd: "api_id (base_of ?cmd) = COMMAND_HANDLER_API" "command_id (base_of ?cmd) = COMMAND_START_MIGRATION"
    by (simp_all add: set_internal_simps)
  have e: "glib_sort (env_sort ex_env)" "full_writes (env_write ex_env)" "heap_ok ({}, 0)" "length ex_calls < 3"
    by (simp_all add: ex_env_def glib_sort_key full_writes_def heap_ok_def ex_calls_facts)
  from migration_replays_calls [OF ex_migratable e(1,2) cmd e(3,4), of command_channel_socket_get_buffer 0] obtain qs k where
    q: "calls_in_order (w_metadata ex_worker) (live_objects ex_env ex_worker) qs"
    and r: "internal_api_handler (Suc 3) ex_env command_channel_socket_get_buffer 0 ?cmd (ex_worker, {}, 0) =
      rbind (replay_spec ex_env (w_next_pool ex_worker) (logged_pairs ex_calls qs)
        (ex_worker\<lparr>w_pools := (w_pools ex_worker)(w_next_pool ex_worker \<mapsto> nw_handle_pool_new), w_next_pool := Suc (w_next_pool ex_worker),
           nw_record_command_channel := command_channel_log_new\<rparr>)) (\<lambda>w'.
      rbind (finish_migration ex_env (w_next_pool ex_worker) ?cmd w') (\<lambda>w'. Inr (w', insert k (fst ({}, 0 :: nat)), Suc k)))"
    by (elim exE conjE) (rule that)
  have all: "set (calls_of ex_objects x) \<subseteq> {(0, 153)}" for x
    using ex_objects_facts(2) [of x] ex_objects_facts(3,4) by (cases "x = 16 \<or> x = 32") auto
  have "16 \<in> live_objects ex_env ex_worker"
    by (auto simp: live_objects_def ex_worker_def ex_env_def reachable_objects_def nw_handle_pool_get_live_handles_def)
  moreover have "w_metadata ex_worker = ex_objects" by (simp add: ex_worker_def)
  ultimately have "set qs \<subseteq> {(0, 153)}" "qs \<noteq> []" "distinct qs"
    using q all ex_objects_facts(3) by (fastforce simp: calls_in_order_def strict_sorted_iff distinct_map)+
  then have "qs = [(0, 153)]" by (cases qs; cases "tl qs") auto
  then have lp: "logged_pairs ex_calls qs = [(ex_call 1, ex_call 2)]" by (simp add: ex_pairs(2))
  have "malloc_ok (\<lambda>n. replicate n 9)" "io_progress (\<lambda>_ _. 1)" by (simp_all add: malloc_ok_def io_progress_def)
  from send_internal_socket [OF this, of COMMAND_END_MIGRATION "Some (thread_id (base_of ?cmd))" "w_chan ex_worker"] obtain c' where
    "send_internal (socket_ops (\<lambda>n. replicate n 9) (\<lambda>_ _. 1)) COMMAND_END_MIGRATION (Some (thread_id (base_of ?cmd))) (w_chan ex_worker) = Inr c'"
    by (elim exE)
  then show ?thesis unfolding r lp
    by (simp add: replay_command_def finish_migration_def notify_guest_def pool_at_def)
       (simp add: ex_worker_def ex_env_def nw_apis_init_def MAX_API_ID_def zero_base_def)
qed

section \<open>Registration and release\<close>

text \<open>C36: A handler that was registered for an API receives the commands of this API and of no other, the command is
  released exactly once after the handler ran, and a second registration for the same API is refused.\<close>

theorem registered_handler_dispatch:
  assumes "length apis = MAX_API_ID" "register_command_handler i (Some (Api_handler k)) p r apis = Inr apis'"
    and "w_apis w = apis'" "blk \<in> fst h"
  shows "0 \<le> i \<and> i < 256 \<and> ch_handle (apis ! nat i) = None \<and>
    register_command_handler i f q t apis' = Inl (AssertFail ''Only one handler can be registered for each API id'') \<and>
    (if int (unat (api_id (base_of cmd))) = i
     then handle_command (Suc n) env get hp (blk, cmd) (w, h) =
       rbind (env_handle env k get hp cmd w) (\<lambda>w. Inr (w, fst h - {blk}, snd h))
     else w_apis w ! unat (api_id (base_of cmd)) = apis ! unat (api_id (base_of cmd)))"
proof -
  have i: "0 \<le> i" "i < 256" "ch_handle (apis ! nat i) = None" and a: "apis' = apis[nat i := \<lparr>ch_replay = r, ch_handle = Some (Api_handler k), ch_print = p\<rparr>]"
    using assms(2) by (auto simp: register_command_handler_def MAX_API_ID_def res_simps split: if_splits)
  then have n: "nat i < length apis" using assms(1) by (simp add: MAX_API_ID_def)
  have "handle_command (Suc n) env get hp (blk, cmd) (w, h) =
       rbind (env_handle env k get hp cmd w) (\<lambda>w. Inr (w, fst h - {blk}, snd h))" if "int (unat (api_id (base_of cmd))) = i"
  proof -
    have "unat (api_id (base_of cmd)) = nat i" using that by linarith
    then show ?thesis using assms(3,4) n by (cases h) (simp add: a rbind_assoc free_command_def)
  qed
  moreover have "w_apis w ! unat (api_id (base_of cmd)) = apis ! unat (api_id (base_of cmd))" if "int (unat (api_id (base_of cmd))) \<noteq> i"
  proof -
    have "nat i \<noteq> unat (api_id (base_of cmd))" using that i(1) by linarith
    then show ?thesis using assms(3) by (simp add: a)
  qed
  ultimately show ?thesis using i n by (auto simp: register_command_handler_def MAX_API_ID_def a)
qed

theorem registered_handler_dispatch_witness:
  "register_command_handler 7 None None None (w_apis ex_worker) = Inl (AssertFail ''Only one handler can be registered for each API id'') \<and>
   handle_command (Suc 0) ex_env command_channel_socket_get_buffer 0 (3, ex_call 1) (ex_worker, {3}, 4) = Inr (ex_worker, {}, 4) \<and>
   w_apis ex_worker ! 0 = nw_apis_init ! 0"
proof -
  have l: "length nw_apis_init = MAX_API_ID" by (simp add: nw_apis_init_def)
  have r: "register_command_handler 7 (Some (Api_handler 0)) None (Some 0) nw_apis_init =
      Inr (nw_apis_init[7 := \<lparr>ch_replay = Some 0, ch_handle = Some (Api_handler 0), ch_print = None\<rparr>])"
    by (simp add: register_command_handler_def MAX_API_ID_def nw_apis_init_def)
  have w: "w_apis ex_worker = nw_apis_init[7 := \<lparr>ch_replay = Some 0, ch_handle = Some (Api_handler 0), ch_print = None\<rparr>]"
    by (simp add: ex_worker_def)
  have b: "3 \<in> fst ({3}, 4 :: nat)" by simp
  show ?thesis
    using registered_handler_dispatch [OF l r w b, of None None None "ex_call 1" 0 ex_env command_channel_socket_get_buffer 0]
      registered_handler_dispatch [OF l r w b, of None None None "ex_cmd 0" 0 ex_env command_channel_socket_get_buffer 0]
    by (simp add: w zero_base_def ex_env_def)
qed

text \<open>A command with explicit state in the transfer log is released twice: once by \<open>handle_command\<close> and once more by the
  loop that read it, so migration of an object with explicit state ends in a double free.\<close>

theorem explicit_state_freed_twice:
  assumes "command_channel_load_next_command tl1 = (Some m, tl2)"
    and "api_id (base_of m) = COMMAND_HANDLER_API" "command_id (base_of m) = COMMAND_HANDLER_REPLACE_EXPLICIT_STATE"
    and "ch_handle (w_apis w ! 0) = Some Internal_api_handler" "heap_ok h"
    and "handle_replace_explicit env command_channel_load_get_buffer hp m w = Inr w'"
  shows "migration_loop (Suc (Suc (Suc n))) env hp tl1 (w, h) = Inl DoubleFree"
proof -
  have n: "snd h \<notin> fst h" using assms(5) by (auto simp: heap_ok_def)
  then have "insert (snd h) (fst h) - {snd h} = fst h" by auto
  then show ?thesis
    using assms n by (simp add: COMMAND_HANDLER_API_def COMMAND_HANDLER_REPLACE_EXPLICIT_STATE_def COMMAND_END_MIGRATION_def
        COMMAND_HANDLER_SHUTDOWN_API_def COMMAND_START_MIGRATION_def Let_def new_block_def free_command_def)
qed

definition ex_replace :: bytes where
  "ex_replace = put_u64 152 3 (put_u64 144 160 (put_u64 136 16
     (set_internal COMMAND_HANDLER_REPLACE_EXPLICIT_STATE
       (set_base (zero_base\<lparr>command_size := 160, region_size := 3\<rparr>) (replicate 160 0))))) @ [1, 2, 3]"

definition ex_target :: "((bytes \<times> bytes) list, command_channel_socket) worker" where
  "ex_target = ex_worker\<lparr>w_apis := nw_apis_init[0 := \<lparr>ch_replay = None, ch_handle = Some Internal_api_handler, ch_print = None\<rparr>],
     w_metadata := [16 \<mapsto> md_zero\<lparr>md_replace := 0x600\<rparr>]\<rparr>"

lemma ex_replace_facts:
  "length ex_replace = 163" "base_of ex_replace = zero_base\<lparr>command_size := 160, region_size := 3, api_id := COMMAND_HANDLER_API,
     command_id := COMMAND_HANDLER_REPLACE_EXPLICIT_STATE\<rparr>"
  "get_u64 136 ex_replace = 16" "get_u64 144 ex_replace = 160" "get_u64 152 ex_replace = 3" "slice_at 160 3 ex_replace = [1, 2, 3]"
proof -
  let ?z = "set_base (zero_base\<lparr>command_size := 160, region_size := 3\<rparr>) (replicate 160 0)"
  let ?c = "put_u64 152 3 (put_u64 144 160 (put_u64 136 16 (set_internal COMMAND_HANDLER_REPLACE_EXPLICIT_STATE ?z)))"
  have z: "base_ok (zero_base\<lparr>command_size := 160, region_size := 3\<rparr>)" by (simp add: base_ok_def zero_base_def)
  then have l: "length ?z = 160" "length ?c = 160" by (simp_all add: set_internal_simps)
  show "length ex_replace = 163" using l by (simp add: ex_replace_def)
  show "base_of ex_replace = zero_base\<lparr>command_size := 160, region_size := 3, api_id := COMMAND_HANDLER_API,
     command_id := COMMAND_HANDLER_REPLACE_EXPLICIT_STATE\<rparr>"
    using l z by (simp add: ex_replace_def base_of_append put_u64_base set_internal_simps)
  have g: "get_u64 p ex_replace = get_u64 p ?c" if "p + 8 \<le> 160" for p
    using that l(2) by (simp add: ex_replace_def get_u64_def slice_append_left)
  show "get_u64 136 ex_replace = 16" "get_u64 144 ex_replace = 160" "get_u64 152 ex_replace = 3"
    using l g [of 136] g [of 144] g [of 152] by (simp_all add: get_put_u64_other set_internal_simps)
  show "slice_at 160 3 ex_replace = [1, 2, 3]"
    unfolding ex_replace_def using slice_append_right [of ?c 160 3 "[1, 2, 3]"] l(2) by (simp add: slice_at_def)
qed

theorem explicit_state_freed_twice_witness:
  "migration_loop (Suc (Suc (Suc 0))) ex_env 0
     \<lparr>log_fd = \<lparr>fdata = enc_log [(0, ex_replace)], fpos = 0\<rparr>, read_offset = 0\<rparr> (ex_target, {}, 0) = Inl DoubleFree"
proof -
  let ?lg = "\<lparr>log_fd = \<lparr>fdata = enc_log [(0, ex_replace)], fpos = 0\<rparr>, read_offset = 0\<rparr>"
  have "length (enc_log [(0, ex_replace)]) < 2 ^ 63" by (simp add: ex_replace_facts(1))
  from load_next [of ?lg, OF _ this, of 0] obtain lg2 where l: "command_channel_load_next_command ?lg = (Some ex_replace, lg2)"
    by (auto simp: entry_off_def)
  have b: "api_id (base_of ex_replace) = COMMAND_HANDLER_API" "command_id (base_of ex_replace) = COMMAND_HANDLER_REPLACE_EXPLICIT_STATE"
    "ch_handle (w_apis ex_target ! 0) = Some Internal_api_handler" "heap_ok ({}, 0)"
    by (simp_all add: ex_replace_facts ex_target_def nw_apis_init_def MAX_API_ID_def heap_ok_def)
  have "handle_replace_explicit ex_env command_channel_load_get_buffer 0 ex_replace ex_target = Inr ex_target"
    by (simp add: handle_replace_explicit_def pool_at_def ava_handle_replace_explicit_state_def ex_replace_facts
        command_channel_load_get_buffer_def mem_read_def nw_handle_pool_deref_def is_handle_def ex_target_def ex_worker_def
        ex_env_def counter_count_prefix_def md_zero_def)
  from explicit_state_freed_twice [OF l b this] show ?thesis .
qed

end
