(* ===== verification/Hashing.thy ===== *)
theory Hashing
  imports Commands
begin

text \<open>
  The hash functions behind the tables of the endpoint (\<open>common/murmur3.c\<close>, \<open>nw_hash_mix64variant13\<close> and
  \<open>nw_hash_struct\<close> of \<open>common/endpoint_lib.c\<close> and \<open>include/endpoint_lib.h\<close>). A key is the list of its bytes, so that
  \<open>len\<close> is the length of the list; blocks are read little-endian. The fall-through switches over the tail
  are written as a sequence of guarded updates in the order of the cases.
\<close>

section \<open>Rotation and finalisation\<close>

definition rotl32 :: "u32 \<Rightarrow> nat \<Rightarrow> u32" where
  "rotl32 x r = push_bit r x OR drop_bit (32 - r) x"

definition rotl64 :: "u64 \<Rightarrow> nat \<Rightarrow> u64" where
  "rotl64 x r = push_bit r x OR drop_bit (64 - r) x"

definition fmix32 :: "u32 \<Rightarrow> u32" where
  "fmix32 h =
     (let h = h XOR drop_bit 16 h; h = h * 0x85ebca6b; h = h XOR drop_bit 13 h; h = h * 0xc2b2ae35
      in h XOR drop_bit 16 h)"

definition fmix64 :: "u64 \<Rightarrow> u64" where
  "fmix64 k =
     (let k = k XOR drop_bit 33 k; k = k * 0xff51afd7ed558ccd; k = k XOR drop_bit 33 k; k = k * 0xc4ceb9fe1a85ec53
      in k XOR drop_bit 33 k)"

text \<open>The 64-bit value before \<open>nw_hash_mix64variant13\<close> truncates it to a \<open>guint\<close>.\<close>

definition mix64 :: "u64 \<Rightarrow> u64" where
  "mix64 x =
     (let x = x XOR drop_bit 30 x; x = x * 0xbf58476d1ce4e5b9; x = x XOR drop_bit 27 x; x = x * 0x94d049bb133111eb
      in x XOR drop_bit 31 x)"

definition nw_hash_mix64variant13 :: "pointer \<Rightarrow> u32" where
  "nw_hash_mix64variant13 ptr = ucast (mix64 ptr)"

section \<open>\<open>MurmurHash3_x86_32\<close>\<close>

definition x86_32_k1 :: "u32 \<Rightarrow> u32" where
  "x86_32_k1 k1 = (let k1 = k1 * 0xcc9e2d51; k1 = rotl32 k1 15 in k1 * 0x1b873593)"

definition x86_32_round :: "u32 \<Rightarrow> u32 \<Rightarrow> u32" where
  "x86_32_round k1 h1 = (let h1 = h1 XOR x86_32_k1 k1; h1 = rotl32 h1 13 in h1 * 5 + 0xe6546b64)"

definition blocks32 :: "bytes \<Rightarrow> u32 list" where
  "blocks32 data = map (\<lambda>i. get_u32 (4 * i) data) [0..<length data div 4]"

definition x86_32_tail :: "bytes \<Rightarrow> u32 \<Rightarrow> u32" where
  "x86_32_tail tail h1 =
     (let n = length tail; k1 = 0;
          k1 = (if 3 \<le> n then k1 XOR push_bit 16 (ucast (tail ! 2)) else k1);
          k1 = (if 2 \<le> n then k1 XOR push_bit 8 (ucast (tail ! 1)) else k1)
      in if 1 \<le> n then h1 XOR x86_32_k1 (k1 XOR ucast (tail ! 0)) else h1)"

definition MurmurHash3_x86_32 :: "bytes \<Rightarrow> u32 \<Rightarrow> u32" where
  "MurmurHash3_x86_32 data seed =
     (let h1 = fold x86_32_round (blocks32 data) seed;
          h1 = x86_32_tail (drop (length data div 4 * 4) data) h1;
          h1 = h1 XOR of_nat (length data)
      in fmix32 h1)"

definition nw_hash_struct :: "bytes \<Rightarrow> u32" where
  "nw_hash_struct p = MurmurHash3_x86_32 p (0xfbcdabc7 + of_nat (length p))"

section \<open>\<open>MurmurHash3_x86_128\<close>\<close>

type_synonym quad = "u32 \<times> u32 \<times> u32 \<times> u32"

definition mulrot32 :: "u32 \<Rightarrow> nat \<Rightarrow> u32 \<Rightarrow> u32 \<Rightarrow> u32" where
  "mulrot32 c r c' k = (let k = k * c; k = rotl32 k r in k * c')"

definition x86_128_k1 :: "u32 \<Rightarrow> u32" where "x86_128_k1 = mulrot32 0x239b961b 15 0xab0e9789"
definition x86_128_k2 :: "u32 \<Rightarrow> u32" where "x86_128_k2 = mulrot32 0xab0e9789 16 0x38b34ae5"
definition x86_128_k3 :: "u32 \<Rightarrow> u32" where "x86_128_k3 = mulrot32 0x38b34ae5 17 0xa1e38b93"
definition x86_128_k4 :: "u32 \<Rightarrow> u32" where "x86_128_k4 = mulrot32 0xa1e38b93 18 0x239b961b"

definition x86_128_round :: "quad \<Rightarrow> quad \<Rightarrow> quad" where
  "x86_128_round k h =
     (let (k1, k2, k3, k4) = k; (h1, h2, h3, h4) = h;
          h1 = h1 XOR x86_128_k1 k1; h1 = rotl32 h1 19; h1 = h1 + h2; h1 = h1 * 5 + 0x561ccd1b;
          h2 = h2 XOR x86_128_k2 k2; h2 = rotl32 h2 17; h2 = h2 + h3; h2 = h2 * 5 + 0x0bcaa747;
          h3 = h3 XOR x86_128_k3 k3; h3 = rotl32 h3 15; h3 = h3 + h4; h3 = h3 * 5 + 0x96cd1c35;
          h4 = h4 XOR x86_128_k4 k4; h4 = rotl32 h4 13; h4 = h4 + h1; h4 = h4 * 5 + 0x32ac3b17
      in (h1, h2, h3, h4))"

definition quads32 :: "bytes \<Rightarrow> quad list" where
  "quads32 data = map (\<lambda>i. (get_u32 (16 * i) data, get_u32 (16 * i + 4) data, get_u32 (16 * i + 8) data, get_u32 (16 * i + 12) data))
     [0..<length data div 16]"

text \<open>One group of cases of the switch: the bytes of the tail from \<open>off\<close> on that the length covers, the
  highest first.\<close>

definition tail_byte32 :: "bytes \<Rightarrow> nat \<Rightarrow> nat \<Rightarrow> u32 \<Rightarrow> u32" where
  "tail_byte32 tail i sh k = (if i < length tail then k XOR push_bit sh (ucast (tail ! i)) else k)"

definition x86_128_tail :: "bytes \<Rightarrow> quad \<Rightarrow> quad" where
  "x86_128_tail tail h =
     (let (h1, h2, h3, h4) = h; n = length tail;
          k4 = tail_byte32 tail 12 0 (tail_byte32 tail 13 8 (tail_byte32 tail 14 16 0));
          h4 = (if 13 \<le> n then h4 XOR x86_128_k4 k4 else h4);
          k3 = tail_byte32 tail 8 0 (tail_byte32 tail 9 8 (tail_byte32 tail 10 16 (tail_byte32 tail 11 24 0)));
          h3 = (if 9 \<le> n then h3 XOR x86_128_k3 k3 else h3);
          k2 = tail_byte32 tail 4 0 (tail_byte32 tail 5 8 (tail_byte32 tail 6 16 (tail_byte32 tail 7 24 0)));
          h2 = (if 5 \<le> n then h2 XOR x86_128_k2 k2 else h2);
          k1 = tail_byte32 tail 0 0 (tail_byte32 tail 1 8 (tail_byte32 tail 2 16 (tail_byte32 tail 3 24 0)));
          h1 = (if 1 \<le> n then h1 XOR x86_128_k1 k1 else h1)
      in (h1, h2, h3, h4))"

definition quad_mix :: "quad \<Rightarrow> quad" where
  "quad_mix h =
     (let (h1, h2, h3, h4) = h; h1 = h1 + h2; h1 = h1 + h3; h1 = h1 + h4
      in (h1, h2 + h1, h3 + h1, h4 + h1))"

definition x86_128_final :: "nat \<Rightarrow> quad \<Rightarrow> quad" where
  "x86_128_final len h =
     (let (h1, h2, h3, h4) = h; l = of_nat len;
          (h1, h2, h3, h4) = quad_mix (h1 XOR l, h2 XOR l, h3 XOR l, h4 XOR l)
      in quad_mix (fmix32 h1, fmix32 h2, fmix32 h3, fmix32 h4))"

definition MurmurHash3_x86_128 :: "bytes \<Rightarrow> u32 \<Rightarrow> quad" where
  "MurmurHash3_x86_128 data seed =
     x86_128_final (length data) (x86_128_tail (drop (length data div 16 * 16) data)
       (fold x86_128_round (quads32 data) (seed, seed, seed, seed)))"

section \<open>\<open>MurmurHash3_x64_128\<close>\<close>

type_synonym pair64 = "u64 \<times> u64"

definition x64_128_k1 :: "u64 \<Rightarrow> u64" where
  "x64_128_k1 k1 = (let k1 = k1 * 0x87c37b91114253d5; k1 = rotl64 k1 31 in k1 * 0x4cf5ad432745937f)"

definition x64_128_k2 :: "u64 \<Rightarrow> u64" where
  "x64_128_k2 k2 = (let k2 = k2 * 0x4cf5ad432745937f; k2 = rotl64 k2 33 in k2 * 0x87c37b91114253d5)"

definition x64_128_round :: "pair64 \<Rightarrow> pair64 \<Rightarrow> pair64" where
  "x64_128_round k h =
     (let (k1, k2) = k; (h1, h2) = h;
          h1 = h1 XOR x64_128_k1 k1; h1 = rotl64 h1 27; h1 = h1 + h2; h1 = h1 * 5 + 0x52dce729;
          h2 = h2 XOR x64_128_k2 k2; h2 = rotl64 h2 31; h2 = h2 + h1; h2 = h2 * 5 + 0x38495ab5
      in (h1, h2))"

definition pairs64 :: "bytes \<Rightarrow> pair64 list" where
  "pairs64 data = map (\<lambda>i. (get_u64 (16 * i) data, get_u64 (16 * i + 8) data)) [0..<length data div 16]"

definition tail_byte64 :: "bytes \<Rightarrow> nat \<Rightarrow> nat \<Rightarrow> u64 \<Rightarrow> u64" where
  "tail_byte64 tail i sh k = (if i < length tail then k XOR push_bit sh (ucast (tail ! i)) else k)"

definition x64_128_tail :: "bytes \<Rightarrow> pair64 \<Rightarrow> pair64" where
  "x64_128_tail tail h =
     (let (h1, h2) = h; n = length tail;
          k2 = tail_byte64 tail 11 24 (tail_byte64 tail 12 32 (tail_byte64 tail 13 40 (tail_byte64 tail 14 48 0)));
          k2 = tail_byte64 tail 8 0 (tail_byte64 tail 9 8 (tail_byte64 tail 10 16 k2));
          h2 = (if 9 \<le> n then h2 XOR x64_128_k2 k2 else h2);
          k1 = tail_byte64 tail 4 32 (tail_byte64 tail 5 40 (tail_byte64 tail 6 48 (tail_byte64 tail 7 56 0)));
          k1 = tail_byte64 tail 0 0 (tail_byte64 tail 1 8 (tail_byte64 tail 2 16 (tail_byte64 tail 3 24 k1)));
          h1 = (if 1 \<le> n then h1 XOR x64_128_k1 k1 else h1)
      in (h1, h2))"

definition x64_128_final :: "nat \<Rightarrow> pair64 \<Rightarrow> pair64" where
  "x64_128_final len h =
     (let (h1, h2) = h; l = of_nat len; h1 = h1 XOR l; h2 = h2 XOR l;
          h1 = h1 + h2; h2 = h2 + h1; h1 = fmix64 h1; h2 = fmix64 h2; h1 = h1 + h2
      in (h1, h2 + h1))"

definition MurmurHash3_x64_128 :: "bytes \<Rightarrow> u32 \<Rightarrow> pair64" where
  "MurmurHash3_x64_128 data seed =
     x64_128_final (length data) (x64_128_tail (drop (length data div 16 * 16) data)
       (fold x64_128_round (pairs64 data) (ucast seed, ucast seed)))"

section \<open>Reversible steps\<close>

named_theorems hash_inj \<open>steps of the hash functions that lose no information\<close>

lemma xor_cancel [hash_inj]: "(a :: 'a::len word) XOR b = a XOR c \<longleftrightarrow> b = c" "(b :: 'a::len word) XOR a = c XOR a \<longleftrightarrow> b = c"
  by (auto simp: bit_eq_iff bit_simps)

lemma xorshift_inj:
  assumes "0 < r" "x XOR drop_bit r x = y XOR drop_bit r (y :: 'a::len word)"
  shows "x = y"
proof -
  have "bit x k = bit y k" for k
  proof (induction k rule: measure_induct_rule [where f = "\<lambda>k. LENGTH('a) - k"])
    case (less k)
    have e: "(bit x k \<noteq> bit x (k + r)) = (bit y k \<noteq> bit y (k + r))"
      using arg_cong [OF assms(2), of "\<lambda>w. bit w k"] by (simp add: bit_simps add.commute)
    show ?case
    proof (cases "k < LENGTH('a)")
      case True
      with less [of "k + r"] assms(1) e show ?thesis by auto
    next
      case False
      then show ?thesis by (auto dest: bit_imp_le_length)
    qed
  qed
  then show ?thesis by (rule bit_word_eqI)
qed

lemma mult_inj: "d * c = 1 \<Longrightarrow> x * c = y * c \<Longrightarrow> x = (y :: 'a::len word)"
  by (metis mult.assoc mult.commute mult_1)

lemma mult_odd [hash_inj]:
  "(x :: u32) * 0x85ebca6b = y * 0x85ebca6b \<longleftrightarrow> x = y" "(x :: u32) * 0xc2b2ae35 = y * 0xc2b2ae35 \<longleftrightarrow> x = y"
  "(x :: u32) * 0xcc9e2d51 = y * 0xcc9e2d51 \<longleftrightarrow> x = y" "(x :: u32) * 0x1b873593 = y * 0x1b873593 \<longleftrightarrow> x = y"
  "(x :: u32) * 0x239b961b = y * 0x239b961b \<longleftrightarrow> x = y" "(x :: u32) * 0xab0e9789 = y * 0xab0e9789 \<longleftrightarrow> x = y"
  "(x :: u32) * 0x38b34ae5 = y * 0x38b34ae5 \<longleftrightarrow> x = y" "(x :: u32) * 0xa1e38b93 = y * 0xa1e38b93 \<longleftrightarrow> x = y"
  "(x :: u32) * 5 = y * 5 \<longleftrightarrow> x = y"
  by (auto dest: mult_inj [where d = "0xa5cb9243 :: u32", rotated]
      mult_inj [where d = "0x7ed1b41d :: u32", rotated]
      mult_inj [where d = "0xdee13bb1 :: u32", rotated]
      mult_inj [where d = "0x56ed309b :: u32", rotated]
      mult_inj [where d = "0x89c95413 :: u32", rotated]
      mult_inj [where d = "0xdf130eb9 :: u32", rotated]
      mult_inj [where d = "0x747862ed :: u32", rotated]
      mult_inj [where d = "0x58d64a9b :: u32", rotated]
      mult_inj [where d = "0xcccccccd :: u32", rotated])

lemma mult_odd64 [hash_inj]:
  "(x :: u64) * 0xff51afd7ed558ccd = y * 0xff51afd7ed558ccd \<longleftrightarrow> x = y"
  "(x :: u64) * 0xc4ceb9fe1a85ec53 = y * 0xc4ceb9fe1a85ec53 \<longleftrightarrow> x = y"
  "(x :: u64) * 0xbf58476d1ce4e5b9 = y * 0xbf58476d1ce4e5b9 \<longleftrightarrow> x = y"
  "(x :: u64) * 0x94d049bb133111eb = y * 0x94d049bb133111eb \<longleftrightarrow> x = y"
  "(x :: u64) * 0x87c37b91114253d5 = y * 0x87c37b91114253d5 \<longleftrightarrow> x = y"
  "(x :: u64) * 0x4cf5ad432745937f = y * 0x4cf5ad432745937f \<longleftrightarrow> x = y"
  "(x :: u64) * 5 = y * 5 \<longleftrightarrow> x = y"
  by (auto dest: mult_inj [where d = "0x4f74430c22a54005 :: u64", rotated]
      mult_inj [where d = "0x9cb4b2f8129337db :: u64", rotated]
      mult_inj [where d = "0x96de1b173f119089 :: u64", rotated]
      mult_inj [where d = "0x319642b2d24d8ec3 :: u64", rotated]
      mult_inj [where d = "0xa98409e882ce4d7d :: u64", rotated]
      mult_inj [where d = "0xa81e14edd9de2c7f :: u64", rotated]
      mult_inj [where d = "0xcccccccccccccccd :: u64", rotated])

lemma bit_rotl32:
  "r < 32 \<Longrightarrow> n < 32 \<Longrightarrow> bit (rotl32 x r) n = (if n < r then bit x (n + 32 - r) else bit x (n - r))"
  by (auto simp: rotl32_def bit_simps add.commute dest: bit_imp_le_length)

lemma bit_rotl64:
  "r < 64 \<Longrightarrow> n < 64 \<Longrightarrow> bit (rotl64 x r) n = (if n < r then bit x (n + 64 - r) else bit x (n - r))"
  by (auto simp: rotl64_def bit_simps add.commute dest: bit_imp_le_length)

lemma rotl32_inj: "r < 32 \<Longrightarrow> rotl32 x r = rotl32 y r \<longleftrightarrow> x = y"
proof
  assume r: "r < 32" and e: "rotl32 x r = rotl32 y r"
  show "x = y"
  proof (rule bit_word_eqI)
    fix n :: nat assume "n < LENGTH(32)"
    then show "bit x n = bit y n"
      using r arg_cong [OF e, of "\<lambda>w. bit w (if n + r < 32 then n + r else n + r - 32)"]
      by (auto simp: bit_rotl32 split: if_splits)
  qed
qed simp

lemma rotl64_inj: "r < 64 \<Longrightarrow> rotl64 x r = rotl64 y r \<longleftrightarrow> x = y"
proof
  assume r: "r < 64" and e: "rotl64 x r = rotl64 y r"
  show "x = y"
  proof (rule bit_word_eqI)
    fix n :: nat assume "n < LENGTH(64)"
    then show "bit x n = bit y n"
      using r arg_cong [OF e, of "\<lambda>w. bit w (if n + r < 64 then n + r else n + r - 64)"]
      by (auto simp: bit_rotl64 split: if_splits)
  qed
qed simp

lemma xorshift_iff [hash_inj]: "0 < r \<Longrightarrow> x XOR drop_bit r x = y XOR drop_bit r (y :: 'a::len word) \<longleftrightarrow> x = y"
  by (auto dest: xorshift_inj)

lemmas [hash_inj] = rotl32_inj rotl64_inj

lemma fmix_inj [hash_inj]: "fmix32 x = fmix32 y \<longleftrightarrow> x = y" "fmix64 a = fmix64 b \<longleftrightarrow> a = b"
  by (simp_all add: fmix32_def fmix64_def Let_def hash_inj)

lemma mix64_inj: "mix64 x = mix64 y \<longleftrightarrow> x = y"
  by (simp add: mix64_def Let_def hash_inj)

lemma key_mix_inj [hash_inj]:
  "x86_32_k1 k = x86_32_k1 l \<longleftrightarrow> k = l" "x86_128_k1 k = x86_128_k1 l \<longleftrightarrow> k = l" "x86_128_k2 k = x86_128_k2 l \<longleftrightarrow> k = l"
  "x86_128_k3 k = x86_128_k3 l \<longleftrightarrow> k = l" "x86_128_k4 k = x86_128_k4 l \<longleftrightarrow> k = l"
  "x64_128_k1 a = x64_128_k1 b \<longleftrightarrow> a = b" "x64_128_k2 a = x64_128_k2 b \<longleftrightarrow> a = b"
  by (simp_all add: x86_32_k1_def x86_128_k1_def x86_128_k2_def x86_128_k3_def x86_128_k4_def mulrot32_def
      x64_128_k1_def x64_128_k2_def Let_def hash_inj)

text \<open>One lane of a round: rotate, add the neighbouring lane, multiply by five and add a constant.\<close>

definition lane32 :: "nat \<Rightarrow> u32 \<Rightarrow> u32 \<Rightarrow> u32 \<Rightarrow> u32" where "lane32 r c h a = (rotl32 h r + a) * 5 + c"
definition lane64 :: "nat \<Rightarrow> u64 \<Rightarrow> u64 \<Rightarrow> u64 \<Rightarrow> u64" where "lane64 r c h a = (rotl64 h r + a) * 5 + c"

lemma lane_inj [hash_inj]:
  "r < 32 \<Longrightarrow> lane32 r c h a = lane32 r c g a \<longleftrightarrow> h = g" "q < 64 \<Longrightarrow> lane64 q d x b = lane64 q d y b \<longleftrightarrow> x = y"
  using mult_odd(9) [of "rotl32 h r + a" "rotl32 g r + a"] mult_odd64(7) [of "rotl64 x q + b" "rotl64 y q + b"]
  by (auto simp: lane32_def lane64_def rotl32_inj rotl64_inj)

lemma x86_128_lanes:
  "x86_128_round (k1, k2, k3, k4) (h1, h2, h3, h4) =
     (lane32 19 0x561ccd1b (h1 XOR x86_128_k1 k1) h2, lane32 17 0x0bcaa747 (h2 XOR x86_128_k2 k2) h3,
      lane32 15 0x96cd1c35 (h3 XOR x86_128_k3 k3) h4,
      lane32 13 0x32ac3b17 (h4 XOR x86_128_k4 k4) (lane32 19 0x561ccd1b (h1 XOR x86_128_k1 k1) h2))"
  by (simp add: x86_128_round_def Let_def lane32_def)

lemma x64_128_lanes:
  "x64_128_round (k1, k2) (h1, h2) =
     (lane64 27 0x52dce729 (h1 XOR x64_128_k1 k1) h2,
      lane64 31 0x38495ab5 (h2 XOR x64_128_k2 k2) (lane64 27 0x52dce729 (h1 XOR x64_128_k1 k1) h2))"
  by (simp add: x64_128_round_def Let_def lane64_def)

section \<open>Folding reversible rounds\<close>

text \<open>A round that loses neither the state nor the block it mixes in.\<close>

locale block_mixer =
  fixes mix :: "'k \<Rightarrow> 's \<Rightarrow> 's"
  assumes mix_state: "mix k s = mix k t \<Longrightarrow> s = t"
    and mix_block: "mix k s = mix l s \<Longrightarrow> k = l"
begin

lemma fold_state: "fold mix ks s = fold mix ks t \<Longrightarrow> s = t"
  by (induction ks arbitrary: s t) (auto dest: mix_state)

lemma fold_one_block: "fold mix (xs @ k # ys) s = fold mix (xs @ l # ys) s \<longleftrightarrow> k = l"
  by (auto dest!: fold_state mix_block)

end

interpretation x86_32: block_mixer x86_32_round
  by unfold_locales (simp_all add: x86_32_round_def Let_def hash_inj)

interpretation x86_128: block_mixer x86_128_round
proof
  show "s = t" if "x86_128_round k s = x86_128_round k t" for k s t
    using that by (cases k; cases s; cases t) (auto simp: x86_128_lanes hash_inj)
  show "k = l" if "x86_128_round k s = x86_128_round l s" for k l s
    using that by (cases k; cases l; cases s) (auto simp: x86_128_lanes hash_inj)
qed

interpretation x64_128: block_mixer x64_128_round
proof
  show "s = t" if "x64_128_round k s = x64_128_round k t" for k s t
    using that by (cases k; cases s; cases t) (auto simp: x64_128_lanes hash_inj)
  show "k = l" if "x64_128_round k s = x64_128_round l s" for k l s
    using that by (cases k; cases l; cases s) (auto simp: x64_128_lanes hash_inj)
qed

section \<open>Finalisation\<close>

lemma quad_mix_inj: "quad_mix h = quad_mix g \<longleftrightarrow> h = g"
proof
  let ?inv = "\<lambda>(s, x, y, z). (s - (x - s) - (y - s) - (z - s), x - s, y - s, z - s) :: quad"
  have "?inv (quad_mix u) = u" for u by (cases u) (simp add: quad_mix_def Let_def)
  then show "h = g" if "quad_mix h = quad_mix g" using arg_cong [OF that, of ?inv] by simp
qed simp

lemma final_inj [hash_inj]:
  "x86_128_final n h = x86_128_final n g \<longleftrightarrow> h = g" "x64_128_final n a = x64_128_final n b \<longleftrightarrow> a = b"
proof -
  show "x86_128_final n h = x86_128_final n g \<longleftrightarrow> h = g"
  proof
    assume e: "x86_128_final n h = x86_128_final n g"
    let ?x = "\<lambda>(h1, h2, h3, h4). (h1 XOR of_nat n, h2 XOR of_nat n, h3 XOR of_nat n, h4 XOR of_nat n) :: quad"
    have f: "x86_128_final n u = quad_mix (case quad_mix (?x u) of (h1, h2, h3, h4) \<Rightarrow> (fmix32 h1, fmix32 h2, fmix32 h3, fmix32 h4))" for u
      by (cases u) (simp add: x86_128_final_def Let_def split: prod.split)
    let ?f = "\<lambda>(h1, h2, h3, h4). (fmix32 h1, fmix32 h2, fmix32 h3, fmix32 h4)"
    have "?f (quad_mix (?x h)) = ?f (quad_mix (?x g))" using e unfolding f quad_mix_inj by simp
    then have "quad_mix (?x h) = quad_mix (?x g)"
      by (cases "quad_mix (?x h)"; cases "quad_mix (?x g)") (simp add: fmix_inj)
    then show "h = g" unfolding quad_mix_inj by (cases h; cases g) (simp add: xor_cancel)
  qed simp
  show "x64_128_final n a = x64_128_final n b \<longleftrightarrow> a = b"
  proof
    assume e: "x64_128_final n a = x64_128_final n b"
    let ?m = "\<lambda>(s, x). (s + x, x + (s + x)) :: pair64" and ?i = "\<lambda>(s, x). (s - (x - s), x - s) :: pair64"
    let ?x = "\<lambda>(s, x). (s XOR of_nat n, x XOR of_nat n) :: pair64" and ?f = "\<lambda>(s, x). (fmix64 s, fmix64 x)"
    have i: "?i (?m u) = u" for u by (cases u) simp
    then have m: "u = v" if "?m u = ?m v" for u v using arg_cong [OF that, of ?i] by simp
    have "x64_128_final n u = ?m (?f (?m (?x u)))" for u by (cases u) (simp add: x64_128_final_def Let_def)
    with e have "?m (?f (?m (?x a))) = ?m (?f (?m (?x b)))" by simp
    then have "?f (?m (?x a)) = ?f (?m (?x b))" by (rule m)
    then have "?m (?x a) = ?m (?x b)" by (cases "?m (?x a)"; cases "?m (?x b)") (simp only: prod.case prod.inject fmix_inj)
    then have "?x a = ?x b" by (rule m)
    then show "a = b" by (cases a; cases b) (simp add: xor_cancel)
  qed simp
qed

lemma tail_inj [hash_inj]:
  "x86_32_tail tl1 x = x86_32_tail tl1 y \<longleftrightarrow> x = y" "x86_128_tail tl1 h = x86_128_tail tl1 g \<longleftrightarrow> h = g"
  "x64_128_tail tl1 a = x64_128_tail tl1 b \<longleftrightarrow> a = b"
proof -
  show "x86_32_tail tl1 x = x86_32_tail tl1 y \<longleftrightarrow> x = y" by (simp add: x86_32_tail_def Let_def xor_cancel)
  show "x86_128_tail tl1 h = x86_128_tail tl1 g \<longleftrightarrow> h = g"
    by (cases h; cases g) (simp add: x86_128_tail_def Let_def xor_cancel)
  show "x64_128_tail tl1 a = x64_128_tail tl1 b \<longleftrightarrow> a = b"
    by (cases a; cases b) (simp add: x64_128_tail_def Let_def xor_cancel)
qed

section \<open>Keys as sequences of blocks\<close>

definition chunks :: "nat \<Rightarrow> bytes \<Rightarrow> bytes list" where
  "chunks n data = map (\<lambda>i. slice_at (n * i) n data) [0..<length data div n]"

lemma chunks_append:
  assumes "0 < n" "length a mod n = 0"
  shows "chunks n (a @ b) = chunks n a @ chunks n b"
proof -
  obtain p where p: "length a = n * p" using assms(2) by auto
  have d: "length (a @ b) div n = p + length b div n" "length a div n = p" using assms(1) p by simp_all
  have up: "[0..<p + q] = [0..<p] @ map (\<lambda>i. i + p) [0..<q]" for q
    unfolding map_add_upt add.commute [of q p] by (rule upt_add_eq_append [OF le0])
  have left: "slice_at (n * i) n (a @ b) = slice_at (n * i) n a" if "i < p" for i
  proof -
    have "n * i + n \<le> n * p" using that mult_le_mono2 [of "Suc i" p n] by simp
    then show ?thesis by (simp add: slice_append_left p)
  qed
  have right: "slice_at (n * (i + p)) n (a @ b) = slice_at (n * i) n b" for i
    by (simp add: slice_append_right p distrib_left)
  show ?thesis unfolding chunks_def d up map_append map_map o_def right
    by (intro arg_cong2 [of _ _ _ _ "(@)"] map_cong refl left) simp
qed

lemma chunks_one: "0 < n \<Longrightarrow> length k = n \<Longrightarrow> chunks n k = [k]"
  by (simp add: chunks_def slice_at_def)

lemma rest_append: "0 < n \<Longrightarrow> length a mod n = 0 \<Longrightarrow>
   drop (length (a @ b) div n * n) (a @ b) = drop (length b div n * n) b"
proof -
  assume "0 < n" "length a mod n = 0"
  moreover from this obtain p where "length a = n * p" by auto
  ultimately show ?thesis by (simp add: distrib_left mult.commute)
qed

lemma slice_slice: "p + m \<le> n \<Longrightarrow> slice_at p m (slice_at q n xs) = slice_at (q + p) m xs"
  by (simp add: slice_at_def drop_take min_def add.commute)

lemma blocks_chunks:
  "blocks32 data = map (get_u32 0) (chunks 4 data)"
  "quads32 data = map (\<lambda>c. (get_u32 0 c, get_u32 4 c, get_u32 8 c, get_u32 12 c)) (chunks 16 data)"
  "pairs64 data = map (\<lambda>c. (get_u64 0 c, get_u64 8 c)) (chunks 16 data)"
  by (simp_all add: blocks32_def quads32_def pairs64_def chunks_def get_u32_def get_u64_def slice_slice)

lemma bit_le_word: "bit (le_word bs :: 'a::len word) k \<Longrightarrow> k < 8 * length bs"
proof (induction bs arbitrary: k)
  case (Cons b bs)
  show ?case
  proof (cases "k < 8")
    case False
    then have "\<not> bit b k" by (auto dest: bit_imp_le_length)
    with Cons.prems False have "bit (le_word bs :: 'a word) (k - 8)" by (auto simp: bit_simps)
    with Cons.IH [of "k - 8"] show ?thesis by simp
  qed simp
qed simp

lemma le_bytes_le_word: "8 * length bs \<le> LENGTH('a) \<Longrightarrow> le_bytes (length bs) (le_word bs :: 'a::len word) = bs"
proof (induction bs)
  case (Cons b bs)
  let ?w = "le_word bs :: 'a word"
  have "ucast (le_word (b # bs) :: 'a word) = b"
    using Cons.prems by (intro bit_word_eqI) (auto simp: bit_simps)
  moreover have "drop_bit 8 (le_word (b # bs) :: 'a word) = ?w"
  proof (rule bit_word_eqI)
    show "bit (drop_bit 8 (le_word (b # bs) :: 'a word)) k = bit ?w k" for k
      using Cons.prems bit_le_word [of bs k, where ?'a = 'a] by (auto simp: bit_simps dest: bit_imp_le_length)
  qed
  ultimately show ?case using Cons by simp
qed simp

lemma le_word_inj:
  assumes "length xs = length ys" "8 * length xs \<le> LENGTH('a)" "(le_word xs :: 'a::len word) = le_word ys"
  shows "xs = ys"
proof -
  have "xs = le_bytes (length xs) (le_word xs :: 'a word)" by (rule le_bytes_le_word [symmetric, OF assms(2)])
  also have "\<dots> = le_bytes (length ys) (le_word ys :: 'a word)" by (simp only: assms(1,3))
  also have "\<dots> = ys" by (rule le_bytes_le_word) (use assms(1,2) in simp)
  finally show ?thesis .
qed

lemma get_inj:
  assumes "length k = length l" "p + n \<le> length k"
  shows "n = 4 \<Longrightarrow> get_u32 p k = get_u32 p l \<Longrightarrow> slice_at p n k = slice_at p n l"
    "n = 8 \<Longrightarrow> get_u64 p k = get_u64 p l \<Longrightarrow> slice_at p n k = slice_at p n l"
  using assms le_word_inj [of "slice_at p n k" "slice_at p n l", where ?'a = 32]
    le_word_inj [of "slice_at p n k" "slice_at p n l", where ?'a = 64]
  by (simp_all add: get_u32_def get_u64_def min_absorb1)

lemma split_slices: "xs = slice_at 0 p xs @ slice_at p n xs" if "length xs = p + n"
  using that by (simp add: slice_at_def)

lemma block_inj:
  fixes k l :: bytes
  shows "length k = 4 \<Longrightarrow> length l = 4 \<Longrightarrow> get_u32 0 k = get_u32 0 l \<Longrightarrow> k = l"
    and "length k = 16 \<Longrightarrow> length l = 16 \<Longrightarrow> get_u64 0 k = get_u64 0 l \<Longrightarrow> get_u64 8 k = get_u64 8 l \<Longrightarrow> k = l"
proof -
  show "k = l" if "length k = 4" "length l = 4" "get_u32 0 k = get_u32 0 l"
    using get_inj(1) [of k l 0 4] that by (simp add: slice_at_def)
  show "k = l" if "length k = 16" "length l = 16" "get_u64 0 k = get_u64 0 l" "get_u64 8 k = get_u64 8 l"
    using get_inj(2) [of k l 0 8] get_inj(2) [of k l 8 8] that split_slices [of k 8 8] split_slices [of l 8 8] by simp
qed

lemma quad_inj:
  fixes k l :: bytes
  assumes "length k = 16" "length l = 16" "get_u32 0 k = get_u32 0 l" "get_u32 4 k = get_u32 4 l"
    "get_u32 8 k = get_u32 8 l" "get_u32 12 k = get_u32 12 l"
  shows "k = l"
proof -
  have s: "xs = slice_at 0 4 xs @ slice_at 4 4 xs @ slice_at 8 4 xs @ slice_at 12 4 xs" if "length xs = 16" for xs :: bytes
  proof -
    have "drop 8 xs = take 4 (drop 8 xs) @ drop 12 xs" "drop 4 xs = take 4 (drop 4 xs) @ drop 8 xs"
      using append_take_drop_id [of 4 "drop 8 xs"] append_take_drop_id [of 4 "drop 4 xs"] by simp_all
    then show ?thesis using append_take_drop_id [of 4 xs] that unfolding slice_at_def by (simp del: append_take_drop_id)
  qed
  have "slice_at 0 4 k = slice_at 0 4 l" "slice_at 4 4 k = slice_at 4 4 l" "slice_at 8 4 k = slice_at 8 4 l"
    "slice_at 12 4 k = slice_at 12 4 l"
    using assms get_inj(1) [of k l 0 4] get_inj(1) [of k l 4 4] get_inj(1) [of k l 8 4] get_inj(1) [of k l 12 4] by simp_all
  then show ?thesis using s [OF assms(1)] s [OF assms(2)] by simp
qed

section \<open>Properties\<close>

lemma low_half_card: "card {x :: u64. (ucast x :: u32) = h} = 2 ^ 32"
proof -
  let ?f = "\<lambda>y :: u32. push_bit 32 (ucast y) OR (ucast h :: u64)"
  have "{x :: u64. (ucast x :: u32) = h} = range ?f"
  proof (rule set_eqI, rule iffI)
    fix x :: u64 assume "x \<in> {x. (ucast x :: u32) = h}"
    then have "x = ?f (ucast (drop_bit 32 x))" by (auto intro!: bit_word_eqI simp: bit_simps)
    then show "x \<in> range ?f" by blast
  next
    fix x assume "x \<in> range ?f"
    then show "x \<in> {x. (ucast x :: u32) = h}" by (auto intro!: bit_word_eqI simp: bit_simps)
  qed
  moreover have "inj ?f"
  proof (rule injI)
    fix y z assume e: "?f y = ?f z"
    have "(ucast (drop_bit 32 (?f u)) :: u32) = u" for u
      using bit_imp_le_length [of h] by (intro bit_word_eqI) (force simp: bit_simps)
    then show "y = z" using e by metis
  qed
  ultimately show ?thesis by (simp add: card_image card_word)
qed

lemma word_inj_bij: "(\<And>x y. f x = f y \<longleftrightarrow> x = y) \<Longrightarrow> bij (f :: 'a::len word \<Rightarrow> 'a word)"
  by (auto simp: bij_def inj_def intro!: finite_UNIV_inj_surj)

text \<open>C29: The pointer hash spreads all 64-bit pointers evenly: its mixing steps are reversible, so every 32-bit hash
  value is taken by exactly \<open>2 ^ 32\<close> pointers.\<close>

theorem pointer_hash_uniform:
  "bij mix64 \<and> bij fmix32 \<and> bij fmix64 \<and> card {p. nw_hash_mix64variant13 p = h} = 2 ^ 32"
proof -
  have b: "bij mix64" "bij fmix32" "bij fmix64" by (rule word_inj_bij, simp add: mix64_inj fmix_inj)+
  have "{p. nw_hash_mix64variant13 p = h} = mix64 -` {x. (ucast x :: u32) = h}" by (auto simp: nw_hash_mix64variant13_def)
  then have "card {p. nw_hash_mix64variant13 p = h} = card {x :: u64. (ucast x :: u32) = h}"
    by (simp only: card_vimage_inj [OF bij_is_inj [OF b(1)]] bij_is_surj [OF b(1)] subset_UNIV)
  with b low_half_card show ?thesis by simp
qed

lemma cut:
  assumes "0 < n" "length a mod n = 0" "length u = n"
  shows "chunks n (a @ u @ b) = chunks n a @ u # chunks n b"
    "drop (length (a @ u @ b) div n * n) (a @ u @ b) = drop (length b div n * n) b"
proof -
  show "chunks n (a @ u @ b) = chunks n a @ u # chunks n b" using assms by (simp add: chunks_append chunks_one)
  show "drop (length (a @ u @ b) div n * n) (a @ u @ b) = drop (length b div n * n) b"
    using assms rest_append [of n a "u @ b"] rest_append [of n u b] by simp
qed

lemma x86_32_one_block:
  assumes "length a mod 4 = 0" "length k = 4" "length l = 4"
  shows "MurmurHash3_x86_32 (a @ k @ b) s = MurmurHash3_x86_32 (a @ l @ b) s \<longleftrightarrow> k = l"
proof -
  have "MurmurHash3_x86_32 (a @ u @ b) s = fmix32 (x86_32_tail (drop (length b div 4 * 4) b)
      (fold x86_32_round (blocks32 a @ get_u32 0 u # blocks32 b) s) XOR of_nat (length a + 4 + length b))" if "length u = 4" for u
    unfolding MurmurHash3_x86_32_def Let_def cut(2) [OF zero_less_numeral assms(1) that] blocks_chunks
      cut(1) [OF zero_less_numeral assms(1) that] by (simp add: that add.assoc)
  then show ?thesis using assms block_inj(1) [of k l] by (auto simp only: hash_inj x86_32.fold_one_block)
qed

lemma x86_128_one_block:
  assumes "length a mod 16 = 0" "length k = 16" "length l = 16"
  shows "MurmurHash3_x86_128 (a @ k @ b) s = MurmurHash3_x86_128 (a @ l @ b) s \<longleftrightarrow> k = l"
proof -
  let ?q = "\<lambda>c. (get_u32 0 c, get_u32 4 c, get_u32 8 c, get_u32 12 c)"
  have "MurmurHash3_x86_128 (a @ u @ b) s = x86_128_final (length a + 16 + length b) (x86_128_tail (drop (length b div 16 * 16) b)
      (fold x86_128_round (quads32 a @ ?q u # quads32 b) (s, s, s, s)))" if "length u = 16" for u
    unfolding MurmurHash3_x86_128_def Let_def cut(2) [OF zero_less_numeral assms(1) that] blocks_chunks
      cut(1) [OF zero_less_numeral assms(1) that] by (simp add: that add.assoc)
  then show ?thesis using assms quad_inj [of k l] by (auto simp only: hash_inj x86_128.fold_one_block prod.inject)
qed

lemma x64_128_one_block:
  assumes "length a mod 16 = 0" "length k = 16" "length l = 16"
  shows "MurmurHash3_x64_128 (a @ k @ b) s = MurmurHash3_x64_128 (a @ l @ b) s \<longleftrightarrow> k = l"
proof -
  have "MurmurHash3_x64_128 (a @ u @ b) s = x64_128_final (length a + 16 + length b) (x64_128_tail (drop (length b div 16 * 16) b)
      (fold x64_128_round (pairs64 a @ (get_u64 0 u, get_u64 8 u) # pairs64 b) (ucast s, ucast s)))" if "length u = 16" for u
    unfolding MurmurHash3_x64_128_def Let_def cut(2) [OF zero_less_numeral assms(1) that] blocks_chunks
      cut(1) [OF zero_less_numeral assms(1) that] by (simp add: that add.assoc)
  then show ?thesis using assms block_inj(2) [of k l] by (auto simp only: hash_inj x64_128.fold_one_block prod.inject)
qed

text \<open>C28: Two keys of the same length that differ in one aligned block (4 bytes for \<open>MurmurHash3_x86_32\<close> and
  \<open>nw_hash_struct\<close>, 16 bytes for the 128-bit variants) never collide, whatever surrounds the block and whatever
  the seed is.\<close>

theorem murmur_distinguishes_block:
  assumes "length k = length l"
  shows "(length a mod 4 = 0 \<and> length k = 4 \<longrightarrow>
      (MurmurHash3_x86_32 (a @ k @ b) seed = MurmurHash3_x86_32 (a @ l @ b) seed \<longleftrightarrow> k = l) \<and>
      (nw_hash_struct (a @ k @ b) = nw_hash_struct (a @ l @ b) \<longleftrightarrow> k = l)) \<and>
    (length a mod 16 = 0 \<and> length k = 16 \<longrightarrow>
      (MurmurHash3_x86_128 (a @ k @ b) seed = MurmurHash3_x86_128 (a @ l @ b) seed \<longleftrightarrow> k = l) \<and>
      (MurmurHash3_x64_128 (a @ k @ b) seed = MurmurHash3_x64_128 (a @ l @ b) seed \<longleftrightarrow> k = l))"
  using assms by (simp add: nw_hash_struct_def x86_32_one_block x86_128_one_block x64_128_one_block)

theorem murmur_distinguishes_block_witness:
  "MurmurHash3_x86_32 ([1, 2, 3, 4] @ [5, 6, 7, 8] @ [9]) 42 \<noteq> MurmurHash3_x86_32 ([1, 2, 3, 4] @ [5, 6, 7, 9] @ [9]) 42 \<and>
   nw_hash_struct ([] @ [1, 0, 0, 0] @ replicate 12 0) \<noteq> nw_hash_struct ([] @ [2, 0, 0, 0] @ replicate 12 0) \<and>
   MurmurHash3_x86_128 ([] @ replicate 16 1 @ [3]) 0 \<noteq> MurmurHash3_x86_128 ([] @ replicate 16 2 @ [3]) 0 \<and>
   MurmurHash3_x64_128 ([] @ replicate 16 1 @ [3]) 0 \<noteq> MurmurHash3_x64_128 ([] @ replicate 16 2 @ [3]) 0"
  using murmur_distinguishes_block [of "[5, 6, 7, 8]" "[5, 6, 7, 9]" "[1, 2, 3, 4]" "[9]" 42]
    murmur_distinguishes_block [of "[1, 0, 0, 0]" "[2, 0, 0, 0]" "[]" "replicate 12 0" 0]
    murmur_distinguishes_block [of "replicate 16 1" "replicate 16 2" "[]" "[3]" 0]
  by (simp del: append.simps)

end
