(* ===== verification/Block_Allocator.thy ===== *)
theory Block_Allocator
  imports Ava_Prelude
begin

text \<open>
  The contract of an allocator that hands out consecutive blocks of one memory region: the zero-copy region
  (\<open>common/zcopy.c\<close>) and the partition of the shared memory BAR (\<open>guestdrv/vgpu_ldd.c\<close>) both keep it. A block is its start and its
  length; a request may be refused.
\<close>

text \<open>The blocks that are handed out for requests made in a row.\<close>

primrec take_list :: "('s \<Rightarrow> 'r \<Rightarrow> (nat \<times> nat) option \<times> 's) \<Rightarrow> 's \<Rightarrow> 'r list \<Rightarrow> (nat \<times> nat) list \<times> 's" where
  "take_list tk s [] = ([], s)"
| "take_list tk s (r # rs) =
     (let (b, s) = tk s r; (bs, s) = take_list tk s rs in (case b of None \<Rightarrow> bs | Some b \<Rightarrow> b # bs, s))"

definition bytes_of_block :: "nat \<times> nat \<Rightarrow> nat set" where
  "bytes_of_block b = {fst b ..< fst b + snd b}"

text \<open>\<open>ready s rs\<close>: the allocator is well-formed and the requests \<open>rs\<close> are admissible in this state.\<close>

locale bump_allocator =
  fixes tk :: "'s \<Rightarrow> 'r \<Rightarrow> (nat \<times> nat) option \<times> 's"
    and cursor lim :: "'s \<Rightarrow> nat"
    and ready :: "'s \<Rightarrow> 'r list \<Rightarrow> bool"
  assumes ready_step: "ready s (r # rs) \<Longrightarrow> ready (snd (tk s r)) rs"
    and lim_step: "ready s (r # rs) \<Longrightarrow> lim (snd (tk s r)) = lim s"
    and cursor_step: "ready s (r # rs) \<Longrightarrow> cursor s \<le> cursor (snd (tk s r))"
    and cursor_lim: "ready s rs \<Longrightarrow> cursor s \<le> lim s"
    and block_step: "ready s (r # rs) \<Longrightarrow> fst (tk s r) = Some b \<Longrightarrow> cursor s \<le> fst b \<and> fst b + snd b \<le> cursor (snd (tk s r))"
begin

lemma run_ready: "ready s rs \<Longrightarrow> ready (snd (take_list tk s rs)) []"
  by (induction rs arbitrary: s) (auto simp: case_prod_beta dest: ready_step)

lemma run_blocks:
  "ready s rs \<Longrightarrow> sorted_wrt (\<lambda>a b. fst a + snd a \<le> fst b) (fst (take_list tk s rs)) \<and>
   (\<forall>b \<in> set (fst (take_list tk s rs)). cursor s \<le> fst b \<and> fst b + snd b \<le> lim s)"
proof (induction rs arbitrary: s)
  case (Cons r rs)
  note ih = Cons.IH [OF ready_step [OF Cons.prems]]
  note st = lim_step [OF Cons.prems] cursor_step [OF Cons.prems] cursor_lim [OF ready_step [OF Cons.prems]]
  show ?case
  proof (cases "fst (tk s r)")
    case None
    then show ?thesis using ih st by (auto simp: case_prod_beta)
  next
    case (Some b)
    note bl = block_step [OF Cons.prems Some]
    have "cursor s \<le> fst b \<and> fst b + snd b \<le> lim s" using bl st by linarith
    moreover have "fst b + snd b \<le> fst c \<and> cursor s \<le> fst c \<and> fst c + snd c \<le> lim s"
      if "c \<in> set (fst (take_list tk (snd (tk s r)) rs))" for c
      using ih that bl st by fastforce
    ultimately show ?thesis using ih Some by (simp add: case_prod_beta)
  qed
qed simp

lemma run_disjoint:
  assumes "ready s rs"
  defines "bs \<equiv> fst (take_list tk s rs)"
  shows "\<forall>b \<in> set bs. bytes_of_block b \<subseteq> {cursor s ..< lim s}"
    and "i < length bs \<Longrightarrow> j < i \<Longrightarrow> bytes_of_block (bs ! j) \<inter> bytes_of_block (bs ! i) = {} \<and> fst (bs ! j) + snd (bs ! j) \<le> fst (bs ! i)"
proof -
  note r = run_blocks [OF assms(1), folded bs_def]
  show "\<forall>b \<in> set bs. bytes_of_block b \<subseteq> {cursor s ..< lim s}" using r by (fastforce simp: bytes_of_block_def)
  show "bytes_of_block (bs ! j) \<inter> bytes_of_block (bs ! i) = {} \<and> fst (bs ! j) + snd (bs ! j) \<le> fst (bs ! i)" if "i < length bs" "j < i"
    using sorted_wrt_nth_less [OF r [THEN conjunct1] that(2,1)] by (auto simp: bytes_of_block_def)
qed

end

end
