(* ===== verification/Zero_Copy.thy ===== *)
theory Zero_Copy
  imports Block_Allocator
begin

text \<open>
  The zero-copy region (\<open>common/zcopy.c\<close>) and the host driver behind it (\<open>hostdrv/zerocopy.c\<close>): construction on both
  sides, the bump allocator, physical addresses and position independent pointers, and the set-up and
  tear-down of the driver with its unwinding on errors. What the operating system answers is a parameter.
  Pointers are 64-bit words, so the additions wrap as they do in the code.
\<close>

section \<open>The region\<close>

definition VGPU_ZERO_COPY_SIZE :: u64 where "VGPU_ZERO_COPY_SIZE = 16 * 1024 * 1024"
definition ENCODED_PTR_OFFSET :: u64 where "ENCODED_PTR_OFFSET = 4096"

datatype errno = ENOMEM | EFAULT

record ava_zcopy_region =
  zfd :: int
  physical_base :: u64
  zbase :: pointer
  zsize :: u64
  allocation_ptr :: pointer

definition MAP_FAILED :: pointer where "MAP_FAILED = - 1"

text \<open>The answers of \<open>open\<close>, \<open>ioctl\<close> and \<open>mmap\<close> on one of the two devices.\<close>

record device_answers =
  ans_open :: int
  ans_phys :: "int \<times> u64"
  ans_request :: int
  ans_mmap :: pointer

text \<open>The constructors answer the region, or \<open>None\<close> for \<open>NULL\<close>, and the descriptors that stay open.\<close>

definition ava_zcopy_region_new_worker :: "device_answers \<Rightarrow> ava_zcopy_region option \<times> int set" where
  "ava_zcopy_region_new_worker host =
     (if ans_open host < 0 then (None, {})
      else if fst (ans_phys host) < 0 then (None, {ans_open host})
      else if ans_mmap host = MAP_FAILED then (None, {ans_open host})
      else (Some \<lparr>zfd = ans_open host, physical_base = snd (ans_phys host), zbase = ans_mmap host,
                  zsize = VGPU_ZERO_COPY_SIZE, allocation_ptr = ans_mmap host\<rparr>, {ans_open host}))"

definition ava_zcopy_region_new_guest :: "device_answers \<Rightarrow> device_answers \<Rightarrow> ava_zcopy_region option \<times> int set" where
  "ava_zcopy_region_new_guest vgpu host =
     (if ans_open vgpu < 0 then ava_zcopy_region_new_worker host
      else if fst (ans_phys vgpu) < 0 then (None, {ans_open vgpu})
      else if ans_request vgpu < 0 \<or> ans_mmap vgpu = MAP_FAILED then (None, {ans_open vgpu})
      else (Some \<lparr>zfd = ans_open vgpu, physical_base = snd (ans_phys vgpu), zbase = ans_mmap vgpu,
                  zsize = VGPU_ZERO_COPY_SIZE, allocation_ptr = ans_mmap vgpu\<rparr>, {ans_open vgpu}))"

text \<open>Releasing a region closes its descriptor.\<close>

definition ava_zcopy_region_free_region :: "ava_zcopy_region option \<Rightarrow> int set \<Rightarrow> int set res" where
  "ava_zcopy_region_free_region region fds =
     (case region of None \<Rightarrow> Inl (AssertFail ''region != NULL'') | Some r \<Rightarrow> Inr (fds - {zfd r}))"

section \<open>Allocation and translation\<close>

text \<open>Every operation asserts that the region exists.\<close>

definition with_region :: "ava_zcopy_region option \<Rightarrow> (ava_zcopy_region \<Rightarrow> 'a) \<Rightarrow> 'a res" where
  "with_region region f =
     (case region of None \<Rightarrow> Inl (AssertFail ''The appropriate zero-copy driver may not be installed.'') | Some r \<Rightarrow> Inr (f r))"

definition ava_zcopy_region_alloc :: "ava_zcopy_region option \<Rightarrow> u64 \<Rightarrow> (pointer \<times> errno option \<times> ava_zcopy_region) res" where
  "ava_zcopy_region_alloc region sz = with_region region (\<lambda>r.
     let ret = allocation_ptr r
     in if zbase r \<noteq> null_ptr \<and> ret + sz < zbase r + zsize r
        then (ret, None, r\<lparr>allocation_ptr := allocation_ptr r + sz\<rparr>)
        else (null_ptr, Some ENOMEM, r))"

definition ava_zcopy_region_free :: "ava_zcopy_region option \<Rightarrow> pointer \<Rightarrow> ava_zcopy_region res" where
  "ava_zcopy_region_free region ptr = with_region region (\<lambda>r. r)"

definition ava_zcopy_region_get_physical_address :: "ava_zcopy_region option \<Rightarrow> pointer \<Rightarrow> (u64 \<times> errno option) res" where
  "ava_zcopy_region_get_physical_address region ptr = with_region region (\<lambda>r.
     if zbase r = null_ptr \<or> ptr < zbase r \<or> ptr > zbase r + zsize r then (0, Some EFAULT)
     else (ptr - zbase r + physical_base r, None))"

definition ava_zcopy_region_encode_position_independent :: "ava_zcopy_region option \<Rightarrow> pointer \<Rightarrow> (pointer \<times> errno option) res" where
  "ava_zcopy_region_encode_position_independent region ptr = with_region region (\<lambda>r.
     if ptr = null_ptr then (null_ptr, None)
     else if zbase r = null_ptr \<or> ptr < zbase r \<or> ptr > zbase r + zsize r then (null_ptr, Some EFAULT)
     else (ptr - zbase r + ENCODED_PTR_OFFSET, None))"

definition ava_zcopy_region_decode_position_independent :: "ava_zcopy_region option \<Rightarrow> pointer \<Rightarrow> (pointer \<times> errno option) res" where
  "ava_zcopy_region_decode_position_independent region ptr = with_region region (\<lambda>r.
     if ptr = null_ptr then (null_ptr, None)
     else if zbase r = null_ptr \<or> ptr < ENCODED_PTR_OFFSET \<or> ptr > ENCODED_PTR_OFFSET + zsize r then (null_ptr, Some EFAULT)
     else (zbase r + ptr - ENCODED_PTR_OFFSET, None))"

section \<open>The host driver\<close>

text \<open>The resources that the module holds.\<close>

record zcopy_driver =
  chrdev_registered :: bool
  dev_class :: bool
  dev_node :: bool
  zcopy_va :: bool

definition zcopy_unloaded :: zcopy_driver where
  "zcopy_unloaded = \<lparr>chrdev_registered = False, dev_class = False, dev_node = False, zcopy_va = False\<rparr>"

definition NEG_ENOMEM :: int where "NEG_ENOMEM = - 12"
definition NEG_EINVAL :: int where "NEG_EINVAL = - 22"
definition NEG_EAGAIN :: int where "NEG_EAGAIN = - 11"

definition unregister_dev :: "zcopy_driver \<Rightarrow> int \<times> zcopy_driver" where
  "unregister_dev d = (NEG_ENOMEM, d\<lparr>chrdev_registered := False\<rparr>)"

definition destroy_class :: "zcopy_driver \<Rightarrow> int \<times> zcopy_driver" where
  "destroy_class d = unregister_dev (d\<lparr>dev_class := False\<rparr>)"

definition destroy_device :: "zcopy_driver \<Rightarrow> int \<times> zcopy_driver" where
  "destroy_device d = destroy_class (d\<lparr>dev_node := False\<rparr>)"

definition zcopy_init :: "bool \<Rightarrow> bool \<Rightarrow> bool \<Rightarrow> zcopy_driver \<Rightarrow> int \<times> zcopy_driver" where
  "zcopy_init class_ok device_ok dma_ok d =
     (let d = d\<lparr>chrdev_registered := True\<rparr>
      in if \<not> class_ok then unregister_dev d
         else let d = d\<lparr>dev_class := True\<rparr>
              in if \<not> device_ok then destroy_class d
                 else let d = d\<lparr>dev_node := True\<rparr>
                      in if \<not> dma_ok then destroy_device d else (0, d\<lparr>zcopy_va := True\<rparr>))"

definition zcopy_fini :: "zcopy_driver \<Rightarrow> zcopy_driver" where
  "zcopy_fini d = d\<lparr>zcopy_va := False, dev_node := False, dev_class := False, chrdev_registered := False\<rparr>"

text \<open>\<open>mmap\<close> of anything but the whole region is refused; the only \<open>ioctl\<close> answers the physical address. Another
  command leaves the answer of the caller's argument alone.\<close>

definition zcopy_mmap :: "int \<Rightarrow> u64 \<Rightarrow> u64 \<Rightarrow> int" where
  "zcopy_mmap dma_mmap vm_start vm_end = (if VGPU_ZERO_COPY_SIZE \<noteq> vm_end - vm_start then NEG_EAGAIN else dma_mmap)"

definition zcopy_ioctl :: "u32 \<Rightarrow> u64 \<Rightarrow> u32 \<Rightarrow> int \<times> u64 option" where
  "zcopy_ioctl get_phy_addr phys cmd = (if cmd = get_phy_addr then (0, Some phys) else (NEG_EINVAL, None))"

section \<open>Allocations\<close>

text \<open>A mapped region: it lies below \<open>2 ^ 63\<close>, as user space does, and the allocation pointer is inside.\<close>

definition region_ok :: "ava_zcopy_region \<Rightarrow> bool" where
  "region_ok r \<longleftrightarrow> zbase r \<noteq> null_ptr \<and> unat (zbase r) + unat (zsize r) < 2 ^ 63 \<and> zbase r \<le> allocation_ptr r \<and>
     unat (allocation_ptr r) \<le> unat (zbase r) + unat (zsize r)"

fun alloc_run :: "u64 list \<Rightarrow> ava_zcopy_region \<Rightarrow> ((pointer \<times> u64) list \<times> ava_zcopy_region) res" where
  "alloc_run [] r = Inr ([], r)"
| "alloc_run (sz # szs) r =
     rbind (ava_zcopy_region_alloc (Some r) sz) (\<lambda>(p, e, r).
     rbind (alloc_run szs r) (\<lambda>(ps, r). Inr (if p = null_ptr then ps else (p, sz) # ps, r)))"

definition block_of :: "pointer \<times> u64 \<Rightarrow> nat \<times> nat" where
  "block_of b = (unat (fst b), unat (snd b))"

lemma region_end: "region_ok r \<Longrightarrow> unat (zbase r + zsize r) = unat (zbase r) + unat (zsize r)"
  by (intro unat_plus_small) (simp add: region_ok_def)

lemma alloc_step:
  assumes "region_ok r" "sz < 2 ^ 63"
  shows "ava_zcopy_region_alloc (Some r) sz =
    (if unat (allocation_ptr r) + unat sz < unat (zbase r) + unat (zsize r)
     then Inr (allocation_ptr r, None, r\<lparr>allocation_ptr := allocation_ptr r + sz\<rparr>) else Inr (null_ptr, Some ENOMEM, r))"
    and "unat (allocation_ptr r + sz) = unat (allocation_ptr r) + unat sz"
proof -
  have "unat sz < 2 ^ 63" using assms(2) by (simp add: word_less_nat_alt)
  then show s: "unat (allocation_ptr r + sz) = unat (allocation_ptr r) + unat sz"
    using assms(1) by (intro unat_plus_small) (simp add: region_ok_def)
  show "ava_zcopy_region_alloc (Some r) sz =
    (if unat (allocation_ptr r) + unat sz < unat (zbase r) + unat (zsize r)
     then Inr (allocation_ptr r, None, r\<lparr>allocation_ptr := allocation_ptr r + sz\<rparr>) else Inr (null_ptr, Some ENOMEM, r))"
    using assms(1) s region_end [OF assms(1)]
    by (simp add: ava_zcopy_region_alloc_def with_region_def Let_def word_less_nat_alt region_ok_def)
qed

text \<open>The region keeps the contract of an allocator of consecutive blocks.\<close>

definition zcopy_take :: "ava_zcopy_region \<Rightarrow> u64 \<Rightarrow> (nat \<times> nat) option \<times> ava_zcopy_region" where
  "zcopy_take r sz =
     (case ava_zcopy_region_alloc (Some r) sz of
        Inl _ \<Rightarrow> (None, r)
      | Inr (p, e, r') \<Rightarrow> (if p = null_ptr then None else Some (block_of (p, sz)), r'))"

definition zcopy_ready :: "ava_zcopy_region \<Rightarrow> u64 list \<Rightarrow> bool" where
  "zcopy_ready r szs \<longleftrightarrow> region_ok r \<and> (\<forall>sz \<in> set szs. sz < 2 ^ 63)"

lemma zcopy_take_eq:
  assumes "zcopy_ready r (sz # szs)"
  shows "zcopy_take r sz = (if unat (allocation_ptr r) + unat sz < unat (zbase r) + unat (zsize r)
    then (Some (block_of (allocation_ptr r, sz)), r\<lparr>allocation_ptr := allocation_ptr r + sz\<rparr>) else (None, r))"
proof -
  have r: "region_ok r" "sz < 2 ^ 63" using assms by (simp_all add: zcopy_ready_def)
  have "allocation_ptr r \<noteq> null_ptr" using r(1) by (auto simp: region_ok_def word_le_nat_alt unat_eq_0)
  then show ?thesis using alloc_step(1) [OF r] by (simp add: zcopy_take_def)
qed

interpretation zcopy: bump_allocator zcopy_take "\<lambda>r. unat (allocation_ptr r)" "\<lambda>r. unat (zbase r) + unat (zsize r)" zcopy_ready
proof
  fix r sz szs b
  assume z: "zcopy_ready r (sz # szs)"
  then have r: "region_ok r" "sz < 2 ^ 63" by (simp_all add: zcopy_ready_def)
  note e = zcopy_take_eq [OF z] and u = alloc_step(2) [OF r]
  show "zcopy_ready (snd (zcopy_take r sz)) szs" using z e u by (auto simp: zcopy_ready_def region_ok_def word_le_nat_alt)
  show "unat (zbase (snd (zcopy_take r sz))) + unat (zsize (snd (zcopy_take r sz))) = unat (zbase r) + unat (zsize r)" using e by simp
  show "unat (allocation_ptr r) \<le> unat (allocation_ptr (snd (zcopy_take r sz)))" using e u by simp
  show "unat (allocation_ptr r) \<le> fst b \<and> fst b + snd b \<le> unat (allocation_ptr (snd (zcopy_take r sz)))" if "fst (zcopy_take r sz) = Some b"
    using that e u by (auto simp: block_of_def split: if_splits)
qed (simp add: zcopy_ready_def region_ok_def)

lemma alloc_run_take:
  "\<exists>ps. alloc_run szs r = Inr (ps, snd (take_list zcopy_take r szs)) \<and> map block_of ps = fst (take_list zcopy_take r szs)"
proof (induction szs arbitrary: r)
  case (Cons sz szs)
  obtain p e r' where "ava_zcopy_region_alloc (Some r) sz = Inr (p, e, r')"
    by (fastforce simp: ava_zcopy_region_alloc_def with_region_def Let_def)
  with Cons.IH [of r'] show ?case by (auto simp: zcopy_take_def case_prod_beta)
qed simp

section \<open>Properties\<close>

text \<open>C19: Any sequence of allocations, each below half of the address space, hands out blocks that lie inside the region, do
  not overlap and come in increasing order; a request that does not fit gets \<open>NULL\<close> and changes nothing.\<close>

theorem zcopy_allocations_disjoint:
  assumes "region_ok r" "\<forall>sz \<in> set szs. sz < 2 ^ 63"
  shows "\<exists>ps r'. alloc_run szs r = Inr (ps, r') \<and> region_ok r' \<and>
    (\<forall>b \<in> set ps. bytes_of_block (block_of b) \<subseteq> {unat (zbase r) ..< unat (zbase r) + unat (zsize r)}) \<and>
    (\<forall>i < length ps. \<forall>j < i. bytes_of_block (block_of (ps ! j)) \<inter> bytes_of_block (block_of (ps ! i)) = {} \<and> fst (ps ! j) \<le> fst (ps ! i))"
proof -
  have z: "zcopy_ready r szs" using assms by (simp add: zcopy_ready_def)
  from alloc_run_take [of szs r] obtain ps where
    a: "alloc_run szs r = Inr (ps, snd (take_list zcopy_take r szs))" "fst (take_list zcopy_take r szs) = map block_of ps" by (metis)
  note d = zcopy.run_disjoint [OF z, unfolded a(2)]
  have "unat (zbase r) \<le> unat (allocation_ptr r)" using assms(1) by (simp add: region_ok_def word_le_nat_alt)
  then have "\<forall>b \<in> set ps. bytes_of_block (block_of b) \<subseteq> {unat (zbase r) ..< unat (zbase r) + unat (zsize r)}" using d(1) by fastforce
  moreover have "bytes_of_block (block_of (ps ! j)) \<inter> bytes_of_block (block_of (ps ! i)) = {} \<and> fst (ps ! j) \<le> fst (ps ! i)"
    if "i < length ps" "j < i" for i j
    using d(2) [of i j] that by (auto simp: block_of_def word_le_nat_alt)
  ultimately show ?thesis using a(1) zcopy.run_ready [OF z] by (auto simp: zcopy_ready_def)
qed

definition ex_region :: "u64 \<Rightarrow> ava_zcopy_region" where
  "ex_region b = \<lparr>zfd = 3, physical_base = 0x1000, zbase = b, zsize = 100, allocation_ptr = b\<rparr>"

theorem zcopy_allocations_disjoint_witness:
  "\<exists>r'. alloc_run [40, 50, 20, 9] (ex_region 0x5000) = Inr ([(0x5000, 40), (0x5028, 50), (0x505a, 9)], r') \<and> region_ok r' \<and>
    bytes_of_block (block_of (0x5000, 40)) \<inter> bytes_of_block (block_of (0x5028, 50)) = {}"
proof -
  have ok: "region_ok (ex_region 0x5000)" "\<forall>sz \<in> set [40, 50, 20, 9]. sz < (2 ^ 63 :: u64)"
    by (simp_all add: region_ok_def ex_region_def)
  have run: "alloc_run [40, 50, 20, 9] (ex_region 0x5000) =
      Inr ([(0x5000, 40), (0x5028, 50), (0x505a, 9)], (ex_region 0x5000)\<lparr>allocation_ptr := 0x5063\<rparr>)"
    by (simp add: ava_zcopy_region_alloc_def with_region_def ex_region_def)
  from zcopy_allocations_disjoint [OF ok] obtain ps r' where t: "alloc_run [40, 50, 20, 9] (ex_region 0x5000) = Inr (ps, r')" "region_ok r'"
    "\<forall>i < length ps. \<forall>j < i. bytes_of_block (block_of (ps ! j)) \<inter> bytes_of_block (block_of (ps ! i)) = {} \<and> fst (ps ! j) \<le> fst (ps ! i)"
    by (elim exE conjE) (rule that)
  have ps: "ps = [(0x5000, 40), (0x5028, 50), (0x505a, 9)]" using t(1) run by simp
  have "bytes_of_block (block_of (0x5000, 40)) \<inter> bytes_of_block (block_of (0x5028, 50)) = {}" using t(3) [rule_format, of 1 0] unfolding ps by simp
  with t(1,2) show ?thesis unfolding ps by blast
qed

text \<open>C37: A position independent pointer that one side of the region encodes is decoded on the other side to the same offset,
  wherever the two sides have mapped the region; valid pointers are never encoded as \<open>NULL\<close>, \<open>NULL\<close> stays \<open>NULL\<close>, and
  both sides see the same physical address.\<close>

theorem zcopy_pointer_roundtrip:
  assumes "region_ok g" "region_ok w" "zsize g = zsize w" "physical_base g = physical_base w" "off \<le> zsize g"
  shows "\<exists>e. ava_zcopy_region_encode_position_independent (Some g) (zbase g + off) = Inr (e, None) \<and> e \<noteq> null_ptr \<and>
    ava_zcopy_region_decode_position_independent (Some w) e = Inr (zbase w + off, None) \<and>
    ava_zcopy_region_encode_position_independent (Some g) null_ptr = Inr (null_ptr, None) \<and>
    ava_zcopy_region_decode_position_independent (Some w) null_ptr = Inr (null_ptr, None) \<and>
    ava_zcopy_region_get_physical_address (Some g) (zbase g + off) = ava_zcopy_region_get_physical_address (Some w) (zbase w + off)"
proof -
  have u: "unat off \<le> unat (zsize g)" using assms(5) by (simp add: word_le_nat_alt)
  have in_range: "unat (zbase r + off) = unat (zbase r) + unat off" "zbase r \<noteq> null_ptr" "zbase r + off \<noteq> null_ptr"
    "zbase r \<le> zbase r + off" "zbase r + off \<le> zbase r + zsize r" if "region_ok r" "zsize r = zsize g" for r
  proof -
    show s: "unat (zbase r + off) = unat (zbase r) + unat off"
      using that u by (intro unat_plus_small) (simp add: region_ok_def)
    show nz: "zbase r \<noteq> null_ptr" using that by (simp add: region_ok_def)
    then show "zbase r + off \<noteq> null_ptr" using s by (metis add_is_0 unat_0 unsigned_eq_0_iff)
    show "zbase r \<le> zbase r + off" "zbase r + off \<le> zbase r + zsize r"
      using s u region_end [OF that(1)] that(2) by (simp_all add: word_le_nat_alt)
  qed
  have e: "unat (off + ENCODED_PTR_OFFSET) = unat off + 4096" "unat (ENCODED_PTR_OFFSET + zsize w) = 4096 + unat (zsize w)"
    using u assms(1-3) by (subst unat_plus_small; simp add: ENCODED_PTR_OFFSET_def region_ok_def)+
  then have "off + ENCODED_PTR_OFFSET \<noteq> null_ptr" "ENCODED_PTR_OFFSET \<le> off + ENCODED_PTR_OFFSET"
    "off + ENCODED_PTR_OFFSET \<le> ENCODED_PTR_OFFSET + zsize w"
    using u assms(3) by (auto simp: word_le_nat_alt ENCODED_PTR_OFFSET_def unat_eq_0 [symmetric])
  then show ?thesis
    using in_range [OF assms(1)] in_range [OF assms(2)] assms(3,4)
    by (simp add: ava_zcopy_region_encode_position_independent_def ava_zcopy_region_decode_position_independent_def
        ava_zcopy_region_get_physical_address_def with_region_def not_less algebra_simps)
qed

theorem zcopy_pointer_roundtrip_witness:
  "\<exists>e. ava_zcopy_region_encode_position_independent (Some (ex_region 0x5000)) (0x5000 + 10) = Inr (e, None) \<and> e \<noteq> null_ptr \<and>
    ava_zcopy_region_decode_position_independent (Some (ex_region 0x9000)) e = Inr (0x900a, None)"
proof -
  have "region_ok (ex_region 0x5000)" "region_ok (ex_region 0x9000)" "zsize (ex_region 0x5000) = zsize (ex_region 0x9000)"
    "physical_base (ex_region 0x5000) = physical_base (ex_region 0x9000)" "10 \<le> zsize (ex_region 0x5000)"
    by (simp_all add: region_ok_def ex_region_def)
  from zcopy_pointer_roundtrip [OF this] show ?thesis by (auto simp: ex_region_def)
qed

text \<open>The bounds check of the allocator wraps: a request of \<open>2 ^ 64 - d\<close> bytes succeeds whenever \<open>d\<close> bytes have been
  handed out, and moves the allocation pointer back, so that the next request receives memory that is already in use.\<close>

theorem zcopy_alloc_wraps:
  assumes "region_ok r" "0 < d" "unat d \<le> unat (allocation_ptr r) - unat (zbase r)" "n \<le> d"
  shows "\<exists>r'. ava_zcopy_region_alloc (Some r) (- d) = Inr (allocation_ptr r, None, r') \<and>
    unat (allocation_ptr r') = unat (allocation_ptr r) - unat d \<and>
    (unat (allocation_ptr r) - unat d + unat n < unat (zbase r) + unat (zsize r) \<longrightarrow>
      (\<exists>r''. ava_zcopy_region_alloc (Some r') n = Inr (allocation_ptr r - d, None, r'')))"
proof -
  have d: "0 < unat d" "unat d \<le> unat (allocation_ptr r)" using assms(2,3) by (auto simp: word_less_nat_alt)
  have s: "unat (allocation_ptr r - d) = unat (allocation_ptr r) - unat d"
    using d(2) by (simp add: unat_sub_if_size word_le_nat_alt)
  have b: "zbase r \<noteq> null_ptr" "unat (allocation_ptr r) \<le> unat (zbase r) + unat (zsize r)" "unat (zbase r) + unat (zsize r) < 2 ^ 63"
    using assms(1) by (auto simp: region_ok_def)
  have lt: "allocation_ptr r + - d < zbase r + zsize r"
    using s d b region_end [OF assms(1)] by (simp add: word_less_nat_alt)
  have n: "unat n \<le> unat d" using assms(4) by (simp add: word_le_nat_alt)
  have "unat (allocation_ptr r - d + n) = unat (allocation_ptr r) - unat d + unat n"
    using s n d b by (subst unat_plus_small) simp_all
  then show ?thesis
    using lt s b region_end [OF assms(1)]
    by (simp add: ava_zcopy_region_alloc_def with_region_def Let_def word_less_nat_alt)
qed

theorem zcopy_alloc_wraps_witness:
  "\<exists>r' r''. ava_zcopy_region_alloc (Some ((ex_region 0x5000)\<lparr>allocation_ptr := 0x5028\<rparr>)) (- 40) = Inr (0x5028, None, r') \<and>
    ava_zcopy_region_alloc (Some r') 10 = Inr (0x5000, None, r'')"
proof -
  let ?r = "(ex_region 0x5000)\<lparr>allocation_ptr := 0x5028\<rparr>"
  have "region_ok ?r" "0 < (40 :: u64)" "unat (40 :: u64) \<le> unat (allocation_ptr ?r) - unat (zbase ?r)" "10 \<le> (40 :: u64)"
    by (simp_all add: region_ok_def ex_region_def)
  from zcopy_alloc_wraps [OF this] show ?thesis by (auto simp: ex_region_def)
qed

text \<open>The host driver holds all of its resources or none: when set-up fails at any step it answers an error and has
  undone every earlier step, and unloading after a successful set-up releases everything.\<close>

lemma zcopy_driver_all_or_nothing:
  "(case zcopy_init class_ok device_ok dma_ok zcopy_unloaded of (err, d) \<Rightarrow>
      if class_ok \<and> device_ok \<and> dma_ok
      then err = 0 \<and> d = \<lparr>chrdev_registered = True, dev_class = True, dev_node = True, zcopy_va = True\<rparr> \<and> zcopy_fini d = zcopy_unloaded
      else err < 0 \<and> d = zcopy_unloaded)"
  by (simp add: zcopy_init_def zcopy_unloaded_def zcopy_fini_def unregister_dev_def destroy_class_def destroy_device_def
      NEG_ENOMEM_def Let_def)

end
