(* ===== verification/Shadow_Threads.thy ===== *)
theory Shadow_Threads
  imports Commands
begin

text \<open>
  The shadow thread pool (\<open>common/shadow_thread_pool.c\<close>): commands are queued to one thread per remote thread
  identifier, which executes them in turn. The operations are functions on the pool; their interleaving is a step
  relation with the receiving thread, the shadow threads and the destructor that the thread library runs when
  a thread of the pool ends. Thread identifiers that \<open>pthread_create\<close> hands out are parameters.
\<close>

section \<open>Data\<close>

definition THREAD_EXIT :: u64 where "THREAD_EXIT = 3"
definition INTERNAL_API :: u8 where "INTERNAL_API = 0"

record shadow_thread =
  ava_id :: u64
  queue :: "bytes list"
  thread :: u64

record shadow_thread_pool =
  threads :: "u64 \<rightharpoonup> shadow_thread"

definition shadow_thread_pool_new :: shadow_thread_pool where
  "shadow_thread_pool_new = \<lparr>threads = Map.empty\<rparr>"

definition is_exit :: "bytes \<Rightarrow> bool" where
  "is_exit cmd \<longleftrightarrow> api_id (base_of cmd) = INTERNAL_API \<and> command_id (base_of cmd) = THREAD_EXIT"

section \<open>Operations\<close>

text \<open>\<open>create\<close> is the result of \<open>pthread_create\<close> and \<open>tid\<close> the new thread.\<close>

definition shadow_thread_new :: "int \<Rightarrow> u64 \<Rightarrow> u64 \<Rightarrow> shadow_thread_pool \<Rightarrow> (shadow_thread \<times> shadow_thread_pool) res" where
  "shadow_thread_new create tid ava pool =
     rbind (c_assert (threads pool ava = None) ''g_hash_table_lookup(pool->threads, ava_id) == NULL'') (\<lambda>_.
     rbind (c_assert (create = 0) ''r == 0'') (\<lambda>_.
     rbind (c_assert (tid \<noteq> ava) ''t->thread != ava_id'') (\<lambda>_.
     let t = \<lparr>ava_id = ava, queue = [], thread = tid\<rparr>
     in Inr (t, pool\<lparr>threads := (threads pool)(ava \<mapsto> t)\<rparr>))))"

text \<open>\<open>key\<close> is the thread-specific value (the identifier of the pool entry), \<open>self\<close> the calling thread.\<close>

definition shadow_thread_self ::
  "u64 option \<Rightarrow> u64 \<Rightarrow> shadow_thread_pool \<Rightarrow> (u64 \<times> u64 option \<times> shadow_thread_pool) res" where
  "shadow_thread_self key self pool =
     (case key of
        Some t \<Rightarrow> Inr (t, key, pool)
      | None \<Rightarrow>
          rbind (c_assert (threads pool self = None) ''g_hash_table_lookup(pool->threads, ava_id) == NULL'') (\<lambda>_.
          Inr (self, Some self, pool\<lparr>threads := (threads pool)(self \<mapsto> \<lparr>ava_id = self, queue = [], thread = self\<rparr>)\<rparr>)))"

definition shadow_thread_id :: "u64 option \<Rightarrow> u64 \<Rightarrow> shadow_thread_pool \<Rightarrow> (u64 \<times> u64 option \<times> shadow_thread_pool) res" where
  "shadow_thread_id key self pool = shadow_thread_self key self pool"

definition push :: "u64 \<Rightarrow> bytes \<Rightarrow> shadow_thread_pool \<Rightarrow> shadow_thread_pool" where
  "push t cmd pool = pool\<lparr>threads := (threads pool)(t := map_option (\<lambda>s. s\<lparr>queue := queue s @ [cmd]\<rparr>) (threads pool t))\<rparr>"

text \<open>The result tells whether the command was queued; an exit for an unknown thread is dropped.\<close>

definition shadow_thread_pool_dispatch :: "int \<Rightarrow> u64 \<Rightarrow> bytes \<Rightarrow> shadow_thread_pool \<Rightarrow> (bool \<times> shadow_thread_pool) res" where
  "shadow_thread_pool_dispatch create tid cmd pool =
     (let t = thread_id (base_of cmd)
      in case threads pool t of
           None \<Rightarrow> if is_exit cmd then Inr (False, pool)
                   else rbind (shadow_thread_new create tid t pool) (\<lambda>(_, pool). Inr (True, push t cmd pool))
         | Some _ \<Rightarrow> Inr (True, push t cmd pool))"

text \<open>One command of the calling thread's queue: \<open>None\<close> while the queue is empty, otherwise whether the thread is
  asked to exit, the command, and the pool.\<close>

definition shadow_thread_handle_single_command ::
  "u64 \<Rightarrow> shadow_thread_pool \<Rightarrow> (bool \<times> bytes \<times> shadow_thread_pool) res option" where
  "shadow_thread_handle_single_command t pool =
     (case threads pool t of
        None \<Rightarrow> Some (Inl UseAfterFree)
      | Some s \<Rightarrow>
          (case queue s of
             [] \<Rightarrow> None
           | cmd # q \<Rightarrow>
               let pool = pool\<lparr>threads := (threads pool)(t \<mapsto> s\<lparr>queue := q\<rparr>)\<rparr>
               in Some (if is_exit cmd then Inr (True, cmd, pool)
                        else rbind (c_assert (thread_id (base_of cmd) = ava_id s) ''cmd->thread_id == t->ava_id'') (\<lambda>_.
                             Inr (False, cmd, pool)))))"

text \<open>The destructor: a solid thread tells the other side to exit its shadow; the entry and its queue go. The
  result is the exit command that is sent, if any.\<close>

definition shadow_thread_free_from_thread :: "u64 \<Rightarrow> shadow_thread_pool \<Rightarrow> (u64 option \<times> bytes list \<times> shadow_thread_pool) res" where
  "shadow_thread_free_from_thread t pool =
     (case threads pool t of
        None \<Rightarrow> Inl UseAfterFree
      | Some s \<Rightarrow> Inr (if ava_id s = thread s then Some (ava_id s) else None, queue s,
                      pool\<lparr>threads := (threads pool)(ava_id s := None)\<rparr>))"

section \<open>Interleavings\<close>

text \<open>\<open>dying\<close> are the shadow threads that have taken their exit command but whose destructor has not run yet. The
  histories record what was queued, what was executed (exits included) and what a destructor threw away.\<close>

record pool_sys =
  pool :: shadow_thread_pool
  dying :: "u64 set"
  queued :: "bytes list"
  executed :: "bytes list"
  thrown :: "bytes list"

definition pool_sys_init :: pool_sys where
  "pool_sys_init = \<lparr>pool = shadow_thread_pool_new, dying = {}, queued = [], executed = [], thrown = []\<rparr>"

inductive pool_step :: "pool_sys \<Rightarrow> pool_sys \<Rightarrow> bool" where
  dispatch: "shadow_thread_pool_dispatch 0 tid cmd (pool s) = Inr (q, p) \<Longrightarrow>
    pool_step s (s\<lparr>pool := p, queued := queued s @ (if q then [cmd] else [])\<rparr>)"
| handle: "t \<notin> dying s \<Longrightarrow> threads (pool s) t \<noteq> None \<Longrightarrow>
    shadow_thread_handle_single_command t (pool s) = Some (Inr (ex, cmd, p)) \<Longrightarrow>
    pool_step s (s\<lparr>pool := p, dying := (if ex then insert t (dying s) else dying s), executed := executed s @ [cmd]\<rparr>)"
| destroy: "t \<in> dying s \<Longrightarrow> shadow_thread_free_from_thread t (pool s) = Inr (e, q, p) \<Longrightarrow>
    pool_step s (s\<lparr>pool := p, dying := dying s - {t}, thrown := thrown s @ q\<rparr>)"
| solid: "shadow_thread_self None self (pool s) = Inr (t, k, p) \<Longrightarrow> pool_step s (s\<lparr>pool := p\<rparr>)"
| solid_exit: "threads (pool s) t = Some sh \<Longrightarrow> ava_id sh = thread sh \<Longrightarrow> shadow_thread_free_from_thread t (pool s) = Inr (e, q, p) \<Longrightarrow>
    pool_step s (s\<lparr>pool := p, dying := dying s - {t}, thrown := thrown s @ q\<rparr>)"

inductive_cases pool_stepE: "pool_step s s'"

definition of_thread :: "u64 \<Rightarrow> bytes list \<Rightarrow> bytes list" where
  "of_thread t cmds = filter (\<lambda>c. thread_id (base_of c) = t) cmds"

definition queue_of :: "u64 \<Rightarrow> shadow_thread_pool \<Rightarrow> bytes list" where
  "queue_of t p = (case threads p t of None \<Rightarrow> [] | Some s \<Rightarrow> queue s)"

lemma of_thread_simps [simp]:
  "of_thread t [] = []" "of_thread t (xs @ ys) = of_thread t xs @ of_thread t ys"
  "of_thread t (c # cs) = (if thread_id (base_of c) = t then c # of_thread t cs else of_thread t cs)"
  by (simp_all add: of_thread_def)

text \<open>Each entry is filed under its own identifier and its queue holds only commands for it; dying threads are
  still in the pool.\<close>

definition pool_ok :: "pool_sys \<Rightarrow> bool" where
  "pool_ok s \<longleftrightarrow>
     (\<forall>t sh. threads (pool s) t = Some sh \<longrightarrow> ava_id sh = t \<and> (\<forall>c \<in> set (queue sh). thread_id (base_of c) = t)) \<and>
     (\<forall>t \<in> dying s. threads (pool s) t \<noteq> None)"

text \<open>What was executed for a thread and what waits in its queue is what was queued for it, in order, as long as nothing
  was thrown away.\<close>

definition fifo :: "pool_sys \<Rightarrow> bool" where
  "fifo s \<longleftrightarrow> (\<forall>t. of_thread t (thrown s) = [] \<longrightarrow> of_thread t (executed s) @ queue_of t (pool s) = of_thread t (queued s))"

lemma dispatch_threads:
  assumes "shadow_thread_pool_dispatch create tid cmd p = Inr (q, p')"
  shows "q \<Longrightarrow> queue_of t p' = queue_of t p @ of_thread t [cmd]" "\<not> q \<Longrightarrow> p' = p"
    "threads p' t = Some sh \<Longrightarrow> (\<exists>s0. threads p t = Some s0 \<and> ava_id sh = ava_id s0 \<and> queue sh = queue s0 @ of_thread t [cmd]) \<or>
      ava_id sh = t \<and> queue sh = [cmd] \<and> t = thread_id (base_of cmd)"
    "threads p t \<noteq> None \<Longrightarrow> threads p' t \<noteq> None"
  using assms
  by (auto simp: shadow_thread_pool_dispatch_def shadow_thread_new_def push_def queue_of_def Let_def res_simps
      split: option.splits if_splits)

lemma handle_threads:
  assumes "shadow_thread_handle_single_command t p = Some (Inr (ex, cmd, p'))"
  obtains s q where "threads p t = Some s" "queue s = cmd # q" "threads p' = (threads p)(t \<mapsto> s\<lparr>queue := q\<rparr>)"
  using assms by (auto simp: shadow_thread_handle_single_command_def Let_def res_simps split: option.splits list.splits if_splits)

lemma free_threads:
  assumes "shadow_thread_free_from_thread t p = Inr (e, q, p')"
  obtains s where "threads p t = Some s" "q = queue s" "threads p' = (threads p)(ava_id s := None)"
  using assms by (auto simp: shadow_thread_free_from_thread_def split: option.splits)

lemma self_threads:
  assumes "shadow_thread_self None self p = Inr (t, k, p')"
  shows "threads p self = None" "threads p' = (threads p)(self \<mapsto> \<lparr>ava_id = self, queue = [], thread = self\<rparr>)"
  using assms by (auto simp: shadow_thread_self_def res_simps)

lemma pool_step_ok:
  assumes "pool_step s s'" "pool_ok s"
  shows "pool_ok s'"
  using assms(1)
proof cases
  case (dispatch tid cmd q p)
  have "ava_id sh = t \<and> (\<forall>c \<in> set (queue sh). thread_id (base_of c) = t)" if "threads p t = Some sh" for t sh
    using dispatch_threads(3) [OF dispatch(2) that] assms(2) by (auto simp: pool_ok_def of_thread_def split: if_splits)
  moreover have "\<forall>t \<in> dying s. threads p t \<noteq> None" using dispatch_threads(4) [OF dispatch(2)] assms(2) by (simp add: pool_ok_def)
  ultimately show ?thesis using dispatch(1) by (simp add: pool_ok_def)
next
  case (handle t ex cmd p)
  from handle_threads [OF handle(4)] obtain sh q where
    h: "threads (pool s) t = Some sh" "queue sh = cmd # q" "threads p = (threads (pool s))(t \<mapsto> sh\<lparr>queue := q\<rparr>)" .
  then show ?thesis using handle(1) assms(2) by (auto simp: pool_ok_def)
next
  case (destroy t e q p)
  from free_threads [OF destroy(3)] obtain sh where
    "threads (pool s) t = Some sh" "threads p = (threads (pool s))(ava_id sh := None)" .
  then show ?thesis using destroy(1) assms(2) by (auto simp: pool_ok_def)
next
  case (solid self t k p)
  then show ?thesis using self_threads [OF solid(2)] assms(2) by (auto simp: pool_ok_def)
next
  case (solid_exit t sh e q p)
  from free_threads [OF solid_exit(4)] obtain sh where
    "threads (pool s) t = Some sh" "threads p = (threads (pool s))(ava_id sh := None)" .
  then show ?thesis using solid_exit(1) assms(2) by (auto simp: pool_ok_def)
qed

lemma free_fifo:
  assumes "shadow_thread_free_from_thread t (pool s) = Inr (e, q, p)" "pool_ok s" "fifo s"
  shows "fifo (s\<lparr>pool := p, dying := D, thrown := thrown s @ q\<rparr>)"
proof -
  from free_threads [OF assms(1)] obtain sh where
    f: "threads (pool s) t = Some sh" "q = queue sh" "threads p = (threads (pool s))(ava_id sh := None)" .
  then have o: "ava_id sh = t" "\<forall>c \<in> set q. thread_id (base_of c) = t" using assms(2) by (auto simp: pool_ok_def)
  have "of_thread u (executed s) @ queue_of u p = of_thread u (queued s)" if "of_thread u (thrown s @ q) = []" for u
  proof (cases "u = t")
    case True
    then have "q = []" using that o(2) by (cases q) (auto simp: of_thread_def)
    then have "queue_of u p = queue_of u (pool s)" using f o(1) True by (simp add: queue_of_def)
    then show ?thesis using assms(3) that by (simp add: fifo_def)
  next
    case False
    then have "queue_of u p = queue_of u (pool s)" using f o(1) by (simp add: queue_of_def)
    then show ?thesis using assms(3) that by (simp add: fifo_def)
  qed
  then show ?thesis by (simp add: fifo_def)
qed

lemma pool_step_fifo:
  assumes "pool_step s s'" "pool_ok s" "fifo s"
  shows "fifo s'"
  using assms(1)
proof cases
  case (dispatch tid cmd q p)
  then show ?thesis using assms(3) dispatch_threads(1,2) [OF dispatch(2)] by (cases q) (simp_all add: fifo_def)
next
  case (handle t ex cmd p)
  from handle_threads [OF handle(4)] obtain sh q where
    h: "threads (pool s) t = Some sh" "queue sh = cmd # q" "threads p = (threads (pool s))(t \<mapsto> sh\<lparr>queue := q\<rparr>)" .
  then have c: "thread_id (base_of cmd) = t" using assms(2) by (fastforce simp: pool_ok_def)
  have "of_thread u [cmd] @ queue_of u p = queue_of u (pool s)" for u using h c by (auto simp: queue_of_def)
  then show ?thesis using handle(1) assms(3) by (auto simp: fifo_def)
next
  case (destroy t e q p)
  then show ?thesis using free_fifo [OF destroy(3) assms(2,3)] by simp
next
  case (solid self t k p)
  have "queue_of u p = queue_of u (pool s)" for u using self_threads [OF solid(2)] by (simp add: queue_of_def)
  then show ?thesis using solid(1) assms(3) by (simp add: fifo_def)
next
  case (solid_exit t sh e q p)
  then show ?thesis using free_fifo [OF solid_exit(4) assms(2,3)] by simp
qed

lemma reachable_pool:
  assumes "pool_step\<^sup>*\<^sup>* pool_sys_init s"
  shows "pool_ok s \<and> fifo s"
  using assms
proof (induction rule: rtranclp_induct)
  case base
  show ?case by (simp add: pool_ok_def fifo_def pool_sys_init_def shadow_thread_pool_new_def queue_of_def)
next
  case (step s s')
  then show ?case using pool_step_ok pool_step_fifo by blast
qed

section \<open>Properties\<close>

text \<open>C4: Under every interleaving of the receiving thread, the threads of the pool and their destructors, the commands of a remote
  thread are executed in the order in which they arrived and exactly once, and none runs on another thread's
  behalf: what was executed for it followed by what still waits is what was queued for it, provided that no
  command for it was thrown away with a queue. The assertions of the handling loop never fail.\<close>

theorem shadow_threads_fifo:
  assumes "pool_step\<^sup>*\<^sup>* pool_sys_init s"
  shows "(of_thread t (thrown s) = [] \<longrightarrow> of_thread t (executed s) @ queue_of t (pool s) = of_thread t (queued s)) \<and>
    (\<forall>e. threads (pool s) t \<noteq> None \<longrightarrow> shadow_thread_handle_single_command t (pool s) \<noteq> Some (Inl e))"
proof -
  have ok: "pool_ok s" "fifo s" using reachable_pool [OF assms] by simp_all
  have "shadow_thread_handle_single_command t (pool s) \<noteq> Some (Inl e)" if "threads (pool s) t \<noteq> None" for e
  proof -
    from that obtain sh where sh: "threads (pool s) t = Some sh" by auto
    then have "ava_id sh = t" "\<forall>c \<in> set (queue sh). thread_id (base_of c) = t" using ok(1) by (auto simp: pool_ok_def)
    then show ?thesis using sh by (cases "queue sh") (simp_all add: shadow_thread_handle_single_command_def Let_def)
  qed
  then show ?thesis using ok(2) by (simp add: fifo_def)
qed

definition ex_thread_cmd :: "u64 \<Rightarrow> u8 \<Rightarrow> u64 \<Rightarrow> bytes" where
  "ex_thread_cmd t api cid = set_base (zero_base\<lparr>thread_id := t, api_id := api, command_id := cid, command_size := 136\<rparr>) (replicate 136 0)"

lemma ex_thread_cmd_base [simp]:
  "base_of (ex_thread_cmd t api cid) = zero_base\<lparr>thread_id := t, api_id := api, command_id := cid, command_size := 136\<rparr>"
  by (simp add: ex_thread_cmd_def base_ok_def zero_base_def)

text \<open>A run with two commands for thread 5, the first of which is executed.\<close>

definition ex_pool :: "bytes list \<Rightarrow> shadow_thread_pool" where
  "ex_pool q = \<lparr>threads = [5 \<mapsto> \<lparr>ava_id = 5, queue = q, thread = 77\<rparr>]\<rparr>"

lemma ex_pool_run:
  "pool_step\<^sup>*\<^sup>* pool_sys_init
     \<lparr>pool = ex_pool [ex_thread_cmd 5 7 2], dying = {}, queued = [ex_thread_cmd 5 7 1, ex_thread_cmd 5 7 2],
      executed = [ex_thread_cmd 5 7 1], thrown = []\<rparr>"
proof -
  let ?a = "ex_thread_cmd 5 7 1" and ?b = "ex_thread_cmd 5 7 2"
  let ?s1 = "\<lparr>pool = ex_pool [?a], dying = {}, queued = [?a], executed = [], thrown = []\<rparr>"
  let ?s2 = "\<lparr>pool = ex_pool [?a, ?b], dying = {}, queued = [?a, ?b], executed = [], thrown = []\<rparr>"
  have "shadow_thread_pool_dispatch 0 77 ?a (pool pool_sys_init) = Inr (True, ex_pool [?a])"
    by (simp add: pool_sys_init_def shadow_thread_pool_new_def shadow_thread_pool_dispatch_def shadow_thread_new_def push_def
        ex_pool_def is_exit_def INTERNAL_API_def Let_def)
  from pool_step.dispatch [OF this] have 1: "pool_step pool_sys_init ?s1" by (simp add: pool_sys_init_def)
  have "shadow_thread_pool_dispatch 0 78 ?b (pool ?s1) = Inr (True, ex_pool [?a, ?b])"
    by (simp add: shadow_thread_pool_dispatch_def push_def ex_pool_def Let_def)
  from pool_step.dispatch [OF this] have 2: "pool_step ?s1 ?s2" by simp
  have "shadow_thread_handle_single_command 5 (pool ?s2) = Some (Inr (False, ?a, ex_pool [?b]))"
    by (simp add: shadow_thread_handle_single_command_def ex_pool_def is_exit_def INTERNAL_API_def Let_def)
  from pool_step.handle [OF _ _ this] have 3: "pool_step ?s2 \<lparr>pool = ex_pool [?b], dying = {}, queued = [?a, ?b], executed = [?a], thrown = []\<rparr>"
    by (simp add: ex_pool_def)
  show ?thesis
    by (rule converse_rtranclp_into_rtranclp [where r = pool_step, OF 1], rule converse_rtranclp_into_rtranclp [where r = pool_step, OF 2],
        rule r_into_rtranclp [where r = pool_step, OF 3])
qed

theorem shadow_threads_fifo_witness:
  "of_thread 5 [ex_thread_cmd 5 7 1] @ queue_of 5 (ex_pool [ex_thread_cmd 5 7 2]) = of_thread 5 [ex_thread_cmd 5 7 1, ex_thread_cmd 5 7 2] \<and>
   shadow_thread_handle_single_command 5 (ex_pool [ex_thread_cmd 5 7 2]) \<noteq> Some (Inl NullDeref)"
  using shadow_threads_fifo [OF ex_pool_run, of 5] by (simp add: ex_pool_def)

text \<open>A shadow thread that has taken its exit command stays in the pool until its destructor runs; a command for its remote
  thread that arrives in between is queued to it instead of starting a new thread, and is thrown away unexecuted.\<close>

theorem late_command_thrown_away:
  assumes "pool_ok s" "t \<in> dying s" "thread_id (base_of cmd) = t"
  shows "\<exists>s1 s2. pool_step s s1 \<and> pool_step s1 s2 \<and> queued s2 = queued s @ [cmd] \<and> executed s2 = executed s \<and>
    cmd \<in> set (thrown s2) \<and> threads (pool s2) t = None"
proof -
  from assms obtain sh where sh: "threads (pool s) t = Some sh" "ava_id sh = t" by (auto simp: pool_ok_def)
  have d: "shadow_thread_pool_dispatch 0 0 cmd (pool s) = Inr (True, push t cmd (pool s))"
    using sh(1) assms(3) by (simp add: shadow_thread_pool_dispatch_def Let_def)
  let ?s1 = "s\<lparr>pool := push t cmd (pool s), queued := queued s @ [cmd]\<rparr>"
  from pool_step.dispatch [OF d] have 1: "pool_step s ?s1" by simp
  have "shadow_thread_free_from_thread t (pool ?s1) = Inr (if t = thread sh then Some t else None, queue sh @ [cmd],
      (pool ?s1)\<lparr>threads := (threads (pool ?s1))(t := None)\<rparr>)"
    using sh by (simp add: shadow_thread_free_from_thread_def push_def)
  from pool_step.destroy [OF _ this] have 2: "pool_step ?s1 (?s1\<lparr>pool := (pool ?s1)\<lparr>threads := (threads (pool ?s1))(t := None)\<rparr>,
      dying := dying s - {t}, thrown := thrown s @ queue sh @ [cmd]\<rparr>)" using assms(2) by simp
  show ?thesis by (intro exI conjI, rule 1, rule 2) simp_all
qed

theorem late_command_thrown_away_witness:
  "\<exists>s1 s2. pool_step \<lparr>pool = ex_pool [], dying = {5}, queued = [], executed = [], thrown = []\<rparr> s1 \<and> pool_step s1 s2 \<and>
    queued s2 = [ex_thread_cmd 5 7 1] \<and> executed s2 = [] \<and> ex_thread_cmd 5 7 1 \<in> set (thrown s2)"
proof -
  let ?s = "\<lparr>pool = ex_pool [], dying = {5}, queued = [], executed = [], thrown = []\<rparr>"
  have "pool_ok ?s" "5 \<in> dying ?s" "thread_id (base_of (ex_thread_cmd 5 7 1)) = 5" by (simp_all add: pool_ok_def ex_pool_def)
  from late_command_thrown_away [OF this] show ?thesis by fastforce
qed

end
