(* ===== verification/Batching.thy ===== *)
theory Batching
  imports Commands
begin

text \<open>
  Command batching (\<open>guestlib/extensions/cmd_batching.c\<close> and \<open>worker/extensions/cmd_batching.c\<close>): the guest queues commands, a
  processing thread sends synchronous commands at once and collects asynchronous ones into one buffer,
  which the worker walks through and executes. GLib's queues are lists; the time that the timer shows is a parameter of
  each iteration. \<open>g_timer_elapsed\<close> answers seconds, so a number of microseconds is compared after scaling.
\<close>

section \<open>Data\<close>

definition BATCH_SIZE :: nat where "BATCH_SIZE = 50"
definition BATCH_TIME_OUT_US :: nat where "BATCH_TIME_OUT_US = 10000"

record command_wrapper =
  wrap_cmd :: bytes
  is_async :: bool

record command_batch =
  pending_cmds :: "command_wrapper list"
  active_cmds :: "bytes list"
  running :: bool

text \<open>What the processing thread sends: one synchronous command, or the buffer of a batch.\<close>

datatype emission = Single bytes | Batch bytes

definition cmd_total :: "bytes \<Rightarrow> u64" where
  "cmd_total cmd = command_size (base_of cmd) + region_size (base_of cmd)"

definition cmd_batch_thread_init :: command_batch where
  "cmd_batch_thread_init = \<lparr>pending_cmds = [], active_cmds = [], running = True\<rparr>"

text \<open>Stopping drops the commands that were collected; the queue of pending ones is leaked.\<close>

definition cmd_batch_thread_fini :: "command_batch \<Rightarrow> command_batch" where
  "cmd_batch_thread_fini b = b\<lparr>running := False, active_cmds := []\<rparr>"

definition batch_insert_command :: "bytes \<Rightarrow> bool \<Rightarrow> command_batch \<Rightarrow> command_batch" where
  "batch_insert_command cmd async b = b\<lparr>pending_cmds := pending_cmds b @ [\<lparr>wrap_cmd = cmd, is_async = async\<rparr>]\<rparr>"

section \<open>Emitting a batch\<close>

fun drain :: "bytes list \<Rightarrow> bytes list \<Rightarrow> u64 \<Rightarrow> bytes list \<times> u64" where
  "drain [] q n = (q, n)"
| "drain (cmd # cmds) q n = drain cmds (cmd # q) (n + cmd_total cmd)"

function emit_loop :: "bytes list \<Rightarrow> bytes \<Rightarrow> u64 \<Rightarrow> (bytes \<times> u64) res" where
  "emit_loop q buf offset =
     (if q = [] then Inr (buf, offset)
      else let cmd = last q
           in rbind (mem_read 0 (unat (cmd_total cmd)) cmd) (\<lambda>img.
              rbind (mem_write (unat offset) img buf) (\<lambda>buf.
              emit_loop (butlast q) buf (offset + cmd_total cmd))))"
  by pat_completeness auto
termination by (relation "measure (\<lambda>(q, _). length q)") auto

definition batch_emit :: "(nat \<Rightarrow> bytes) \<Rightarrow> bytes list \<Rightarrow> bytes res" where
  "batch_emit mal active =
     (let (q, total_size) = drain active [] 0
      in rbind (emit_loop q (mal (unat total_size)) 0) (\<lambda>(buf, offset).
         rbind (c_assert (offset = total_size) ''offset == __total_buffer_size'') (\<lambda>_. Inr buf)))"

text \<open>The worker's walk through the buffer. A command of size zero would never let it advance; the first argument
  bounds the iterations.\<close>

fun do_batch_execute :: "nat \<Rightarrow> bytes \<Rightarrow> u64 \<Rightarrow> u64 \<Rightarrow> bytes list res" where
  "do_batch_execute 0 buf total_size offset = Inl OutOfFuel"
| "do_batch_execute (Suc n) buf total_size offset =
     (if offset < total_size
      then rbind (mem_read (unat offset) 136 buf) (\<lambda>hdr.
           rbind (mem_read (unat offset) (unat (cmd_total hdr)) buf) (\<lambda>cmd.
           rbind (do_batch_execute n buf total_size (offset + cmd_total hdr)) (\<lambda>cmds.
           Inr (cmd # cmds))))
      else Inr [])"

section \<open>The processing thread\<close>

definition set_thread :: "u64 \<Rightarrow> bytes \<Rightarrow> bytes" where
  "set_thread tid cmd = set_base ((base_of cmd)\<lparr>thread_id := tid\<rparr>) cmd"

text \<open>One iteration; \<open>tid\<close> is the identifier of the processing thread and \<open>elapsed\<close> the microseconds on its timer. When
  the thread was told to stop, the popped command is lost.\<close>

definition batch_process_iteration ::
  "(nat \<Rightarrow> bytes) \<Rightarrow> u64 \<Rightarrow> nat \<Rightarrow> command_batch \<Rightarrow> (emission list \<times> command_batch) res" where
  "batch_process_iteration mal tid elapsed b =
     (let wrap = (case pending_cmds b of [] \<Rightarrow> None | w # _ \<Rightarrow> Some w);
          b = b\<lparr>pending_cmds := tl (pending_cmds b)\<rparr>;
          sync = (case wrap of None \<Rightarrow> False | Some w \<Rightarrow> \<not> is_async w)
      in if \<not> running b then Inr ([], b)
         else if sync \<and> active_cmds b = [] then Inr ([Single (set_thread tid (wrap_cmd (the wrap)))], b)
         else let active = active_cmds b @ (case wrap of None \<Rightarrow> [] | Some w \<Rightarrow> [wrap_cmd w])
              in if sync \<or> BATCH_SIZE \<le> length active \<or> BATCH_TIME_OUT_US * 1000000 \<le> elapsed
                 then rbind (batch_emit mal active) (\<lambda>buf. Inr ([Batch buf], b\<lparr>active_cmds := []\<rparr>))
                 else Inr ([], b\<lparr>active_cmds := active\<rparr>))"

section \<open>A batch survives the buffer\<close>

definition whole :: "bytes \<Rightarrow> bool" where
  "whole cmd \<longleftrightarrow> 136 \<le> unat (command_size (base_of cmd)) \<and> length cmd < 2 ^ 57 \<and>
     length cmd = unat (command_size (base_of cmd)) + unat (region_size (base_of cmd))"

lemma whole_total: "whole cmd \<Longrightarrow> cmd_total cmd = of_nat (length cmd)" "whole cmd \<Longrightarrow> unat (cmd_total cmd) = length cmd"
  by (simp_all add: whole_def cmd_total_def unat_plus_small)

lemma unat_len: "n < 2 ^ 64 \<Longrightarrow> unat (of_nat n :: u64) = n"
  by (simp add: unat_of_nat)

lemma drain_spec: "drain cmds q n = (rev cmds @ q, n + sum_list (map cmd_total cmds))"
  by (induction cmds q n rule: drain.induct) (simp_all add: add.assoc)

lemma sum_whole: "\<forall>c \<in> set cmds. whole c \<Longrightarrow> sum_list (map cmd_total cmds) = of_nat (length (concat cmds))"
  by (induction cmds) (simp_all add: whole_total)

declare emit_loop.simps [simp del]

lemma emit_loop_Nil: "emit_loop [] buf off = Inr (buf, off)"
  by (simp add: emit_loop.simps)

lemma emit_loop_snoc:
  "emit_loop (q @ [cmd]) buf off = rbind (mem_read 0 (unat (cmd_total cmd)) cmd) (\<lambda>img.
     rbind (mem_write (unat off) img buf) (\<lambda>buf. emit_loop q buf (off + cmd_total cmd)))"
  by (subst emit_loop.simps) (simp add: Let_def)

lemma emit_loop_fills:
  assumes "\<forall>c \<in> set cmds. whole c" "length pre + length (concat cmds) = length buf" "length buf < 2 ^ 64" "take (length pre) buf = pre"
  shows "emit_loop (rev cmds) buf (of_nat (length pre)) = Inr (pre @ concat cmds, of_nat (length buf))"
  using assms
proof (induction cmds arbitrary: pre buf)
  case Nil
  then show ?case by (simp add: emit_loop_Nil)
next
  case (Cons cmd cmds)
  have w: "whole cmd" "unat (cmd_total cmd) = length cmd" using Cons.prems(1) whole_total(2) [of cmd] by simp_all
  have p: "unat (of_nat (length pre) :: u64) = length pre" using Cons.prems(2,3) by (simp add: unat_of_nat)
  let ?buf = "splice_at (length pre) cmd buf"
  have b: "length ?buf = length buf" "take (length (pre @ cmd)) ?buf = pre @ cmd"
    using Cons.prems(2,4) by (simp_all add: splice_at_def)
  have "emit_loop (rev cmds) ?buf (of_nat (length (pre @ cmd))) = Inr ((pre @ cmd) @ concat cmds, of_nat (length ?buf))"
    using Cons.prems b by (intro Cons.IH) simp_all
  then show ?case
    using w p Cons.prems(2) b(1)
    by (simp add: emit_loop_snoc mem_read_def mem_write_def slice_at_def whole_total(1))
qed

lemma batch_emit_concat:
  assumes "malloc_ok mal" "\<forall>c \<in> set cmds. whole c" "length (concat cmds) < 2 ^ 64"
  shows "batch_emit mal cmds = Inr (concat cmds)"
proof -
  have t: "sum_list (map cmd_total cmds) = of_nat (length (concat cmds))" by (rule sum_whole [OF assms(2)])
  have u: "unat (of_nat (length (concat cmds)) :: u64) = length (concat cmds)" using assms(3) by (simp add: unat_of_nat)
  have "length (mal (length (concat cmds))) = length (concat cmds)" using assms(1) by (simp add: malloc_ok_def)
  from emit_loop_fills [OF assms(2), of "[]" "mal (length (concat cmds))"] this assms(3)
  have "emit_loop (rev cmds) (mal (length (concat cmds))) 0 = Inr (concat cmds, of_nat (length (concat cmds)))" by simp
  then show ?thesis by (simp only: batch_emit_def drain_spec Let_def prod.case append_Nil2 add_0 t u) simp
qed

lemma execute_from:
  assumes "\<forall>c \<in> set cmds. whole c" "length (pre @ concat cmds) < 2 ^ 64" "length cmds < n"
  shows "do_batch_execute n (pre @ concat cmds) (of_nat (length (pre @ concat cmds))) (of_nat (length pre)) = Inr cmds"
  using assms
proof (induction cmds arbitrary: pre n)
  case Nil
  then show ?case by (cases n) simp_all
next
  case (Cons cmd cmds)
  from Cons.prems(3) obtain k where n: "n = Suc k" "length cmds < k" by (cases n) auto
  have w: "whole cmd" "136 \<le> length cmd" "unat (cmd_total cmd) = length cmd"
    using Cons.prems(1) whole_total(2) [of cmd] by (auto simp: whole_def)
  have p: "unat (of_nat (length pre) :: u64) = length pre" using Cons.prems(2) by (simp add: unat_of_nat)
  have lt: "(of_nat (length pre) :: u64) < of_nat (length (pre @ concat (cmd # cmds)))"
    using w(2) unfolding word_less_nat_alt p unat_len [OF Cons.prems(2)] by auto
  have h: "mem_read (length pre) 136 (pre @ concat (cmd # cmds)) = Inr (take 136 cmd)"
    using w(2) by (simp add: mem_read_def slice_at_def)
  have t: "cmd_total (take 136 cmd) = cmd_total cmd" using w(2) by (simp add: cmd_total_def base_of_take)
  have r: "mem_read (length pre) (length cmd) (pre @ concat (cmd # cmds)) = Inr cmd" by (simp add: mem_read_def slice_at_def)
  have ih: "do_batch_execute k (pre @ concat (cmd # cmds)) (of_nat (length (pre @ concat (cmd # cmds)))) (of_nat (length (pre @ cmd))) = Inr cmds"
    using Cons.IH [of "pre @ cmd" k] Cons.prems(1,2) n(2) by simp
  have "of_nat (length pre) + cmd_total cmd = (of_nat (length (pre @ cmd)) :: u64)" using w(1) by (simp add: whole_total(1))
  then show ?case unfolding n(1) do_batch_execute.simps using lt ih by (simp only: p h t r w(3) rbind.simps if_True)
qed

section \<open>Runs of the processing thread\<close>

datatype batch_op = Insert bytes bool | Iterate nat

text \<open>What the worker executes for an emission.\<close>

definition executes :: "emission \<Rightarrow> bytes list res" where
  "executes e = (case e of Single cmd \<Rightarrow> Inr [cmd]
     | Batch buf \<Rightarrow> do_batch_execute (Suc (length buf)) buf (of_nat (length buf)) 0)"

fun batch_run :: "(nat \<Rightarrow> bytes) \<Rightarrow> u64 \<Rightarrow> batch_op list \<Rightarrow> command_batch \<Rightarrow> (bytes list \<times> command_batch) res" where
  "batch_run mal tid [] b = Inr ([], b)"
| "batch_run mal tid (Insert cmd async # ops) b = batch_run mal tid ops (batch_insert_command cmd async b)"
| "batch_run mal tid (Iterate elapsed # ops) b =
     rbind (batch_process_iteration mal tid elapsed b) (\<lambda>(es, b).
     rbind (case es of [] \<Rightarrow> Inr [] | e # _ \<Rightarrow> executes e) (\<lambda>xs.
     rbind (batch_run mal tid ops b) (\<lambda>(ys, b). Inr (xs @ ys, b))))"

fun inserted :: "batch_op list \<Rightarrow> bytes list" where
  "inserted [] = []"
| "inserted (Insert cmd async # ops) = cmd # inserted ops"
| "inserted (Iterate elapsed # ops) = inserted ops"

text \<open>The worker sees a command as it was inserted, or with the thread of the processing thread.\<close>

definition seen_as :: "u64 \<Rightarrow> bytes \<Rightarrow> bytes \<Rightarrow> bool" where
  "seen_as tid x c \<longleftrightarrow> x = c \<or> x = set_thread tid c"

definition batch_ok :: "command_batch \<Rightarrow> bool" where
  "batch_ok b \<longleftrightarrow> running b \<and> length (active_cmds b) < BATCH_SIZE \<and> (\<forall>c \<in> set (active_cmds b). whole c) \<and>
     (\<forall>w \<in> set (pending_cmds b). whole (wrap_cmd w))"

lemma concat_bound: "\<forall>c \<in> set cmds. length c < 2 ^ 57 \<Longrightarrow> length (concat cmds) \<le> length cmds * 2 ^ 57"
  by (induction cmds) auto

lemma length_le_concat: "\<forall>c \<in> set cmds. c \<noteq> [] \<Longrightarrow> length cmds \<le> length (concat cmds)"
proof (induction cmds)
  case (Cons c cmds)
  then have "0 < length c" "length cmds \<le> length (concat cmds)" by auto
  then show ?case unfolding concat.simps length_append list.size by linarith
qed simp

lemma batch_executes:
  assumes "malloc_ok mal" "\<forall>c \<in> set cmds. whole c" "length cmds \<le> BATCH_SIZE"
  shows "\<exists>buf. batch_emit mal cmds = Inr buf \<and> executes (Batch buf) = Inr cmds"
proof -
  have "\<forall>c \<in> set cmds. length c < 2 ^ 57" using assms(2) unfolding whole_def by blast
  from concat_bound [OF this] have "length (concat cmds) \<le> length cmds * 2 ^ 57" .
  also have "\<dots> \<le> 50 * 2 ^ 57" using assms(3) by (simp add: BATCH_SIZE_def)
  finally have l: "length (concat cmds) < 2 ^ 64" by simp
  have "length cmds < Suc (length (concat cmds))" using length_le_concat [of cmds] assms(2) by (fastforce simp: whole_def)
  from execute_from [OF assms(2) _ this, of "[]"] l batch_emit_concat [OF assms(1,2) l] show ?thesis by (simp add: executes_def)
qed

text \<open>One iteration moves commands from the front of the pending queue to the worker and keeps the rest.\<close>

lemma iteration_step:
  assumes "malloc_ok mal" "batch_ok b"
  shows "\<exists>es b' xs cs. batch_process_iteration mal tid elapsed b = Inr (es, b') \<and>
    (case es of [] \<Rightarrow> Inr [] | e # _ \<Rightarrow> executes e) = Inr xs \<and> list_all2 (seen_as tid) xs cs \<and> batch_ok b' \<and>
    active_cmds b @ map wrap_cmd (pending_cmds b) = cs @ active_cmds b' @ map wrap_cmd (pending_cmds b') \<and>
    pending_cmds b' = tl (pending_cmds b) \<and> (pending_cmds b \<noteq> [] \<and> \<not> is_async (pending_cmds b ! 0) \<longrightarrow> active_cmds b' = [])"
proof -
  let ?wrap = "case pending_cmds b of [] \<Rightarrow> None | w # _ \<Rightarrow> Some w"
  let ?sync = "case ?wrap of None \<Rightarrow> False | Some w \<Rightarrow> \<not> is_async w"
  let ?new = "case ?wrap of None \<Rightarrow> [] | Some w \<Rightarrow> [wrap_cmd w]"
  let ?act = "active_cmds b @ ?new"
  have run: "running b" "length (active_cmds b) < BATCH_SIZE" using assms(2) by (simp_all add: batch_ok_def)
  have w: "\<forall>c \<in> set ?act. whole c" "\<forall>w \<in> set (tl (pending_cmds b)). whole (wrap_cmd w)"
    using assms(2) by (cases "pending_cmds b"; auto simp: batch_ok_def)+
  have len: "length ?act \<le> BATCH_SIZE" using run(2) by (auto split: list.split)
  have split: "active_cmds b @ map wrap_cmd (pending_cmds b) = ?act @ map wrap_cmd (tl (pending_cmds b))" by (simp split: list.split)
  have refl: "list_all2 (seen_as tid) cs cs" for cs by (rule list_all2_refl) (simp add: seen_as_def)
  consider (single) "?sync" "active_cmds b = []" | (batch) "\<not> (?sync \<and> active_cmds b = [])"
      "?sync \<or> BATCH_SIZE \<le> length ?act \<or> BATCH_TIME_OUT_US * 1000000 \<le> elapsed"
    | (keep) "\<not> ?sync" "length ?act < BATCH_SIZE" "\<not> BATCH_TIME_OUT_US * 1000000 \<le> elapsed" by linarith
  then show ?thesis
  proof cases
    case single
    then obtain p ps where p: "pending_cmds b = p # ps" "\<not> is_async p" by (auto split: list.splits)
    show ?thesis using single p run w assms(2)
      by (intro exI [of _ "[Single (set_thread tid (wrap_cmd p))]"] exI [of _ "b\<lparr>pending_cmds := ps\<rparr>"] exI [of _ "[set_thread tid (wrap_cmd p)]"]
          exI [of _ "[wrap_cmd p]"])
         (simp add: batch_process_iteration_def Let_def executes_def seen_as_def batch_ok_def BATCH_SIZE_def)
  next
    case batch
    from batch_executes [OF assms(1) w(1) len] obtain buf where e: "batch_emit mal ?act = Inr buf" "executes (Batch buf) = Inr ?act" by blast
    let ?b = "b\<lparr>pending_cmds := tl (pending_cmds b), active_cmds := []\<rparr>"
    have "batch_process_iteration mal tid elapsed b = Inr ([Batch buf], ?b)"
      unfolding batch_process_iteration_def Let_def using run batch e(1) by simp
    moreover have "batch_ok ?b" using run w(2) by (simp add: batch_ok_def BATCH_SIZE_def)
    ultimately show ?thesis using e(2) refl [of ?act] split
      by (intro exI [of _ "[Batch buf]"] exI [of _ ?b] exI [of _ ?act] conjI) simp_all
  next
    case keep
    let ?b = "b\<lparr>pending_cmds := tl (pending_cmds b), active_cmds := ?act\<rparr>"
    have "batch_process_iteration mal tid elapsed b = Inr ([], ?b)"
      unfolding batch_process_iteration_def Let_def using run keep by simp
    moreover have "batch_ok ?b" using run w keep(2) by (simp add: batch_ok_def)
    moreover have "pending_cmds b \<noteq> [] \<and> \<not> is_async (pending_cmds b ! 0) \<longrightarrow> ?act = []" using keep(1) by (auto split: list.splits)
    ultimately show ?thesis using split
      by (intro exI [of _ "[]"] exI [of _ ?b] exI [of _ "[]"] conjI) simp_all
  qed
qed

lemma batch_run_order:
  assumes "malloc_ok mal" "batch_ok b" "\<forall>c \<in> set (inserted ops). whole c"
  shows "\<exists>xs cs b'. batch_run mal tid ops b = Inr (xs, b') \<and> list_all2 (seen_as tid) xs cs \<and> batch_ok b' \<and>
    active_cmds b @ map wrap_cmd (pending_cmds b) @ inserted ops = cs @ active_cmds b' @ map wrap_cmd (pending_cmds b')"
  using assms(2,3)
proof (induction ops arbitrary: b)
  case Nil
  then show ?case by (intro exI [of _ "[]"] exI [of _ b]) simp
next
  case (Cons op ops)
  show ?case
  proof (cases op)
    case (Insert cmd async)
    have "batch_ok (batch_insert_command cmd async b)" using Cons.prems Insert by (auto simp: batch_ok_def batch_insert_command_def)
    from Cons.IH [OF this] Cons.prems(2) Insert show ?thesis by (simp add: batch_insert_command_def)
  next
    case (Iterate elapsed)
    from iteration_step [OF assms(1) Cons.prems(1), of tid elapsed] obtain es b1 xs cs where
      i: "batch_process_iteration mal tid elapsed b = Inr (es, b1)" "(case es of [] \<Rightarrow> Inr [] | e # _ \<Rightarrow> executes e) = Inr xs"
      "list_all2 (seen_as tid) xs cs" "batch_ok b1"
      "active_cmds b @ map wrap_cmd (pending_cmds b) = cs @ active_cmds b1 @ map wrap_cmd (pending_cmds b1)"
      by (elim exE conjE) (rule that)
    from Cons.IH [OF i(4)] Cons.prems(2) Iterate obtain ys ds b2 where
      r: "batch_run mal tid ops b1 = Inr (ys, b2)" "list_all2 (seen_as tid) ys ds" "batch_ok b2"
      "active_cmds b1 @ map wrap_cmd (pending_cmds b1) @ inserted ops = ds @ active_cmds b2 @ map wrap_cmd (pending_cmds b2)" by auto
    have 1: "batch_run mal tid (op # ops) b = Inr (xs @ ys, b2)" using Iterate i(1,2) r(1) by simp
    have 2: "list_all2 (seen_as tid) (xs @ ys) (cs @ ds)" using i(3) r(2) by (rule list_all2_appendI)
    have 3: "active_cmds b @ map wrap_cmd (pending_cmds b) @ inserted (op # ops) =
        (cs @ ds) @ active_cmds b2 @ map wrap_cmd (pending_cmds b2)"
      using arg_cong [OF i(5), of "\<lambda>l. l @ inserted ops"] r(4) Iterate by simp
    show ?thesis by (intro exI [of _ "xs @ ys"] exI [of _ "cs @ ds"] exI [of _ b2] conjI 1 2 3 r(3))
  qed
qed

section \<open>Properties\<close>

text \<open>C3: Batching keeps the order of commands: for every sequence of insertions and iterations with any timing, no iteration fails,
  and what the worker executes, followed by the collected and the still pending commands, is what was
  inserted, in order and each once. A synchronous command sent on its own carries the thread of the processing
  thread, everything else is unchanged. Fewer than \<open>BATCH_SIZE\<close> commands are ever held back.\<close>

theorem batching_preserves_order:
  assumes "malloc_ok mal" "\<forall>c \<in> set (inserted ops). whole c"
  shows "\<exists>xs cs b. batch_run mal tid ops cmd_batch_thread_init = Inr (xs, b) \<and> list_all2 (seen_as tid) xs cs \<and>
    inserted ops = cs @ active_cmds b @ map wrap_cmd (pending_cmds b) \<and> length (active_cmds b) < BATCH_SIZE"
proof -
  have "batch_ok cmd_batch_thread_init" by (simp add: batch_ok_def cmd_batch_thread_init_def BATCH_SIZE_def)
  from batch_run_order [OF assms(1) this assms(2), of tid] show ?thesis
    by (auto simp: cmd_batch_thread_init_def batch_ok_def)
qed

text \<open>The buffer of a batch is walked through completely: for any commands whose sizes describe them, the worker
  terminates and executes exactly the commands that the guest collected, in order.\<close>

theorem batch_buffer_roundtrip:
  assumes "malloc_ok mal" "\<forall>c \<in> set cmds. whole c" "length (concat cmds) < 2 ^ 64" "length cmds < n"
  shows "\<exists>buf. batch_emit mal cmds = Inr buf \<and> do_batch_execute n buf (of_nat (length buf)) 0 = Inr cmds"
  using batch_emit_concat [OF assms(1-3)] execute_from [OF assms(2) _ assms(4), of "[]"] assms(3) by simp

lemma ex_cmd_whole: "whole (ex_cmd 0)" "whole (ex_cmd 2 @ [7, 8])"
  by (simp_all add: whole_def base_of_append)

theorem batch_buffer_roundtrip_witness:
  "\<exists>buf. batch_emit (\<lambda>n. replicate n 9) [ex_cmd 2 @ [7, 8], ex_cmd 0] = Inr buf \<and>
    do_batch_execute (Suc (length [(), ()])) buf (of_nat (length buf)) 0 = Inr [ex_cmd 2 @ [7, 8], ex_cmd 0]"
proof -
  have "malloc_ok (\<lambda>n. replicate n 9)" "\<forall>c \<in> set [ex_cmd 2 @ [7, 8], ex_cmd 0]. whole c"
    "length (concat [ex_cmd 2 @ [7, 8], ex_cmd 0]) < 2 ^ 64" "length [ex_cmd 2 @ [7, 8], ex_cmd 0] < Suc (length [(), ()])"
    by (simp_all add: malloc_ok_def ex_cmd_whole)
  from batch_buffer_roundtrip [OF this] show ?thesis .
qed

theorem batching_preserves_order_witness:
  "\<exists>xs cs b. batch_run (\<lambda>n. replicate n 9) 5 [Insert (ex_cmd 2 @ [7, 8]) True, Insert (ex_cmd 0) False, Iterate 7, Iterate 3] cmd_batch_thread_init =
      Inr (xs, b) \<and> list_all2 (seen_as 5) xs cs \<and>
    [ex_cmd 2 @ [7, 8], ex_cmd 0] = cs @ active_cmds b @ map wrap_cmd (pending_cmds b) \<and> length (active_cmds b) < BATCH_SIZE"
proof -
  let ?ops = "[Insert (ex_cmd 2 @ [7, 8]) True, Insert (ex_cmd 0) False, Iterate 7, Iterate 3]"
  have "malloc_ok (\<lambda>n. replicate n 9)" "\<forall>c \<in> set (inserted ?ops). whole c" by (simp_all add: malloc_ok_def ex_cmd_whole)
  from batching_preserves_order [OF this, of 5] show ?thesis by (simp only: inserted.simps)
qed





text \<open>The time-out of 10000 is compared with seconds: an asynchronous command is still held back after the 10
  milliseconds that the comment in the loop names, and after any time below 10000 seconds.\<close>

lemma batch_timeout_in_seconds:
  assumes "running b" "pending_cmds b = []" "length (active_cmds b) < BATCH_SIZE" "elapsed < 10000 * 1000000"
  shows "batch_process_iteration mal tid elapsed b = Inr ([], b)"
  using assms by (simp add: batch_process_iteration_def Let_def BATCH_TIME_OUT_US_def)

end
