(* ===== verification/Server_Address.thy ===== *)
theory Server_Address
  imports Ava_Prelude
begin

text \<open>
  Addresses of servers as \<open>IP:port\<close> strings (class \<open>ServerAddress\<close> of \<open>worker/katana/manager.h\<close>), with the parts of the C++
  library that they use: \<open>std::string::find\<close>, \<open>std::to_string\<close>, \<open>std::stoi\<close> and \<open>std::stol\<close>. Exceptions are faults.
\<close>

section \<open>Decimal numbers\<close>

definition digit_char :: "nat \<Rightarrow> char" where
  "digit_char d = char_of (48 + d)"

definition digit_val :: "char \<Rightarrow> nat option" where
  "digit_val c = (let n = of_char c in if 48 \<le> n \<and> n \<le> (57 :: nat) then Some (n - 48) else None)"

fun nat_string :: "nat \<Rightarrow> string" where
  "nat_string n = (if n < 10 then [digit_char n] else nat_string (n div 10) @ [digit_char (n mod 10)])"

declare nat_string.simps [simp del]

definition to_string :: "int \<Rightarrow> string" where
  "to_string i = (if i < 0 then CHR ''-'' # nat_string (nat (- i)) else nat_string (nat i))"

fun read_digits :: "nat \<Rightarrow> string \<Rightarrow> nat" where
  "read_digits acc [] = acc"
| "read_digits acc (c # cs) = (case digit_val c of None \<Rightarrow> acc | Some d \<Rightarrow> read_digits (10 * acc + d) cs)"

definition is_space :: "char \<Rightarrow> bool" where
  "is_space c \<longleftrightarrow> (let n = (of_char c :: nat) in n = 32 \<or> 9 \<le> n \<and> n \<le> 13)"

text \<open>Leading white space and a sign are accepted, and anything behind the digits is ignored.\<close>

definition string_to_int :: "string \<Rightarrow> nat \<Rightarrow> string \<Rightarrow> int res" where
  "string_to_int name bits s =
     (let s = dropWhile is_space s;
          neg = (s \<noteq> [] \<and> s ! 0 = CHR ''-'');
          s = (if s \<noteq> [] \<and> (s ! 0 = CHR ''-'' \<or> s ! 0 = CHR ''+'') then tl s else s)
      in if s = [] \<or> digit_val (s ! 0) = None then Inl (Aborted (name @ '': invalid_argument''))
         else let v = (if neg then - int (read_digits 0 s) else int (read_digits 0 s))
              in if v < - (2 ^ bits) \<or> 2 ^ bits \<le> v then Inl (Aborted (name @ '': out_of_range'')) else Inr v)"

definition stoi :: "string \<Rightarrow> int res" where
  "stoi s = string_to_int ''stoi'' 31 s"

definition stol :: "string \<Rightarrow> int res" where
  "stol s = string_to_int ''stol'' 63 s"

section \<open>Addresses\<close>

record server_address =
  ip :: string
  port :: int

definition find_char :: "char \<Rightarrow> string \<Rightarrow> nat option" where
  "find_char c s = (let k = length (takeWhile (\<lambda>x. x \<noteq> c) s) in if k < length s then Some k else None)"

text \<open>The conversion of the port to \<open>uint32_t\<close> and back to \<open>int\<close> is the identity on \<open>int\<close>.\<close>

definition ServerAddress_parse :: "string \<Rightarrow> server_address res" where
  "ServerAddress_parse address =
     (case find_char (CHR '':'') address of
        None \<Rightarrow> Inl (Aborted ''Invalid IP:port address'')
      | Some k \<Rightarrow>
          rbind (stoi (drop (k + 1) address)) (\<lambda>p.
          if take k address = [] \<or> p = 0 then Inl (Aborted ''Invalid IP:port address'')
          else Inr \<lparr>ip = take k address, port = p\<rparr>))"

definition GetAddress :: "server_address \<Rightarrow> string" where
  "GetAddress a = ip a @ '':'' @ to_string (port a)"

section \<open>Reading back what was printed\<close>

lemma digit_val_char: "d < 10 \<Longrightarrow> digit_val (digit_char d) = Some d"
  by (simp add: digit_val_def digit_char_def)

lemma read_digits_append:
  "\<forall>c \<in> set s. digit_val c \<noteq> None \<Longrightarrow> read_digits acc (s @ t) = read_digits (read_digits acc s) t"
  by (induction s arbitrary: acc) (auto split: option.splits)

lemma nat_string_digits: "c \<in> set (nat_string n) \<Longrightarrow> digit_val c \<noteq> None"
proof (induction n arbitrary: c rule: nat_string.induct)
  case (1 n)
  show ?case
  proof (cases "n < 10")
    case True
    with 1(2) show ?thesis by (simp add: nat_string.simps [of n] digit_val_char)
  next
    case False
    with 1(2) 1(1) [OF False] show ?thesis by (auto simp: nat_string.simps [of n] digit_val_char)
  qed
qed

lemma nat_string_nonempty: "nat_string n \<noteq> []"
  by (subst nat_string.simps) simp

lemma read_nat_string: "read_digits 0 (nat_string n) = n"
proof (induction n rule: nat_string.induct)
  case (1 n)
  show ?case
  proof (cases "n < 10")
    case True
    then show ?thesis by (simp add: nat_string.simps [of n] digit_val_char)
  next
    case False
    have "read_digits 0 (nat_string (n div 10) @ [digit_char (n mod 10)]) = 10 * (n div 10) + n mod 10"
      using 1 [OF False] nat_string_digits by (subst read_digits_append) (auto simp: digit_val_char)
    with False show ?thesis by (simp add: nat_string.simps [of n])
  qed
qed

lemma digit_not: "digit_val c \<noteq> None \<Longrightarrow> \<not> is_space c \<and> c \<noteq> CHR ''-'' \<and> c \<noteq> CHR ''+'' \<and> c \<noteq> CHR '':''"
  by (auto simp: digit_val_def is_space_def Let_def split: if_splits)

lemma string_to_int_to_string:
  assumes "- (2 ^ bits) \<le> i" "i < 2 ^ bits"
  shows "string_to_int name bits (to_string i) = Inr i"
proof -
  have h: "nat_string n = nat_string n ! 0 # tl (nat_string n)" "digit_val (nat_string n ! 0) \<noteq> None" for n
  proof -
    show "nat_string n = nat_string n ! 0 # tl (nat_string n)" using nat_string_nonempty [of n] by (cases "nat_string n") auto
    then show "digit_val (nat_string n ! 0) \<noteq> None" by (metis list.set_intros(1) nat_string_digits)
  qed
  have d: "dropWhile is_space (nat_string n) = nat_string n" for n
    using h [of n] digit_not [OF h(2) [of n]] by (metis dropWhile.simps(2))
  have m: "\<not> is_space (CHR ''-'')" by (simp add: is_space_def)
  show ?thesis
  proof (cases "i < 0")
    case True
    then show ?thesis using assms h(2) m
      by (simp add: string_to_int_def to_string_def Let_def read_nat_string nat_string_nonempty)
  next
    case False
    then show ?thesis using assms h(2) digit_not [OF h(2)]
      by (simp add: string_to_int_def to_string_def Let_def read_nat_string nat_string_nonempty d)
  qed
qed

lemma ServerAddress_parse_ip: "ServerAddress_parse s = Inr a \<Longrightarrow> ip a \<noteq> [] \<and> CHR '':'' \<notin> set (ip a)"
proof -
  assume p: "ServerAddress_parse s = Inr a"
  let ?t = "takeWhile (\<lambda>x. x \<noteq> CHR '':'') s"
  have "find_char (CHR '':'') s = Some (length ?t)" using p by (auto simp: ServerAddress_parse_def find_char_def Let_def split: if_splits)
  then have "ip a = take (length ?t) s" "ip a \<noteq> []" using p by (auto simp: ServerAddress_parse_def res_simps split: if_splits sum.splits)
  then show ?thesis by (simp add: takeWhile_eq_take [symmetric]) (metis set_takeWhileD)
qed

text \<open>An address that is printed is read back unchanged, for every non-empty host without a colon and every non-zero port in the
  range of \<open>int\<close>.\<close>

theorem server_address_roundtrip:
  assumes "ip a \<noteq> []" "CHR '':'' \<notin> set (ip a)" "port a \<noteq> 0" "- (2 ^ 31) \<le> port a" "port a < 2 ^ 31"
  shows "ServerAddress_parse (GetAddress a) = Inr a"
proof -
  have t: "takeWhile (\<lambda>x. x \<noteq> CHR '':'') (ip a @ '':'' @ to_string (port a)) = ip a" using assms(2)
    by (subst takeWhile_append2) auto
  have "find_char (CHR '':'') (GetAddress a) = Some (length (ip a))"
    unfolding find_char_def GetAddress_def Let_def t by simp
  then show ?thesis
    using assms string_to_int_to_string [OF assms(4,5)] by (simp add: ServerAddress_parse_def GetAddress_def stoi_def)
qed

theorem server_address_roundtrip_witness:
  "ServerAddress_parse (GetAddress \<lparr>ip = ''0.0.0.0'', port = 3334\<rparr>) = Inr \<lparr>ip = ''0.0.0.0'', port = 3334\<rparr>"
  using server_address_roundtrip [of "\<lparr>ip = ''0.0.0.0'', port = 3334\<rparr>"] by simp

end
