(* ===== verification/Gpu_Manager.thy ===== *)
theory Gpu_Manager
  imports Server_Address
begin

text \<open>
  The manager that assigns GPUs to API servers (\<open>worker/katana/manager.h\<close> and \<open>worker/katana/manager.cpp\<close>; the
  header of \<open>worker/galvanic\<close> is the same file): queues and sets of workers, GPU entries with their free memory, the sorted GPU list of
  a daemon, and the three services. Entries are shared objects, so they live in a heap and lists hold their
  indices. \<open>std::sort\<close>, the iteration order of a set of pointers, the state of a daemon's channel and the answers of the spawn daemons
  are parameters. A field that a message may lack is an option, and reading an absent one is a null dereference. An exception ends the
  service call as a fault. The worker counter is an \<open>int\<close> of the program and unbounded here: it counts the workers of one GPU.
\<close>

section \<open>Workers\<close>

record worker_info =
  w_address :: server_address
  used_memory :: u64

definition Enqueue :: "worker_info \<Rightarrow> worker_info list \<Rightarrow> worker_info list" where
  "Enqueue w q = q @ [w]"

definition Dequeue :: "worker_info list \<Rightarrow> worker_info option \<times> worker_info list" where
  "Dequeue q = (case q of [] \<Rightarrow> (None, []) | w # q \<Rightarrow> (Some w, q))"

definition Insert_worker :: "worker_info \<Rightarrow> worker_info list \<Rightarrow> worker_info list" where
  "Insert_worker w ws = w # ws"

text \<open>\<open>ord\<close> is the order in which the set of pointers is visited.\<close>

definition Remove_worker :: "(worker_info list \<Rightarrow> worker_info list) \<Rightarrow> server_address \<Rightarrow> worker_info list \<Rightarrow> u64 \<times> worker_info list" where
  "Remove_worker ord address ws =
     (case find (\<lambda>w. GetAddress (w_address w) = GetAddress address) (ord ws) of
        None \<Rightarrow> (0, ws)
      | Some w \<Rightarrow> (used_memory w, remove1 w ws))"

section \<open>GPU entries\<close>

record gpu_entry =
  uuid :: string
  free_memory :: u64
  idle_workers :: "worker_info list"
  busy_workers :: "worker_info list"
  worker_counter :: int
  e_list :: nat

definition ReserveMemory :: "u64 \<Rightarrow> gpu_entry \<Rightarrow> gpu_entry" where
  "ReserveMemory sz e = e\<lparr>free_memory := free_memory e - sz, worker_counter := worker_counter e + 1\<rparr>"

definition ReleaseMemory :: "u64 \<Rightarrow> gpu_entry \<Rightarrow> gpu_entry" where
  "ReleaseMemory sz e = e\<lparr>free_memory := free_memory e + sz, worker_counter := worker_counter e - 1\<rparr>"

definition AddIdleWorker :: "server_address \<Rightarrow> gpu_entry \<Rightarrow> gpu_entry" where
  "AddIdleWorker a e = e\<lparr>idle_workers := Enqueue \<lparr>w_address = a, used_memory = 0\<rparr> (idle_workers e)\<rparr>"

definition PopIdleWorker :: "gpu_entry \<Rightarrow> worker_info option \<times> gpu_entry" where
  "PopIdleWorker e = (case Dequeue (idle_workers e) of (w, q) \<Rightarrow> (w, e\<lparr>idle_workers := q\<rparr>))"

definition AddBusyWorker :: "server_address \<Rightarrow> u64 \<Rightarrow> gpu_entry \<Rightarrow> gpu_entry" where
  "AddBusyWorker a used e = e\<lparr>busy_workers := Insert_worker \<lparr>w_address = a, used_memory = used\<rparr> (busy_workers e)\<rparr>"

text \<open>The overload for a worker that exists already: size 0 keeps the recorded size.\<close>

definition AddBusyWorker_info :: "worker_info \<Rightarrow> u64 \<Rightarrow> gpu_entry \<Rightarrow> gpu_entry" where
  "AddBusyWorker_info w used e =
     e\<lparr>busy_workers := Insert_worker (if used \<noteq> 0 then w\<lparr>used_memory := used\<rparr> else w) (busy_workers e)\<rparr>"

definition RemoveBusyWorker :: "(worker_info list \<Rightarrow> worker_info list) \<Rightarrow> server_address \<Rightarrow> gpu_entry \<Rightarrow> gpu_entry" where
  "RemoveBusyWorker ord a e =
     (case Remove_worker ord a (busy_workers e) of (used, ws) \<Rightarrow> ReleaseMemory used (e\<lparr>busy_workers := ws\<rparr>))"

section \<open>The GPU list of a daemon\<close>

type_synonym gpu_heap = "gpu_entry list"
type_synonym sorter = "gpu_heap \<Rightarrow> nat list \<Rightarrow> nat list"

text \<open>The comparison of \<open>UnlockedSort\<close>, and what \<open>std::sort\<close> promises for it.\<close>

definition entry_less :: "gpu_entry \<Rightarrow> gpu_entry \<Rightarrow> bool" where
  "entry_less a b \<longleftrightarrow>
     (if worker_counter a = worker_counter b then free_memory a > free_memory b else worker_counter a < worker_counter b)"

definition std_sort :: "sorter \<Rightarrow> bool" where
  "std_sort srt \<longleftrightarrow> (\<forall>h l. mset (srt h l) = mset l \<and> sorted_wrt (\<lambda>i j. \<not> entry_less (h ! j) (h ! i)) (srt h l))"

definition AddEntries :: "sorter \<Rightarrow> gpu_heap \<Rightarrow> nat list \<Rightarrow> nat list \<Rightarrow> nat list" where
  "AddEntries srt h es l = srt h (l @ es)"

definition AddEntry :: "sorter \<Rightarrow> gpu_heap \<Rightarrow> nat \<Rightarrow> nat list \<Rightarrow> nat list" where
  "AddEntry srt h e l = AddEntries srt h [e] l"

text \<open>The bound is off by one: the index that equals the size passes.\<close>

definition GetEntryAtIndex :: "nat \<Rightarrow> nat list \<Rightarrow> nat option res" where
  "GetEntryAtIndex idx l = (if idx > length l then Inr None else if idx < length l then Inr (Some (l ! idx)) else Inl OutOfBounds)"

definition FindEntryAndReserveMemory :: "sorter \<Rightarrow> u64 \<Rightarrow> gpu_heap \<times> nat list \<Rightarrow> nat option \<times> gpu_heap \<times> nat list" where
  "FindEntryAndReserveMemory srt request s =
     (let (h, l) = s
      in case find (\<lambda>i. free_memory (h ! i) \<ge> request) l of
           None \<Rightarrow> (None, h, l)
         | Some i \<Rightarrow> let h = h[i := ReserveMemory request (h ! i)] in (Some i, h, srt h l))"

definition RevokeEntryWithMemory :: "sorter \<Rightarrow> nat \<Rightarrow> nat \<Rightarrow> u64 \<Rightarrow> gpu_heap \<times> nat list \<Rightarrow> gpu_heap \<times> nat list" where
  "RevokeEntryWithMemory srt this_list i request s =
     (let (h, l) = s
      in if e_list (h ! i) \<noteq> this_list then s
         else let h = h[i := ReleaseMemory request (h ! i)] in (h, srt h l))"

definition FindEntryByUuid :: "string \<Rightarrow> gpu_heap \<Rightarrow> nat list \<Rightarrow> nat option" where
  "FindEntryByUuid u h l = find (\<lambda>i. uuid (h ! i) = u) l"

section \<open>The manager\<close>

record daemon_info =
  d_address :: server_address
  gpus :: "nat list"
  is_dead :: bool

record manager =
  entries :: gpu_heap
  daemons :: "daemon_info list"

definition deref :: "'a option \<Rightarrow> 'a res" where
  "deref p = (case p of None \<Rightarrow> Inl NullDeref | Some x \<Rightarrow> Inr x)"

text \<open>\<open>shut\<close> tells whether the channel of the daemon is in the state \<open>GRPC_CHANNEL_SHUTDOWN\<close>; death is remembered.\<close>

definition IsDead :: "bool \<Rightarrow> daemon_info \<Rightarrow> bool \<times> daemon_info" where
  "IsDead shut d = (let d = (if \<not> is_dead d \<and> shut then d\<lparr>is_dead := True\<rparr> else d) in (is_dead d, d))"

definition FindDaemonByIp :: "string \<Rightarrow> manager \<Rightarrow> nat option" where
  "FindDaemonByIp a m = find (\<lambda>d. ip (d_address (daemons m ! d)) = a) [0..<length (daemons m)]"

text \<open>More memory sizes than GPUs index behind the vector of new entries.\<close>

definition RegisterDaemon ::
  "sorter \<Rightarrow> string option \<Rightarrow> string list option \<Rightarrow> u64 list option \<Rightarrow> manager \<Rightarrow> manager res" where
  "RegisterDaemon srt address uuid_field mem_field m =
     rbind (rbind (deref address) ServerAddress_parse) (\<lambda>a.
     rbind (deref uuid_field) (\<lambda>uuids.
     rbind (deref mem_field) (\<lambda>mems.
     if length uuids < length mems then Inl OutOfBounds
     else let d = length (daemons m); n = length (entries m);
              new = map (\<lambda>i. \<lparr>uuid = uuids ! i, free_memory = (if i < length mems then mems ! i else 0), idle_workers = [],
                       busy_workers = [], worker_counter = 0, e_list = d\<rparr>) [0..<length uuids];
              h = entries m @ new
          in Inr \<lparr>entries = h,
               daemons = daemons m @ [\<lparr>d_address = a, gpus = AddEntries srt h [n..<n + length uuids] [], is_dead = False\<rparr>]\<rparr>)))"

text \<open>Revoking: entry \<open>j\<close> gets back the \<open>j\<close>-th request.\<close>

fun revoke_all :: "sorter \<Rightarrow> (nat \<times> u64) list \<Rightarrow> gpu_heap \<times> nat list \<Rightarrow> gpu_heap \<times> nat list" where
  "revoke_all srt [] s = s"
| "revoke_all srt ((e, g) # as) s = revoke_all srt as (RevokeEntryWithMemory srt (e_list (fst s ! e)) e g s)"

fun assign_gpus :: "sorter \<Rightarrow> u64 list \<Rightarrow> (nat \<times> u64) list \<Rightarrow> gpu_heap \<times> nat list \<Rightarrow> (nat \<times> u64) list \<times> gpu_heap \<times> nat list" where
  "assign_gpus srt [] as s = (as, s)"
| "assign_gpus srt (g # gm) as s =
     (case FindEntryAndReserveMemory srt g s of
        (Some e, s) \<Rightarrow> assign_gpus srt gm (as @ [(e, g)]) s
      | (None, s) \<Rightarrow> ([], revoke_all srt as s))"

text \<open>The daemons are tried from the first one on.\<close>

function daemon_loop ::
  "sorter \<Rightarrow> (nat \<Rightarrow> bool) \<Rightarrow> u64 list \<Rightarrow> nat \<Rightarrow> manager \<Rightarrow> (nat \<times> (nat \<times> u64) list) option \<times> manager" where
  "daemon_loop srt shut gm d m =
     (if d < length (daemons m)
      then let (dead, di) = IsDead (shut d) (daemons m ! d)
           in if dead then daemon_loop srt shut gm (d + 1) (m\<lparr>daemons := (daemons m)[d := di]\<rparr>)
              else let (as, h, l) = assign_gpus srt gm [] (entries m, gpus di);
                       m' = m\<lparr>entries := h, daemons := (daemons m)[d := di\<lparr>gpus := l\<rparr>]\<rparr>
                   in if as \<noteq> [] then (Some (d, as), m') else daemon_loop srt shut gm (d + 1) m'
      else (None, m))"
  by pat_completeness auto
termination
  by (relation "measure (\<lambda>(srt, shut, gm, d, m). length (daemons m) - d)") auto

declare daemon_loop.simps [simp del]

text \<open>Restoring the order of the request.\<close>

definition restore_step :: "u64 list \<Rightarrow> string list \<Rightarrow> u64 \<times> string \<Rightarrow> string list" where
  "restore_step gpu_mem restored gu =
     (case find (\<lambda>j. fst gu = gpu_mem ! j \<and> restored ! j = []) [0..<length gpu_mem] of
        None \<Rightarrow> restored
      | Some j \<Rightarrow> restored[j := snd gu])"

definition restore_uuids :: "u64 list \<Rightarrow> u64 list \<Rightarrow> string list \<Rightarrow> string list" where
  "restore_uuids gpu_mem gm uuids = foldl (restore_step gpu_mem) (replicate (length gpu_mem) []) (zip gm uuids)"

text \<open>\<open>stub d uuids mem\<close> is the answer of the daemon: \<open>None\<close> for an error status, \<open>Some None\<close> for a reply without addresses field.\<close>

fun parse_all :: "string list \<Rightarrow> server_address list res" where
  "parse_all [] = Inr []"
| "parse_all (s # ss) = rbind (ServerAddress_parse s) (\<lambda>a. rbind (parse_all ss) (\<lambda>as. Inr (a # as)))"

definition SpawnWorker :: "string list option option \<Rightarrow> server_address list res" where
  "SpawnWorker reply = (case reply of None \<Rightarrow> Inr [] | Some wa \<Rightarrow> rbind (deref wa) parse_all)"

definition add_busy_all :: "server_address \<Rightarrow> (nat \<times> u64) list \<Rightarrow> gpu_heap \<Rightarrow> gpu_heap" where
  "add_busy_all a as h = foldl (\<lambda>h (e, g). h[e := AddBusyWorker a g (h ! e)]) h as"

definition DoAssignWorker ::
  "sorter \<Rightarrow> (nat \<Rightarrow> bool) \<Rightarrow> (nat \<Rightarrow> string list \<Rightarrow> u64 list \<Rightarrow> string list option option) \<Rightarrow> u64 list \<Rightarrow> manager \<Rightarrow> (server_address list \<times> manager) res" where
  "DoAssignWorker srt shut stub gpu_mem m =
     (if gpu_mem = [] then Inr ([], m)
      else let gm = rev (sort gpu_mem)
           in case daemon_loop srt shut gm 0 m of
                (None, m) \<Rightarrow> Inr ([], m)
              | (Some (d, as), m) \<Rightarrow>
                  let uuids = map (\<lambda>(e, g). uuid (entries m ! e)) as;
                      restored = restore_uuids gpu_mem gm uuids
                  in rbind (SpawnWorker (stub d restored gpu_mem)) (\<lambda>workers.
                     if workers = []
                     then let (h, l) = revoke_all srt as (entries m, gpus (daemons m ! d))
                          in Inr ([], m\<lparr>entries := h, daemons := (daemons m)[d := (daemons m ! d)\<lparr>gpus := l\<rparr>]\<rparr>)
                     else Inr (workers, m\<lparr>entries := add_busy_all (workers ! 0) as (entries m)\<rparr>)))"

datatype 'a status = Ok_status 'a | Invalid_argument | Unavailable

definition AssignWorker ::
  "sorter \<Rightarrow> (nat \<Rightarrow> bool) \<Rightarrow> (nat \<Rightarrow> string list \<Rightarrow> u64 list \<Rightarrow> string list option option) \<Rightarrow> int \<Rightarrow> u64 list option \<Rightarrow> manager \<Rightarrow> (string list status \<times> manager) res" where
  "AssignWorker srt shut stub gpu_count gpu_mem m =
     (let gm = (case gpu_mem of None \<Rightarrow> [] | Some gm \<Rightarrow> gm)
      in if int (length gm) \<noteq> gpu_count mod 2 ^ 64 then Inr (Invalid_argument, m)
         else rbind (DoAssignWorker srt shut stub gm m) (\<lambda>(ws, m).
              if ws = [] then Inr (Unavailable, m) else Inr (Ok_status (map GetAddress ws), m)))"

fun remove_busy_all ::
  "(worker_info list \<Rightarrow> worker_info list) \<Rightarrow> server_address \<Rightarrow> string list \<Rightarrow> nat list \<Rightarrow> gpu_heap \<Rightarrow> gpu_heap res" where
  "remove_busy_all ord a [] l h = Inr h"
| "remove_busy_all ord a (u # us) l h =
     (case FindEntryByUuid u h l of
        None \<Rightarrow> Inl NullDeref
      | Some e \<Rightarrow> remove_busy_all ord a us l (h[e := RemoveBusyWorker ord a (h ! e)]))"

definition NotifyWorkerExit ::
  "(worker_info list \<Rightarrow> worker_info list) \<Rightarrow> string option \<Rightarrow> string list option \<Rightarrow> manager \<Rightarrow> (unit status \<times> manager) res" where
  "NotifyWorkerExit ord address uuid_field m =
     rbind (rbind (deref address) ServerAddress_parse) (\<lambda>a.
     rbind (deref uuid_field) (\<lambda>uuids.
     if uuids = [] then Inl OutOfBounds
     else case FindDaemonByIp (ip a) m of
            None \<Rightarrow> Inr (Invalid_argument, m)
          | Some d \<Rightarrow> rbind (remove_busy_all ord a uuids (gpus (daemons m ! d)) (entries m)) (\<lambda>h.
                     Inr (Ok_status (), m\<lparr>entries := h\<rparr>))))"

section \<open>Reservations on the heap\<close>

definition reserve_all :: "(nat \<times> u64) list \<Rightarrow> gpu_heap \<Rightarrow> gpu_heap" where
  "reserve_all as h = foldl (\<lambda>h (e, g). h[e := ReserveMemory g (h ! e)]) h as"

definition release_all :: "(nat \<times> u64) list \<Rightarrow> gpu_heap \<Rightarrow> gpu_heap" where
  "release_all as h = foldl (\<lambda>h (e, g). h[e := ReleaseMemory g (h ! e)]) h as"

text \<open>What a list of reservations takes from entry \<open>i\<close>.\<close>

definition shares :: "nat \<Rightarrow> (nat \<times> u64) list \<Rightarrow> u64 list" where
  "shares i as = map snd (filter (\<lambda>a. fst a = i) as)"

lemma shares_simps [simp]:
  "shares i [] = []"
  "shares i ((e, g) # as) = (if e = i then g # shares i as else shares i as)"
  "shares i (as @ bs) = shares i as @ shares i bs"
  by (auto simp: shares_def)

lemma reserve_all_simps [simp]:
  "reserve_all [] h = h"
  "reserve_all ((e, g) # as) h = reserve_all as (h[e := ReserveMemory g (h ! e)])"
  "reserve_all (as @ [(e, g)]) h = (reserve_all as h)[e := ReserveMemory g (reserve_all as h ! e)]"
  by (simp_all add: reserve_all_def)

lemma release_all_simps [simp]:
  "release_all [] h = h"
  "release_all ((e, g) # as) h = release_all as (h[e := ReleaseMemory g (h ! e)])"
  by (simp_all add: release_all_def)

lemma add_busy_all_simps [simp]:
  "add_busy_all a [] h = h"
  "add_busy_all a ((e, g) # as) h = add_busy_all a as (h[e := AddBusyWorker a g (h ! e)])"
  by (simp_all add: add_busy_all_def)

lemma heap_lengths [simp]:
  "length (reserve_all as h) = length h" "length (release_all as h) = length h" "length (add_busy_all a as h) = length h"
  by (induction as arbitrary: h; force)+

lemma reserve_all_nth:
  "i < length h \<Longrightarrow> reserve_all as h ! i =
     (h ! i)\<lparr>free_memory := free_memory (h ! i) - sum_list (shares i as),
            worker_counter := worker_counter (h ! i) + int (length (shares i as))\<rparr>"
  by (induction as arbitrary: h) (auto simp: ReserveMemory_def nth_list_update algebra_simps)

lemma release_all_nth:
  "i < length h \<Longrightarrow> release_all as h ! i =
     (h ! i)\<lparr>free_memory := free_memory (h ! i) + sum_list (shares i as),
            worker_counter := worker_counter (h ! i) - int (length (shares i as))\<rparr>"
  by (induction as arbitrary: h) (auto simp: ReleaseMemory_def nth_list_update algebra_simps)

lemma add_busy_all_nth:
  "i < length h \<Longrightarrow> add_busy_all a as h ! i =
     (h ! i)\<lparr>busy_workers := rev (map (\<lambda>g. \<lparr>w_address = a, used_memory = g\<rparr>) (shares i as)) @ busy_workers (h ! i)\<rparr>"
  by (induction as arbitrary: h) (auto simp: AddBusyWorker_def Insert_worker_def nth_list_update)

lemma release_reserve: "release_all as (reserve_all as h) = h"
  by (rule nth_equalityI) (simp_all add: release_all_nth reserve_all_nth)

lemma revoke_all_heap: "fst (revoke_all srt as (h, l)) = release_all as h"
  by (induction as arbitrary: h l) (auto simp: RevokeEntryWithMemory_def Let_def)

lemma revoke_all_list:
  "std_sort srt \<Longrightarrow> mset (snd (revoke_all srt as (h, l))) = mset l"
  by (induction as arbitrary: h l) (auto simp: RevokeEntryWithMemory_def Let_def std_sort_def)

section \<open>Assignment on one daemon\<close>

definition fits :: "(nat \<times> u64) list \<Rightarrow> gpu_heap \<Rightarrow> bool" where
  "fits as h \<longleftrightarrow> (\<forall>i < length h. sum_list (map unat (shares i as)) \<le> unat (free_memory (h ! i)))"

lemma unat_sum_fits:
  "sum_list (map unat gs) \<le> unat (f :: u64) \<Longrightarrow>
   unat (sum_list gs) = sum_list (map unat gs) \<and> unat (f - sum_list gs) = unat f - sum_list (map unat gs)"
proof -
  assume le: "sum_list (map unat gs) \<le> unat f"
  have s: "sum_list gs = of_nat (sum_list (map unat gs))" by (induction gs) simp_all
  have "sum_list (map unat gs) < 2 ^ 64" using le unsigned_less [of f, where ?'a = nat] by simp
  then have u: "unat (sum_list gs) = sum_list (map unat gs)" by (subst s) (simp add: unat_of_nat take_bit_nat_eq_self_iff unsigned_of_nat)
  with le show ?thesis by (simp add: unat_sub word_le_nat_alt)
qed

lemma fits_snoc:
  assumes "fits as h" "e < length h" "g \<le> free_memory (reserve_all as h ! e)"
  shows "fits (as @ [(e, g)]) h"
  unfolding fits_def
proof (intro allI impI)
  fix i assume i: "i < length h"
  have f: "sum_list (map unat (shares i as)) \<le> unat (free_memory (h ! i))" using assms(1) i by (simp add: fits_def)
  then show "sum_list (map unat (shares i (as @ [(e, g)]))) \<le> unat (free_memory (h ! i))"
    using assms(3) i unat_sum_fits [OF f] by (auto simp: reserve_all_nth word_le_nat_alt)
qed

text \<open>Either every request is reserved, in order, or the heap is as before.\<close>

lemma assign_gpus_cases:
  assumes "std_sort srt" "\<forall>i \<in> set l. i < length h0" "fits as h0" "fst ` set as \<subseteq> set l"
    "assign_gpus srt gm as (reserve_all as h0, l) = (as', h', l')"
  shows "mset l' = mset l \<and> (map snd as' = map snd as @ gm \<and> h' = reserve_all as' h0 \<and> fits as' h0 \<and> fst ` set as' \<subseteq> set l
           \<or> as' = [] \<and> h' = h0)"
  using assms(2-5)
proof (induction gm arbitrary: as l)
  case Nil
  then show ?case by auto
next
  case (Cons g gm)
  show ?case
  proof (cases "find (\<lambda>i. free_memory (reserve_all as h0 ! i) \<ge> g) l")
    case None
    then have e: "(as', h', l') = ([], revoke_all srt as (reserve_all as h0, l))"
      using Cons.prems(4) by (simp add: FindEntryAndReserveMemory_def)
    then have "h' = h0" using revoke_all_heap [of srt as "reserve_all as h0" l] by (metis fst_conv release_reserve snd_conv)
    moreover have "mset l' = mset l" using e revoke_all_list [OF assms(1), of as "reserve_all as h0" l] by (metis snd_conv)
    ultimately show ?thesis using e by simp
  next
    case (Some e)
    then have e: "e \<in> set l" "g \<le> free_memory (reserve_all as h0 ! e)" by (auto simp: find_Some_iff)
    let ?l = "srt (reserve_all (as @ [(e, g)]) h0) l"
    have m: "mset ?l = mset l" using assms(1) by (simp add: std_sort_def)
    then have sl: "set ?l = set l" by (metis set_mset_mset)
    have a: "assign_gpus srt gm (as @ [(e, g)]) (reserve_all (as @ [(e, g)]) h0, ?l) = (as', h', l')"
      using Cons.prems(4) Some by (simp add: FindEntryAndReserveMemory_def Let_def)
    show ?thesis
      using Cons.IH [OF _ _ _ a] fits_snoc [OF Cons.prems(2) _ e(2)] Cons.prems(1,3) e(1) m sl by auto
  qed
qed

section \<open>Accounting of GPU memory\<close>

text \<open>The memory of an entry is free or used by one of its busy workers, and the counter counts these workers.\<close>

definition entry_ok :: "nat \<Rightarrow> gpu_entry \<Rightarrow> bool" where
  "entry_ok t e \<longleftrightarrow> t < 2 ^ 64 \<and> unat (free_memory e) + sum_list (map (\<lambda>w. unat (used_memory w)) (busy_workers e)) = t \<and>
     worker_counter e = int (length (busy_workers e))"

definition heap_ok :: "nat list \<Rightarrow> gpu_heap \<Rightarrow> bool" where
  "heap_ok tot h \<longleftrightarrow> list_all2 entry_ok tot h"

definition lists_ok :: "manager \<Rightarrow> bool" where
  "lists_ok m \<longleftrightarrow> (\<forall>d \<in> set (daemons m). \<forall>i \<in> set (gpus d). i < length (entries m))"

definition manager_ok :: "nat list \<Rightarrow> manager \<Rightarrow> bool" where
  "manager_ok tot m \<longleftrightarrow> heap_ok tot (entries m) \<and> lists_ok m"

lemma heap_ok_assigned:
  assumes "heap_ok tot h" "fits as h"
  shows "heap_ok tot (add_busy_all a as (reserve_all as h))"
  unfolding heap_ok_def
proof (rule list_all2_all_nthI)
  show "length tot = length (add_busy_all a as (reserve_all as h))" using assms(1) by (simp add: heap_ok_def list_all2_lengthD)
  fix i assume "i < length tot"
  with assms(1) have i: "i < length h" "entry_ok (tot ! i) (h ! i)" by (auto simp: heap_ok_def list_all2_conv_all_nth)
  have f: "sum_list (map unat (shares i as)) \<le> unat (free_memory (h ! i))" using assms(2) i(1) by (simp add: fits_def)
  show "entry_ok (tot ! i) (add_busy_all a as (reserve_all as h) ! i)"
    using i f unat_sum_fits [OF f] by (simp add: entry_ok_def add_busy_all_nth reserve_all_nth o_def rev_map [symmetric])
qed

text \<open>What the search over the daemons does: nothing, or a complete set of reservations on one daemon that is alive.\<close>

lemma lists_ok_update:
  "lists_ok m \<Longrightarrow> length h = length (entries m) \<Longrightarrow> \<forall>i \<in> set (gpus di). i < length (entries m) \<Longrightarrow>
   lists_ok (m\<lparr>entries := h, daemons := (daemons m)[d := di]\<rparr>)"
  by (auto simp: lists_ok_def dest!: set_update_subset_insert [THEN subsetD])

lemma IsDead_cases: "IsDead shut d = (dead, di) \<Longrightarrow> gpus di = gpus d \<and> d_address di = d_address d \<and> (dead = (is_dead d \<or> shut))"
  by (auto simp: IsDead_def Let_def split: if_splits)

lemma daemon_loop_cases:
  assumes "std_sort srt" "lists_ok m" "gm \<noteq> []" "daemon_loop srt shut gm d m = (r, m')"
  shows "lists_ok m' \<and> length (daemons m') = length (daemons m) \<and>
    (case r of None \<Rightarrow> entries m' = entries m
     | Some (d', as) \<Rightarrow> d' < length (daemons m) \<and> \<not> shut d' \<and> map snd as = gm \<and> entries m' = reserve_all as (entries m) \<and> fits as (entries m) \<and>
         fst ` set as \<subseteq> set (gpus (daemons m' ! d')))"
  using assms(2,4)
proof (induction "length (daemons m) - d" arbitrary: d m rule: less_induct)
  case less
  show ?case
  proof (cases "d < length (daemons m)")
    case False
    then show ?thesis using less.prems by (simp add: daemon_loop.simps [of srt shut gm d])
  next
    case True
    obtain dead di where D: "IsDead (shut d) (daemons m ! d) = (dead, di)" by fastforce
    note di = IsDead_cases [OF D]
    have b: "\<forall>i \<in> set (gpus di). i < length (entries m)" using less.prems(1) nth_mem [OF True] di by (simp add: lists_ok_def)
    obtain as h l where A: "assign_gpus srt gm [] (entries m, gpus di) = (as, h, l)" by (metis prod_cases3)
    have c: "mset l = mset (gpus di) \<and> (map snd as = gm \<and> h = reserve_all as (entries m) \<and> fits as (entries m) \<and> fst ` set as \<subseteq> set (gpus di)
           \<or> as = [] \<and> h = entries m)"
      using assign_gpus_cases [OF assms(1) b, of "[]" gm as h l] A by (simp add: fits_def)
    then have sl: "set l = set (gpus di)" by (metis set_mset_mset)
    let ?dead = "m\<lparr>daemons := (daemons m)[d := di]\<rparr>"
    let ?next = "m\<lparr>entries := h, daemons := (daemons m)[d := di\<lparr>gpus := l\<rparr>]\<rparr>"
    have ok: "lists_ok ?dead" "lists_ok ?next"
      using lists_ok_update [OF less.prems(1), of "entries m" di d] lists_ok_update [OF less.prems(1), of h "di\<lparr>gpus := l\<rparr>" d] b c sl by auto
    have L: "daemon_loop srt shut gm d m = (if dead then daemon_loop srt shut gm (d + 1) ?dead
        else if as \<noteq> [] then (Some (d, as), ?next) else daemon_loop srt shut gm (d + 1) ?next)"
      using True D A by (subst daemon_loop.simps) simp
    consider "dead" | "\<not> dead" "as \<noteq> []" | "\<not> dead" "as = []" by blast
    then show ?thesis
    proof cases
      case 1
      then show ?thesis using less.hyps [of ?dead "d + 1"] ok(1) less.prems(2) L True by (cases r) auto
    next
      case 2
      then show ?thesis using ok(2) less.prems(2) L True c di sl by auto
    next
      case 3
      then have "h = entries m" using c assms(3) by auto
      then show ?thesis using 3 less.hyps [of ?next "d + 1"] ok(2) less.prems(2) L True by (cases r) auto
    qed
  qed
qed

section \<open>What assignment leaves unchanged\<close>

text \<open>The daemons keep their addresses, and each keeps its GPUs, in some order.\<close>

definition same_daemons :: "manager \<Rightarrow> manager \<Rightarrow> bool" where
  "same_daemons m m' \<longleftrightarrow> length (daemons m') = length (daemons m) \<and>
     (\<forall>i < length (daemons m). d_address (daemons m' ! i) = d_address (daemons m ! i) \<and> mset (gpus (daemons m' ! i)) = mset (gpus (daemons m ! i)))"

lemma same_daemons_trans: "same_daemons m m1 \<Longrightarrow> same_daemons m1 m2 \<Longrightarrow> same_daemons m m2"
  by (simp add: same_daemons_def)

lemma same_daemons_update:
  "d_address di = d_address (daemons m ! d) \<Longrightarrow> mset (gpus di) = mset (gpus (daemons m ! d)) \<Longrightarrow>
   same_daemons m (m\<lparr>entries := h, daemons := (daemons m)[d := di]\<rparr>)"
  by (cases "d < length (daemons m)") (auto simp: same_daemons_def nth_list_update list_update_beyond)

lemma same_daemonsD:
  assumes "same_daemons m m'"
  shows "length (daemons m') = length (daemons m)"
    and "i < length (daemons m) \<Longrightarrow> d_address (daemons m' ! i) = d_address (daemons m ! i)"
    and "i < length (daemons m) \<Longrightarrow> set (gpus (daemons m' ! i)) = set (gpus (daemons m ! i))"
  using assms by (auto simp: same_daemons_def dest!: spec [of _ i] mset_eq_setD)

lemma same_daemons_ip: "same_daemons m m' \<Longrightarrow> FindDaemonByIp a m' = FindDaemonByIp a m"
  unfolding FindDaemonByIp_def by (rule find_cong) (simp_all add: same_daemonsD)

lemma FindEntryAndReserveMemory_list:
  "std_sort srt \<Longrightarrow> FindEntryAndReserveMemory srt g (h, l) = (r, h', l') \<Longrightarrow> mset l' = mset l"
  by (auto simp: FindEntryAndReserveMemory_def Let_def std_sort_def split: option.splits)

lemma assign_gpus_list: "std_sort srt \<Longrightarrow> assign_gpus srt gm as (h, l) = (as', h', l') \<Longrightarrow> mset l' = mset l"
proof (induction gm arbitrary: as h l)
  case (Cons g gm)
  obtain r h1 l1 where f: "FindEntryAndReserveMemory srt g (h, l) = (r, h1, l1)" by (metis prod_cases3)
  note m = FindEntryAndReserveMemory_list [OF Cons.prems(1) f]
  show ?case
  proof (cases r)
    case None
    then have "revoke_all srt as (h1, l1) = (h', l')" using Cons.prems(2) f by simp
    then show ?thesis using m revoke_all_list [OF Cons.prems(1), of as h1 l1] by simp
  next
    case (Some e)
    then show ?thesis using Cons.IH [OF Cons.prems(1), of "as @ [(e, g)]" h1 l1] Cons.prems(2) f m by simp
  qed
qed simp

lemma daemon_loop_daemons:
  assumes "std_sort srt"
  shows "daemon_loop srt shut gm d m = (r, m') \<Longrightarrow> same_daemons m m'"
proof (induction "length (daemons m) - d" arbitrary: d m rule: less_induct)
  case less
  show ?case
  proof (cases "d < length (daemons m)")
    case False
    then show ?thesis using less.prems by (simp add: daemon_loop.simps [of srt shut gm d] same_daemons_def)
  next
    case True
    obtain dead di where D: "IsDead (shut d) (daemons m ! d) = (dead, di)" by fastforce
    note di = IsDead_cases [OF D]
    obtain as h l where A: "assign_gpus srt gm [] (entries m, gpus di) = (as, h, l)" by (metis prod_cases3)
    let ?dead = "m\<lparr>daemons := (daemons m)[d := di]\<rparr>"
    let ?next = "m\<lparr>entries := h, daemons := (daemons m)[d := di\<lparr>gpus := l\<rparr>]\<rparr>"
    have s: "same_daemons m ?dead" "same_daemons m ?next"
      using same_daemons_update [of di m d "entries m"] same_daemons_update [of "di\<lparr>gpus := l\<rparr>" m d h] di assign_gpus_list [OF assms A] by simp_all
    have L: "daemon_loop srt shut gm d m = (if dead then daemon_loop srt shut gm (d + 1) ?dead
        else if as \<noteq> [] then (Some (d, as), ?next) else daemon_loop srt shut gm (d + 1) ?next)"
      using True D A by (subst daemon_loop.simps) simp
    then consider "daemon_loop srt shut gm (d + 1) ?dead = (r, m')" | "m' = ?next" | "daemon_loop srt shut gm (d + 1) ?next = (r, m')"
      using less.prems by (cases dead; cases "as = []") simp_all
    then show ?thesis
    proof cases
      case 1
      then have "same_daemons ?dead m'" using True by (intro less.hyps [of ?dead "d + 1"]) simp_all
      with s(1) show ?thesis by (rule same_daemons_trans)
    next
      case 2
      with s(2) show ?thesis by simp
    next
      case 3
      then have "same_daemons ?next m'" using True by (intro less.hyps [of ?next "d + 1"]) simp_all
      with s(2) show ?thesis by (rule same_daemons_trans)
    qed
  qed
qed

text \<open>A successful assignment: what was reserved, what the daemon was asked for, and what it answered.\<close>

lemma DoAssignWorker_success:
  assumes "std_sort srt" "lists_ok m" "DoAssignWorker srt shut stub gpu_mem m = Inr (ws, m')" "ws \<noteq> []"
  obtains d as where "d < length (daemons m)" "\<not> shut d" "map snd as = rev (sort gpu_mem)" "fst ` set as \<subseteq> set (gpus (daemons m' ! d))"
    "fits as (entries m)" "entries m' = add_busy_all (ws ! 0) as (reserve_all as (entries m))" "lists_ok m'" "same_daemons m m'"
    "SpawnWorker (stub d (restore_uuids gpu_mem (rev (sort gpu_mem)) (map (\<lambda>(e, g). uuid (entries m ! e)) as)) gpu_mem) = Inr ws"
proof -
  let ?gm = "rev (sort gpu_mem)"
  have g: "gpu_mem \<noteq> []" using assms(3,4) by (auto simp: DoAssignWorker_def)
  then have ne: "?gm \<noteq> []" by (metis length_0_conv length_rev length_sort)
  obtain r m1 where L: "daemon_loop srt shut ?gm 0 m = (r, m1)" by fastforce
  then obtain d as where r: "r = Some (d, as)" using assms(3,4) g by (cases r) (auto simp: DoAssignWorker_def Let_def)
  note c = daemon_loop_cases [OF assms(1,2) ne L, unfolded r, simplified] and s = daemon_loop_daemons [OF assms(1) L]
  have b: "e < length (entries m)" if "e \<in> fst ` set as" for e
    using c that nth_mem [of d "daemons m1"] unfolding lists_ok_def by (metis heap_lengths(1) subsetD)
  then have "uuid (entries m1 ! e) = uuid (entries m ! e)" if "(e, g) \<in> set as" for e g
    using c b [of e] image_eqI [of e fst "(e, g)" "set as"] that by (simp add: reserve_all_nth)
  then have u: "map (\<lambda>(e, g). uuid (entries m1 ! e)) as = map (\<lambda>(e, g). uuid (entries m ! e)) as" by (auto cong: map_cong)
  let ?s = "SpawnWorker (stub d (restore_uuids gpu_mem ?gm (map (\<lambda>(e, g). uuid (entries m ! e)) as)) gpu_mem)"
  have D: "DoAssignWorker srt shut stub gpu_mem m = rbind ?s (\<lambda>workers. if workers = []
      then let (h, l) = revoke_all srt as (entries m1, gpus (daemons m1 ! d))
           in Inr ([], m1\<lparr>entries := h, daemons := (daemons m1)[d := (daemons m1 ! d)\<lparr>gpus := l\<rparr>]\<rparr>)
      else Inr (workers, m1\<lparr>entries := add_busy_all (workers ! 0) as (entries m1)\<rparr>))"
    unfolding u [symmetric] using g L r by (simp add: DoAssignWorker_def Let_def)
  obtain ws1 where ws1: "?s = Inr ws1" using assms(3) D by (cases ?s) (simp_all add: res_simps)
  then have w: "ws1 = ws" "m' = m1\<lparr>entries := add_busy_all (ws ! 0) as (entries m1)\<rparr>"
    using assms(3,4) D by (auto simp: res_simps Let_def split: if_splits prod.splits)
  have e: "length (entries m1) = length (entries m)" using c by simp
  have "lists_ok m'" "same_daemons m m'" using c s w(2) e by (simp_all add: lists_ok_def same_daemons_def)
  then show thesis using c w ws1 by (intro that [of d as]) simp_all
qed

text \<open>C2: Assignment keeps the memory accounting of every GPU. When no API server is returned, every GPU is exactly as before, also
  after a failed spawn. Otherwise all requests, largest first, were reserved on GPUs of one daemon that is alive, within the free memory of each GPU, and the first
  returned API server is recorded as their busy worker.\<close>

theorem gpu_assignment_atomic:
  assumes "std_sort srt" "manager_ok tot m" "DoAssignWorker srt shut stub gpu_mem m = Inr (ws, m')"
  shows "manager_ok tot m' \<and> (if ws = [] then entries m' = entries m
     else \<exists>d as. d < length (daemons m) \<and> \<not> shut d \<and> map snd as = rev (sort gpu_mem) \<and> fst ` set as \<subseteq> set (gpus (daemons m' ! d)) \<and> fits as (entries m) \<and>
            entries m' = add_busy_all (ws ! 0) as (reserve_all as (entries m)))"
proof (cases "gpu_mem = []")
  case True
  then show ?thesis using assms by (simp add: DoAssignWorker_def)
next
  case False
  let ?gm = "rev (sort gpu_mem)"
  obtain r m1 where L: "daemon_loop srt shut ?gm 0 m = (r, m1)" by fastforce
  have ne: "?gm \<noteq> []" using False by (metis length_0_conv length_rev length_sort)
  have lo: "lists_ok m" and ho: "heap_ok tot (entries m)" using assms(2) by (simp_all add: manager_ok_def)
  note c = daemon_loop_cases [OF assms(1) lo ne L]
  show ?thesis
  proof (cases r)
    case None
    then show ?thesis using c assms(3) False L ho by (auto simp: DoAssignWorker_def manager_ok_def Let_def)
  next
    case (Some da)
    obtain d as where da: "da = (d, as)" by fastforce
    note c = c [unfolded Some da, simplified]
    obtain h l where R: "revoke_all srt as (entries m1, gpus (daemons m1 ! d)) = (h, l)" by fastforce
    have h: "h = entries m" using revoke_all_heap [of srt as "entries m1" "gpus (daemons m1 ! d)"] R c by (simp add: release_reserve)
    have ml: "set l = set (gpus (daemons m1 ! d))"
      using revoke_all_list [OF assms(1), of as "entries m1" "gpus (daemons m1 ! d)"] R by (metis set_mset_mset snd_conv)
    have "daemons m1 ! d \<in> set (daemons m1)" using c by simp
    then have "\<forall>i \<in> set l. i < length (entries m1)" using c ml unfolding lists_ok_def by blast
    then have lr: "lists_ok (m1\<lparr>entries := h, daemons := (daemons m1)[d := (daemons m1 ! d)\<lparr>gpus := l\<rparr>]\<rparr>)"
      using c h by (intro lists_ok_update) auto
    show ?thesis
    proof (cases "ws = []")
      case True
      then have "m' = m1\<lparr>entries := h, daemons := (daemons m1)[d := (daemons m1 ! d)\<lparr>gpus := l\<rparr>]\<rparr>"
        using assms(3) False L Some da R by (auto simp: DoAssignWorker_def Let_def res_simps split: if_splits sum.splits)
      then show ?thesis using True lr h ho by (simp add: manager_ok_def)
    next
      case w: False
      show ?thesis using DoAssignWorker_success [OF assms(1) lo assms(3) w]
        by cases (use w heap_ok_assigned [OF ho] in \<open>auto simp: manager_ok_def\<close>)
    qed
  qed
qed

text \<open>A sort that keeps the promise, for concrete runs.\<close>

definition key_sort :: sorter where
  "key_sort h l = sort_key (\<lambda>i. worker_counter (h ! i) * 2 ^ 64 - uint (free_memory (h ! i))) l"

lemma lex_key:
  fixes x y :: int
  assumes "0 \<le> x" "x < 2 ^ 64" "0 \<le> y" "y < 2 ^ 64"
  shows "(if p = q then y < x else p < q) \<longleftrightarrow> p * 2 ^ 64 - x < q * 2 ^ 64 - y"
  using assms by (cases "p = q"; cases "p < q") auto

lemma entry_less_key:
  "entry_less a b \<longleftrightarrow> worker_counter a * 2 ^ 64 - uint (free_memory a) < worker_counter b * 2 ^ 64 - uint (free_memory b)"
proof -
  have "0 \<le> uint (free_memory x)" "uint (free_memory x) < 2 ^ 64" for x using unsigned_less [of "free_memory x", where ?'a = int] by simp_all
  then show ?thesis unfolding entry_less_def word_less_def by (intro lex_key)
qed

lemma key_sort_std: "std_sort key_sort"
proof -
  have "sorted_wrt (\<lambda>i j. \<not> entry_less (h ! j) (h ! i)) (key_sort h l)" for h l
    using sorted_sort_key [of "\<lambda>i. worker_counter (h ! i) * 2 ^ 64 - uint (free_memory (h ! i))" l]
    by (simp add: key_sort_def entry_less_key sorted_map not_less)
  then show ?thesis by (simp add: std_sort_def key_sort_def)
qed

definition idle_gpu :: "string \<Rightarrow> u64 \<Rightarrow> gpu_entry" where
  "idle_gpu u f = \<lparr>uuid = u, free_memory = f, idle_workers = [], busy_workers = [], worker_counter = 0, e_list = 0\<rparr>"

definition two_gpus :: manager where
  "two_gpus = \<lparr>entries = [idle_gpu ''A'' 8, idle_gpu ''B'' 5],
     daemons = [\<lparr>d_address = \<lparr>ip = ''h'', port = 1\<rparr>, gpus = [0, 1], is_dead = False\<rparr>]\<rparr>"

lemma two_gpus_ok: "manager_ok [8, 5] two_gpus"
  by (simp add: manager_ok_def heap_ok_def lists_ok_def entry_ok_def two_gpus_def idle_gpu_def)

lemmas run_simps = DoAssignWorker_def daemon_loop.simps IsDead_def FindEntryAndReserveMemory_def ReserveMemory_def
  ReleaseMemory_def RevokeEntryWithMemory_def key_sort_def two_gpus_def idle_gpu_def Let_def

theorem gpu_assignment_atomic_witness:
  "\<exists>m'. DoAssignWorker key_sort (\<lambda>_. False) (\<lambda>_ _ _. None) [6, 6] two_gpus = Inr ([], m') \<and> manager_ok [8, 5] m' \<and> entries m' = entries two_gpus"
proof -
  have "\<exists>m'. DoAssignWorker key_sort (\<lambda>_. False) (\<lambda>_ _ _. None) [6, 6] two_gpus = Inr ([], m')" by (simp add: run_simps)
  then show ?thesis using gpu_assignment_atomic [OF key_sort_std two_gpus_ok] by fastforce
qed

section \<open>The assignment policy\<close>



section \<open>The order of the request\<close>

fun put_slot :: "u64 \<times> string \<Rightarrow> (u64 \<times> string) list \<Rightarrow> (u64 \<times> string) list" where
  "put_slot gu [] = []"
| "put_slot gu ((v, r) # ps) = (if fst gu = v \<and> r = [] then (v, snd gu) # ps else (v, r) # put_slot gu ps)"

lemma find_upt_Suc: "find P [0..<Suc n] = (if P 0 then Some 0 else map_option Suc (find (\<lambda>j. P (Suc j)) [0..<n]))"
proof -
  have "find P (map Suc xs) = map_option Suc (find (\<lambda>j. P (Suc j)) xs)" for xs by (induction xs) simp_all
  moreover have "[0..<Suc n] = 0 # map Suc [0..<n]" by (simp only: map_Suc_upt upt_conv_Cons zero_less_Suc)
  ultimately show ?thesis by simp
qed

lemma restore_step_put:
  "length r = length gpu_mem \<Longrightarrow> zip gpu_mem (restore_step gpu_mem r gu) = put_slot gu (zip gpu_mem r)"
proof (induction gpu_mem r rule: list_induct2' )
  case (4 v vs x xs)
  then show ?case
    by (auto simp: restore_step_def find_upt_Suc simp del: upt_Suc split: option.splits)
qed (simp_all add: restore_step_def)

lemma restore_step_length [simp]: "length (restore_step gpu_mem r gu) = length r"
  by (simp add: restore_step_def split: option.split)

lemma put_slot_mset:
  "(g, []) \<in> set ps \<Longrightarrow> mset (put_slot (g, u) ps) = mset ps - {#(g, [])#} + {#(g, u)#}"
  by (induction ps) auto

lemma put_slots_mset:
  "mset (map (\<lambda>x. (fst x, [])) xs) \<subseteq># mset ps \<Longrightarrow>
   mset (foldl (\<lambda>ps gu. put_slot gu ps) ps xs) = mset ps - mset (map (\<lambda>x. (fst x, [])) xs) + mset xs"
proof (induction xs arbitrary: ps)
  case (Cons x xs)
  obtain g u where x: "x = (g, u)" by fastforce
  let ?r = "mset (map (\<lambda>x. (fst x, []))  xs) :: (u64 \<times> string) multiset"
  from Cons.prems obtain q where q: "mset ps = add_mset (g, []) ?r + q" unfolding x by (auto simp: subset_mset.le_iff_add)
  then have "(g, []) \<in> set ps" by (metis add_mset_add_single set_mset_mset union_iff multi_member_last)
  then have m: "mset (put_slot (g, u) ps) = ?r + q + {#(g, u)#}" using q by (simp add: put_slot_mset)
  then show ?case using Cons.IH [of "put_slot (g, u) ps"] q by (simp add: x)
qed simp

lemma restore_uuids_mset:
  assumes "mset gm = mset gpu_mem" "length uuids = length gm"
  shows "mset (zip gpu_mem (restore_uuids gpu_mem gm uuids)) = mset (zip gm uuids) \<and> length (restore_uuids gpu_mem gm uuids) = length gpu_mem"
proof -
  have f: "length r = length gpu_mem \<Longrightarrow> zip gpu_mem (foldl (restore_step gpu_mem) r xs) = foldl (\<lambda>ps gu. put_slot gu ps) (zip gpu_mem r) xs
      \<and> length (foldl (restore_step gpu_mem) r xs) = length gpu_mem" for r xs
    by (induction xs arbitrary: r) (simp_all add: restore_step_put)
  have "map (\<lambda>x. (fst x, [])) (zip gm uuids) = map (\<lambda>g. (g, [] :: string)) gm" using assms(2)
    by (metis (no_types, lifting) map_fst_zip map_map o_apply map_eq_conv)
  moreover have "zip gpu_mem (replicate (length gpu_mem) []) = map (\<lambda>g. (g, [] :: string)) gpu_mem"
    by (simp add: zip_replicate2)
  ultimately have "mset (map (\<lambda>x. (fst x, [])) (zip gm uuids)) = mset (zip gpu_mem (replicate (length gpu_mem) ([] :: string)))"
    using assms(1) by simp
  then show ?thesis using put_slots_mset [of "zip gm uuids" "zip gpu_mem (replicate (length gpu_mem) [])"] f
    by (simp add: restore_uuids_def)
qed

text \<open>Restoring the order of the request hands to every requested size a GPU that was reserved for this size, each reservation once.\<close>

theorem restored_uuids_match:
  assumes "mset gm = mset gpu_mem" "length uuids = length gm"
  shows "mset (zip gpu_mem (restore_uuids gpu_mem gm uuids)) = mset (zip gm uuids) \<and> length (restore_uuids gpu_mem gm uuids) = length gpu_mem"
  using restore_uuids_mset [OF assms] .

theorem restored_uuids_match_witness:
  "mset (zip [4 :: u64, 9, 4] (restore_uuids [4, 9, 4] [9, 4, 4] [''A'', ''B'', ''C''])) = mset (zip [9, 4, 4] [''A'', ''B'', ''C''])"
  using restored_uuids_match [of "[9, 4, 4]" "[4, 9, 4]" "[''A'', ''B'', ''C'']"] by simp

section \<open>The end of a worker\<close>

definition visits_all :: "(worker_info list \<Rightarrow> worker_info list) \<Rightarrow> bool" where
  "visits_all ord \<longleftrightarrow> (\<forall>ws. mset (ord ws) = mset ws)"

definition has_worker :: "server_address \<Rightarrow> gpu_entry \<Rightarrow> bool" where
  "has_worker a e \<longleftrightarrow> (\<exists>w \<in> set (busy_workers e). GetAddress (w_address w) = GetAddress a)"

lemma RemoveBusyWorker_ok:
  assumes "visits_all ord" "has_worker a e" "entry_ok t e"
  shows "entry_ok t (RemoveBusyWorker ord a e) \<and> uuid (RemoveBusyWorker ord a e) = uuid e"
proof -
  have s: "set (ord (busy_workers e)) = set (busy_workers e)" using assms(1) by (metis set_mset_mset visits_all_def)
  obtain w where w: "find (\<lambda>w. GetAddress (w_address w) = GetAddress a) (ord (busy_workers e)) = Some w"
    using assms(2) s by (cases "find (\<lambda>w. GetAddress (w_address w) = GetAddress a) (ord (busy_workers e))") (auto simp: find_None_iff has_worker_def)
  then have wb: "w \<in> set (busy_workers e)" using s by (metis find_Some_iff nth_mem)
  let ?f = "\<lambda>w. unat (used_memory w)"
  have sm: "sum_list (map ?f (busy_workers e)) = ?f w + sum_list (map ?f (remove1 w (busy_workers e)))" using wb by (rule sum_list_map_remove1)
  have l: "length (busy_workers e) = Suc (length (remove1 w (busy_workers e)))" using wb by (metis One_nat_def Suc_pred length_pos_if_in_set length_remove1)
  have "unat (free_memory e) + ?f w < 2 ^ 64" using assms(3) sm by (simp add: entry_ok_def)
  then have "unat (free_memory e + used_memory w) = unat (free_memory e) + ?f w" by (subst unat_word_ariths) simp
  then show ?thesis using assms(3) sm l w by (simp add: entry_ok_def RemoveBusyWorker_def Remove_worker_def ReleaseMemory_def)
qed

lemma RemoveBusyWorker_unknown:
  assumes "visits_all ord" "\<not> has_worker a e"
  shows "RemoveBusyWorker ord a e = e\<lparr>worker_counter := worker_counter e - 1\<rparr>"
proof -
  have s: "set (ord (busy_workers e)) = set (busy_workers e)" using assms(1) by (metis set_mset_mset visits_all_def)
  then have "find (\<lambda>w. GetAddress (w_address w) = GetAddress a) (ord (busy_workers e)) = None"
    using assms(2) by (auto simp: find_None_iff has_worker_def)
  then show ?thesis by (simp add: RemoveBusyWorker_def Remove_worker_def ReleaseMemory_def)
qed

text \<open>Every named GPU is in the list and runs the worker.\<close>

definition runs_on :: "server_address \<Rightarrow> string list \<Rightarrow> nat list \<Rightarrow> gpu_heap \<Rightarrow> bool" where
  "runs_on a us l h \<longleftrightarrow> (\<forall>u \<in> set us. case FindEntryByUuid u h l of None \<Rightarrow> False | Some e \<Rightarrow> has_worker a (h ! e))"

lemma FindEntryByUuid_Some: "FindEntryByUuid u h l = Some e \<Longrightarrow> e \<in> set l \<and> uuid (h ! e) = u"
  by (auto simp: FindEntryByUuid_def find_Some_iff)

lemma FindEntryByUuid_update: "uuid x = uuid (h ! e) \<Longrightarrow> FindEntryByUuid u (h[e := x]) l = FindEntryByUuid u h l"
proof -
  assume u: "uuid x = uuid (h ! e)"
  have "uuid (h[e := x] ! i) = uuid (h ! i)" for i using u by (cases "e < length h"; cases "i = e") (simp_all add: list_update_beyond)
  then show ?thesis by (simp add: FindEntryByUuid_def)
qed

lemma remove_busy_all_ok:
  assumes "visits_all ord" "\<forall>i \<in> set l. i < length h" "heap_ok tot h" "runs_on a us l h" "distinct us"
  shows "\<exists>h'. remove_busy_all ord a us l h = Inr h' \<and> heap_ok tot h' \<and> length h' = length h"
  using assms(2-5)
proof (induction us arbitrary: h)
  case (Cons u us)
  from Cons.prems(3) obtain e where e: "FindEntryByUuid u h l = Some e" "has_worker a (h ! e)"
    by (auto simp: runs_on_def split: option.splits)
  have el: "e < length h" "uuid (h ! e) = u" using FindEntryByUuid_Some [OF e(1)] Cons.prems(1) by auto
  let ?x = "RemoveBusyWorker ord a (h ! e)"
  have x: "entry_ok (tot ! e) ?x" "uuid ?x = uuid (h ! e)"
    using RemoveBusyWorker_ok [OF assms(1) e(2), of "tot ! e"] Cons.prems(2) el(1) by (auto simp: heap_ok_def list_all2_conv_all_nth)
  have ok: "heap_ok tot (h[e := ?x])" using Cons.prems(2) x(1) el(1) by (auto simp: heap_ok_def list_all2_conv_all_nth nth_list_update)
  have "runs_on a us l (h[e := ?x])" unfolding runs_on_def FindEntryByUuid_update [OF x(2)]
  proof
    fix v assume v: "v \<in> set us"
    then obtain i where i: "FindEntryByUuid v h l = Some i" "has_worker a (h ! i)"
      using Cons.prems(3) by (auto simp: runs_on_def split: option.splits)
    have "i \<noteq> e" using FindEntryByUuid_Some [OF i(1)] el(2) v Cons.prems(4) by auto
    then show "case FindEntryByUuid v h l of None \<Rightarrow> False | Some i \<Rightarrow> has_worker a (h[e := ?x] ! i)" using i by simp
  qed
  then show ?case using Cons.IH [OF _ ok] Cons.prems(1,4) e(1) by simp
qed simp

text \<open>The notification that a worker has ended, naming GPUs that run it, succeeds and keeps the accounting: each GPU
  gets back exactly the memory of the worker and counts one worker less.\<close>

theorem exit_reclaims_memory:
  assumes "visits_all ord" "manager_ok tot m" "ServerAddress_parse address = Inr a" "FindDaemonByIp (ip a) m = Some d"
    "us \<noteq> []" "distinct us" "runs_on a us (gpus (daemons m ! d)) (entries m)"
  shows "\<exists>m'. NotifyWorkerExit ord (Some address) (Some us) m = Inr (Ok_status (), m') \<and> manager_ok tot m' \<and> daemons m' = daemons m"
proof -
  have "d < length (daemons m)" using assms(4) by (auto simp: FindDaemonByIp_def find_Some_iff)
  then have b: "\<forall>i \<in> set (gpus (daemons m ! d)). i < length (entries m)" using assms(2) nth_mem unfolding manager_ok_def lists_ok_def by blast
  have ho: "heap_ok tot (entries m)" using assms(2) by (simp add: manager_ok_def)
  obtain h' where "remove_busy_all ord a us (gpus (daemons m ! d)) (entries m) = Inr h'" "heap_ok tot h'" "length h' = length (entries m)"
    using remove_busy_all_ok [OF assms(1) b ho assms(7,6)] by blast
  then show ?thesis using assms by (simp add: NotifyWorkerExit_def deref_def manager_ok_def lists_ok_def)
qed

definition busy_gpu :: "string \<Rightarrow> u64 \<Rightarrow> int \<Rightarrow> u64 \<Rightarrow> gpu_entry" where
  "busy_gpu u f p g = \<lparr>uuid = u, free_memory = f, idle_workers = [], busy_workers = [\<lparr>w_address = \<lparr>ip = ''h'', port = p\<rparr>, used_memory = g\<rparr>],
     worker_counter = 1, e_list = 0\<rparr>"

definition two_busy :: manager where
  "two_busy = two_gpus\<lparr>entries := [busy_gpu ''A'' 8 2 1, busy_gpu ''B'' 5 3 4]\<rparr>"

lemma parse_h3: "ServerAddress_parse ''h:3'' = Inr \<lparr>ip = ''h'', port = 3\<rparr>"
  by code_simp

lemmas busy_simps = two_busy_def two_gpus_def busy_gpu_def FindDaemonByIp_def FindEntryByUuid_def

theorem exit_reclaims_memory_witness:
  "\<exists>m'. NotifyWorkerExit (\<lambda>ws. ws) (Some ''h:3'') (Some [''B'']) two_busy = Inr (Ok_status (), m') \<and> manager_ok [9, 9] m'"
  using exit_reclaims_memory [of "\<lambda>ws. ws" "[9, 9]" two_busy "''h:3''" "\<lparr>ip = ''h'', port = 3\<rparr>" 0 "[''B'']"]
  by (auto simp: parse_h3 visits_all_def busy_simps manager_ok_def heap_ok_def lists_ok_def entry_ok_def runs_on_def has_worker_def)

text \<open>The notification does not sort the list again. A list that was sorted is out of order afterwards, and the next request goes
  to a GPU with a running worker although a GPU without workers has enough memory.\<close>

theorem exit_leaves_stale_order:
  "\<exists>m m'. sorted_wrt (\<lambda>i j. \<not> entry_less (entries m ! j) (entries m ! i)) (gpus (daemons m ! 0)) \<and>
     NotifyWorkerExit (\<lambda>ws. ws) (Some ''h:3'') (Some [''B'']) m = Inr (Ok_status (), m') \<and>
     \<not> sorted_wrt (\<lambda>i j. \<not> entry_less (entries m' ! j) (entries m' ! i)) (gpus (daemons m' ! 0)) \<and>
     fst (FindEntryAndReserveMemory key_sort 4 (entries m', gpus (daemons m' ! 0))) = Some 0 \<and>
     worker_counter (entries m' ! 0) = 1 \<and> worker_counter (entries m' ! 1) = 0 \<and> 4 \<le> free_memory (entries m' ! 1)"
proof -
  have g: "GetAddress \<lparr>ip = ''h'', port = 3\<rparr> = ''h:3''" by code_simp
  let ?m' = "two_busy\<lparr>entries := [busy_gpu ''A'' 8 2 1, (busy_gpu ''B'' 9 3 4)\<lparr>busy_workers := [], worker_counter := 0\<rparr>]\<rparr>"
  have n: "NotifyWorkerExit (\<lambda>ws. ws) (Some ''h:3'') (Some [''B'']) two_busy = Inr (Ok_status (), ?m')"
    by (simp add: NotifyWorkerExit_def deref_def parse_h3 busy_simps RemoveBusyWorker_def Remove_worker_def ReleaseMemory_def g)
  show ?thesis
    by (rule exI [of _ two_busy], rule exI [of _ ?m'], simp add: n)
      (simp add: busy_simps entry_less_def FindEntryAndReserveMemory_def Let_def)
qed

section \<open>Assignment and exit together\<close>

text \<open>The entry without the worker: all its memory is free again. \<open>workers_of\<close> counts the records of the worker, one for each of its requests that
  the GPU serves.\<close>

definition is_worker :: "server_address \<Rightarrow> worker_info \<Rightarrow> bool" where
  "is_worker a w \<longleftrightarrow> GetAddress (w_address w) = GetAddress a"

definition workers_of :: "server_address \<Rightarrow> gpu_entry \<Rightarrow> nat" where
  "workers_of a e = length (filter (is_worker a) (busy_workers e))"

definition clear_worker :: "server_address \<Rightarrow> gpu_entry \<Rightarrow> gpu_entry" where
  "clear_worker a e = e\<lparr>free_memory := free_memory e + sum_list (map used_memory (filter (is_worker a) (busy_workers e))),
     busy_workers := filter (\<lambda>w. \<not> is_worker a w) (busy_workers e), worker_counter := worker_counter e - int (workers_of a e)\<rparr>"

lemma workers_of_0: "workers_of a e = 0 \<longleftrightarrow> \<not> has_worker a e"
  by (auto simp: workers_of_def has_worker_def is_worker_def filter_empty_conv)

lemma clear_worker_none: "workers_of a e = 0 \<Longrightarrow> clear_worker a e = e"
proof -
  assume n: "workers_of a e = 0"
  then have f: "filter (is_worker a) (busy_workers e) = []" by (simp add: workers_of_def)
  then have "filter (\<lambda>w. \<not> is_worker a w) (busy_workers e) = busy_workers e" by (simp add: filter_empty_conv filter_id_conv)
  with f n show ?thesis by (simp add: clear_worker_def)
qed

lemma RemoveBusyWorker_clear:
  assumes "visits_all ord" "has_worker a e"
  shows "clear_worker a (RemoveBusyWorker ord a e) = clear_worker a e" "workers_of a e = Suc (workers_of a (RemoveBusyWorker ord a e))"
    "uuid (RemoveBusyWorker ord a e) = uuid e"
proof -
  have s: "set (ord (busy_workers e)) = set (busy_workers e)" using assms(1) by (metis set_mset_mset visits_all_def)
  obtain w where w: "find (is_worker a) (ord (busy_workers e)) = Some w"
    using assms(2) s by (cases "find (is_worker a) (ord (busy_workers e))") (auto simp: find_None_iff has_worker_def is_worker_def)
  then have wb: "w \<in> set (busy_workers e)" "is_worker a w" using s by (metis find_Some_iff nth_mem)+
  let ?mine = "filter (is_worker a) (busy_workers e)"
  have m: "w \<in> set ?mine" using wb by simp
  have r: "RemoveBusyWorker ord a e = e\<lparr>busy_workers := remove1 w (busy_workers e), free_memory := free_memory e + used_memory w, worker_counter := worker_counter e - 1\<rparr>"
    using w unfolding is_worker_def [abs_def] by (simp add: RemoveBusyWorker_def Remove_worker_def ReleaseMemory_def)
  have sm: "sum_list (map used_memory ?mine) = used_memory w + sum_list (map used_memory (remove1 w ?mine))" using m by (rule sum_list_map_remove1)
  have len: "length ?mine = Suc (length (remove1 w ?mine))" using m by (metis One_nat_def Suc_pred length_pos_if_in_set length_remove1)
  have fo: "remove1 w (filter (\<lambda>v. \<not> is_worker a v) (busy_workers e)) = filter (\<lambda>v. \<not> is_worker a v) (busy_workers e)"
    using wb(2) by (simp add: remove1_filter_not)
  show "workers_of a e = Suc (workers_of a (RemoveBusyWorker ord a e))" "uuid (RemoveBusyWorker ord a e) = uuid e"
    using len by (simp_all add: workers_of_def r filter_remove1)
  show "clear_worker a (RemoveBusyWorker ord a e) = clear_worker a e"
    using sm len by (simp add: clear_worker_def workers_of_def r fo filter_remove1 add.assoc diff_diff_eq)
qed

lemma clear_assigned:
  assumes "i < length h" "workers_of a (h ! i) = 0"
  shows "clear_worker a (add_busy_all a as (reserve_all as h) ! i) = h ! i" "workers_of a (add_busy_all a as (reserve_all as h) ! i) = length (shares i as)"
proof -
  let ?new = "rev (map (\<lambda>g. \<lparr>w_address = a, used_memory = g\<rparr>) (shares i as))"
  have n: "filter (is_worker a) ?new = ?new" "filter (\<lambda>w. \<not> is_worker a w) ?new = []" by (auto simp: is_worker_def filter_id_conv filter_empty_conv)
  have f: "filter (is_worker a) (busy_workers (h ! i)) = []" using assms(2) by (simp add: workers_of_def)
  then have o: "filter (\<lambda>w. \<not> is_worker a w) (busy_workers (h ! i)) = busy_workers (h ! i)" by (simp add: filter_empty_conv filter_id_conv)
  have m: "map used_memory ?new = rev (shares i as)" by (simp add: rev_map o_def)
  show "workers_of a (add_busy_all a as (reserve_all as h) ! i) = length (shares i as)"
    using assms(1) n f by (simp add: workers_of_def add_busy_all_nth reserve_all_nth)
  then show "clear_worker a (add_busy_all a as (reserve_all as h) ! i) = h ! i"
    using assms(1) n f o m by (simp add: clear_worker_def add_busy_all_nth reserve_all_nth)
qed

lemma remove_busy_all_clear:
  assumes "visits_all ord" "inj_on (\<lambda>i. uuid (h ! i)) (set l)" "\<forall>i \<in> set l. i < length h"
    "\<forall>i \<in> set l. workers_of a (h ! i) = count_list us (uuid (h ! i))" "set us \<subseteq> (\<lambda>i. uuid (h ! i)) ` set l"
  shows "\<exists>h'. remove_busy_all ord a us l h = Inr h' \<and> length h' = length h \<and>
    (\<forall>i < length h. h' ! i = (if i \<in> set l then clear_worker a (h ! i) else h ! i))"
  using assms(2-5)
proof (induction us arbitrary: h)
  case Nil
  then show ?case by (simp add: clear_worker_none)
next
  case (Cons u us)
  have "\<exists>i. i \<in> set l \<and> uuid (h ! i) = u" using Cons.prems(4) by auto
  then obtain e where e: "FindEntryByUuid u h l = Some e"
    by (cases "FindEntryByUuid u h l") (auto simp: FindEntryByUuid_def find_None_iff)
  then have el: "e \<in> set l" "uuid (h ! e) = u" "e < length h" using FindEntryByUuid_Some Cons.prems(2) by auto
  then have "has_worker a (h ! e)" using Cons.prems(3) workers_of_0 [of a "h ! e"] by auto
  note r = RemoveBusyWorker_clear [OF assms(1) this]
  let ?h = "h[e := RemoveBusyWorker ord a (h ! e)]"
  have u: "uuid (?h ! i) = uuid (h ! i)" "clear_worker a (?h ! i) = clear_worker a (h ! i)" for i
    using r el(3) by (cases "i = e"; simp)+
  have c: "workers_of a (?h ! i) = count_list us (uuid (?h ! i))" if "i \<in> set l" for i
    using Cons.prems(1,3) that el r(2,3) by (cases "i = e") (auto simp: inj_on_def u)
  have "\<exists>h'. remove_busy_all ord a us l ?h = Inr h' \<and> length h' = length ?h \<and>
    (\<forall>i < length ?h. h' ! i = (if i \<in> set l then clear_worker a (?h ! i) else ?h ! i))"
    using Cons.prems c by (intro Cons.IH) (simp_all add: u)
  moreover have "?h ! i = h ! i" if "i \<notin> set l" for i using that el(1) by (cases "i = e") simp_all
  ultimately show ?case using e by (auto simp: u)
qed

lemma count_list_map: "count_list (map f xs) y = length (filter (\<lambda>x. f x = y) xs)"
  by (induction xs) auto

lemma mset_count_list: "mset xs = mset ys \<Longrightarrow> count_list xs y = count_list ys y"
  by (metis count_mset)

lemma mset_zip_snd:
  "length xs = length ys \<Longrightarrow> length xs' = length ys' \<Longrightarrow> mset (zip xs ys) = mset (zip xs' ys') \<Longrightarrow> mset ys = mset ys'"
  by (metis map_snd_zip mset_map)

lemma restored_counts:
  assumes "map snd as = rev (sort gpu_mem)" "inj_on (\<lambda>i. uuid (h ! i)) (set l)" "fst ` set as \<subseteq> set l"
    "us = restore_uuids gpu_mem (rev (sort gpu_mem)) (map (\<lambda>(e, g). uuid (h ! e)) as)"
  shows "length us = length gpu_mem" "set us \<subseteq> (\<lambda>i. uuid (h ! i)) ` set l"
    "i \<in> set l \<Longrightarrow> count_list us (uuid (h ! i)) = length (shares i as)"
proof -
  let ?all = "map (\<lambda>(e, g). uuid (h ! e)) as"
  have la: "length as = length gpu_mem" using arg_cong [OF assms(1), of length] by simp
  then have mz: "mset (zip gpu_mem us) = mset (zip (rev (sort gpu_mem)) ?all) \<and> length us = length gpu_mem"
    unfolding assms(4) by (intro restore_uuids_mset) simp_all
  then show "length us = length gpu_mem" ..
  have mu: "mset us = mset ?all" using mz la by (intro mset_zip_snd [of gpu_mem us "rev (sort gpu_mem)"]) simp_all
  have "set ?all = (\<lambda>i. uuid (h ! i)) ` fst ` set as" by (auto simp: image_image case_prod_beta)
  then show "set us \<subseteq> (\<lambda>i. uuid (h ! i)) ` set l" using mset_eq_setD [OF mu] assms(3) by blast
  show "count_list us (uuid (h ! i)) = length (shares i as)" if "i \<in> set l"
  proof -
    have "filter (\<lambda>x. (case x of (e, g) \<Rightarrow> uuid (h ! e)) = uuid (h ! i)) as = filter (\<lambda>a. fst a = i) as"
    proof (rule filter_cong [OF refl])
      fix x assume "x \<in> set as"
      then have "fst x \<in> set l" using assms(3) by blast
      then show "((case x of (e, g) \<Rightarrow> uuid (h ! e)) = uuid (h ! i)) = (fst x = i)" using inj_onD [OF assms(2) _ _ that, of "fst x"]
        by (auto simp: case_prod_beta)
    qed
    then show ?thesis by (simp only: mset_count_list [OF mu] count_list_map shares_def length_map)
  qed
qed

lemma exit_undoes:
  assumes "visits_all ord" "inj_on (\<lambda>i. uuid (h ! i)) (set l)" "\<forall>i \<in> set l. i < length h" "\<forall>i < length h. workers_of a (h ! i) = 0"
    "fst ` set as \<subseteq> set l" "set us \<subseteq> (\<lambda>i. uuid (h ! i)) ` set l" "\<And>i. i \<in> set l \<Longrightarrow> count_list us (uuid (h ! i)) = length (shares i as)"
  shows "remove_busy_all ord a us l (add_busy_all a as (reserve_all as h)) = Inr h"
proof -
  let ?h = "add_busy_all a as (reserve_all as h)"
  have uu: "uuid (?h ! i) = uuid (h ! i)" if "i < length h" for i using that by (simp add: add_busy_all_nth reserve_all_nth)
  have b: "i < length h" if "i \<in> set l" for i using assms(3) that by blast
  have "inj_on (\<lambda>i. uuid (?h ! i)) (set l)" using assms(2) by (simp add: inj_on_cong [OF uu [OF b]])
  moreover have "set us \<subseteq> (\<lambda>i. uuid (?h ! i)) ` set l" using assms(6) by (simp add: image_cong [OF refl uu [OF b]])
  moreover have "workers_of a (?h ! i) = count_list us (uuid (?h ! i))" if "i \<in> set l" for i
    using clear_assigned(2) [OF b [OF that]] assms(4) b [OF that] by (simp add: uu assms(7) [OF that])
  ultimately obtain h' where h': "remove_busy_all ord a us l ?h = Inr h'" "length h' = length h"
      "\<forall>i < length h. h' ! i = (if i \<in> set l then clear_worker a (?h ! i) else ?h ! i)"
    using remove_busy_all_clear [OF assms(1), of ?h l a us] b by auto
  have "h' = h"
  proof (rule nth_equalityI)
    fix i assume "i < length h'"
    then have i: "i < length h" using h'(2) by simp
    have "shares i as = []" if "i \<notin> set l" using that assms(5) by (auto simp: shares_def filter_empty_conv)
    then have "?h ! i = h ! i" if "i \<notin> set l" using that i by (simp add: add_busy_all_nth reserve_all_nth)
    then show "h' ! i = h ! i" using h'(3) i clear_assigned(1) [OF i] assms(4) by simp
  qed (rule h'(2))
  with h'(1) show ?thesis by simp
qed

text \<open>When the worker ends, every GPU is as before the assignment. \<open>us\<close> are the UUIDs that the daemon got for the worker: a GPU that serves several
  requests is named several times.\<close>

lemma assign_then_exit:
  assumes "std_sort srt" "visits_all ord" "lists_ok m" "DoAssignWorker srt shut stub gpu_mem m = Inr (ws, m')" "ws \<noteq> []"
    "\<forall>d \<in> set (daemons m). inj_on (\<lambda>i. uuid (entries m ! i)) (set (gpus d))" "\<forall>e \<in> set (entries m). \<not> has_worker (ws ! 0) e"
  obtains d us where "d < length (daemons m)" "\<not> shut d" "SpawnWorker (stub d us gpu_mem) = Inr ws" "length us = length gpu_mem"
    "set us \<subseteq> (\<lambda>i. uuid (entries m ! i)) ` set (gpus (daemons m ! d))" "same_daemons m m'"
    "remove_busy_all ord (ws ! 0) us (gpus (daemons m' ! d)) (entries m') = Inr (entries m)"
  using DoAssignWorker_success [OF assms(1,3-5)]
proof cases
  case (1 d as)
  let ?us = "restore_uuids gpu_mem (rev (sort gpu_mem)) (map (\<lambda>(e, g). uuid (entries m ! e)) as)" and ?l = "gpus (daemons m' ! d)"
  have sl: "set ?l = set (gpus (daemons m ! d))" using same_daemonsD(3) [OF 1(8,1)] .
  have dm: "daemons m ! d \<in> set (daemons m)" using 1(1) by simp
  have b: "\<forall>i \<in> set ?l. i < length (entries m)" using assms(3) dm unfolding sl lists_ok_def by (rule bspec)
  have inj: "inj_on (\<lambda>i. uuid (entries m ! i)) (set ?l)" using assms(6) dm unfolding sl by (rule bspec)
  note c = restored_counts [OF 1(3) inj 1(4) refl]
  have "\<forall>i < length (entries m). workers_of (ws ! 0) (entries m ! i) = 0" using assms(7) by (simp add: workers_of_0)
  then have "remove_busy_all ord (ws ! 0) ?us ?l (entries m') = Inr (entries m)" unfolding 1(6)
    by (intro exit_undoes [OF assms(2) inj b _ 1(4) c(2,3)])
  then show thesis using 1(1,2,8,9) c(1) c(2) [unfolded sl] by (intro that [of d ?us])
qed

end
