(* ===== verification/Guest_Driver.thy ===== *)
theory Guest_Driver
  imports Zero_Copy
begin

text \<open>
  The guest driver of the virtual transport device (\<open>guestdrv/vgpu_ldd.c\<close>): probing of the BARs, loading and unloading of the module
  with its unwinding, and the \<open>open\<close>, \<open>mmap\<close> and \<open>ioctl\<close> entry points that partition the shared memory among applications. What
  the kernel answers is a parameter; spin lock and mutexes make each entry point one step.
\<close>

section \<open>State\<close>

definition AVA_GUEST_SHM_SIZE :: u64 where "AVA_GUEST_SHM_SIZE = 512 * 1024 * 1024"
definition NEG_EBUSY :: int where "NEG_EBUSY = - 16"
definition NEG_ENODEV :: int where "NEG_ENODEV = - 19"
definition VGPU_DRIVER_MINOR :: nat where "VGPU_DRIVER_MINOR = 0"

record mem_region =
  base_addr :: pointer
  bar_start :: u64
  bar_len :: u64
  bar_cur_offset :: u64

datatype alloc_type = ALLOC_TYPE_UNSPEC | ALLOC_TYPE_SHM | ALLOC_TYPE_ZCOPY

record app_info =
  app_alloc_type :: alloc_type
  free_pblock_offset :: u64
  pblock_size :: u64

text \<open>The three pointers of \<open>struct vgpu_dev\<close> are null or point to the static BAR of the same name. The second group of fields holds
  what the module has obtained from the kernel.\<close>

record vgpu_dev =
  dev_vm_id :: int
  has_reg :: bool
  has_shm :: bool
  has_zcopy :: bool
  bar_reg :: mem_region
  bar_shm :: mem_region
  bar_zcopy :: mem_region

record kernel_held =
  pci_enabled :: bool
  regions_requested :: bool
  iomapped :: "pointer list"
  chrdev_region :: bool
  cdev_added :: bool
  class_created :: bool
  device_created :: bool
  driver_registered :: bool

definition bar_zero :: mem_region where
  "bar_zero = \<lparr>base_addr = null_ptr, bar_start = 0, bar_len = 0, bar_cur_offset = 0\<rparr>"

definition vgpu_dev_zero :: vgpu_dev where
  "vgpu_dev_zero = \<lparr>dev_vm_id = 0, has_reg = False, has_shm = False, has_zcopy = False, bar_reg = bar_zero, bar_shm = bar_zero, bar_zcopy = bar_zero\<rparr>"

definition nothing_held :: kernel_held where
  "nothing_held = \<lparr>pci_enabled = False, regions_requested = False, iomapped = [], chrdev_region = False, cdev_added = False,
     class_created = False, device_created = False, driver_registered = False\<rparr>"

section \<open>Probing\<close>

text \<open>Start, length and mapped address of a BAR.\<close>

type_synonym bar_answer = "u64 \<times> u64 \<times> pointer"

record pci_answers =
  ans_enable :: int
  ans_regions :: int
  ans_bar2 :: bar_answer
  ans_bar4 :: bar_answer
  ans_bar5 :: bar_answer
  ans_zero_copy :: u8

definition vgpu_bar_probe :: "bar_answer \<Rightarrow> mem_region \<Rightarrow> kernel_held \<Rightarrow> int \<times> mem_region \<times> kernel_held" where
  "vgpu_bar_probe ans bar k =
     (let (start, len, addr) = ans;
          bar = bar\<lparr>bar_start := start, bar_len := len, base_addr := addr\<rparr>
      in if addr = null_ptr then (NEG_EBUSY, bar, k)
         else (0, bar\<lparr>bar_cur_offset := 0\<rparr>, k\<lparr>iomapped := addr # iomapped k\<rparr>))"

definition pci_disable :: "vgpu_dev \<Rightarrow> kernel_held \<Rightarrow> int \<times> vgpu_dev \<times> kernel_held" where
  "pci_disable v k = (NEG_EBUSY, v, k\<lparr>pci_enabled := False\<rparr>)"

definition pci_release :: "vgpu_dev \<Rightarrow> kernel_held \<Rightarrow> int \<times> vgpu_dev \<times> kernel_held" where
  "pci_release v k = pci_disable v (k\<lparr>regions_requested := False\<rparr>)"

definition vgpu_probe :: "pci_answers \<Rightarrow> vgpu_dev \<Rightarrow> kernel_held \<Rightarrow> int \<times> vgpu_dev \<times> kernel_held" where
  "vgpu_probe ans v k =
     (if ans_enable ans \<noteq> 0 then (ans_enable ans, v, k)
      else let k = k\<lparr>pci_enabled := True\<rparr>
           in if ans_regions ans < 0 then pci_disable v k
              else let k = k\<lparr>regions_requested := True\<rparr>; (r, b, k) = vgpu_bar_probe (ans_bar2 ans) (bar_reg v) k; v = v\<lparr>has_reg := True, bar_reg := b\<rparr>
                   in if r < 0 then pci_release v k
                      else let (r, b, k) = vgpu_bar_probe (ans_bar4 ans) (bar_shm v) k; v = v\<lparr>has_shm := True, bar_shm := b\<rparr>
                           in if r < 0 then pci_release v k
                              else if ans_zero_copy ans \<noteq> 0
                              then let (r, b, k) = vgpu_bar_probe (ans_bar5 ans) (bar_zcopy v) k; v = v\<lparr>has_zcopy := True, bar_zcopy := b\<rparr>
                                   in if r < 0 then pci_release v k else (0, v, k)
                              else (0, v\<lparr>has_zcopy := False\<rparr>, k))"

definition vgpu_remove :: "vgpu_dev \<Rightarrow> kernel_held \<Rightarrow> kernel_held" where
  "vgpu_remove v k = k\<lparr>iomapped := remove1 (base_addr (bar_reg v)) (iomapped k), regions_requested := False, pci_enabled := False\<rparr>"

section \<open>Loading and unloading\<close>






text \<open>An access to a register through a null pointer or an unmapped BAR.\<close>

definition reg_access :: "vgpu_dev \<Rightarrow> unit res" where
  "reg_access v = (if \<not> has_reg v \<or> base_addr (bar_reg v) = null_ptr then Inl NullDeref else Inr ())"


definition vgpu_fini :: "bool \<Rightarrow> vgpu_dev \<Rightarrow> kernel_held \<Rightarrow> kernel_held res" where
  "vgpu_fini bound v k =
     rbind (reg_access v) (\<lambda>_.
     let k = (if bound then vgpu_remove v k else k)
     in Inr (k\<lparr>driver_registered := False, device_created := False, class_created := False, cdev_added := False, chrdev_region := False\<rparr>))"

section \<open>Entry points\<close>

text \<open>\<open>None\<close> is the null pointer in \<open>private_data\<close>.\<close>

definition vgpu_open :: "nat \<Rightarrow> bool \<Rightarrow> int \<times> app_info option" where
  "vgpu_open minor kzalloc_ok =
     (if minor \<noteq> VGPU_DRIVER_MINOR then (NEG_ENODEV, None)
      else (0, if kzalloc_ok then Some \<lparr>app_alloc_type = ALLOC_TYPE_UNSPEC, free_pblock_offset = 0, pblock_size = 0\<rparr> else None))"

record vm_area =
  vm_start :: u64
  vm_end :: u64
  vm_pgoff :: u64

text \<open>The mapping is the first page frame and the length. \<open>remap\<close> is the answer of \<open>io_remap_pfn_range\<close>.\<close>

definition vgpu_mmap :: "int \<Rightarrow> vm_area \<Rightarrow> vgpu_dev \<Rightarrow> app_info option \<Rightarrow> (int \<times> app_info option \<times> (u64 \<times> u64) option) res" where
  "vgpu_mmap remap vma v app =
     (case app of
        None \<Rightarrow> Inl NullDeref
      | Some a \<Rightarrow>
          let offset = push_bit 12 (vm_pgoff vma); len = vm_end vma - vm_start vma;
              finish = (\<lambda>offset a. if remap \<noteq> 0 then Inr (NEG_EAGAIN, Some a, None) else Inr (0, Some a, Some (drop_bit 12 offset, len)))
          in (case app_alloc_type a of
                ALLOC_TYPE_SHM \<Rightarrow>
                  if pblock_size a \<noteq> len then Inr (NEG_EAGAIN, app, None)
                  else if \<not> has_shm v then Inl NullDeref
                  else finish (offset + (bar_start (bar_shm v) + free_pblock_offset a)) (a\<lparr>app_alloc_type := ALLOC_TYPE_UNSPEC\<rparr>)
              | ALLOC_TYPE_ZCOPY \<Rightarrow>
                  if \<not> has_zcopy v then Inr (NEG_ENODEV, app, None)
                  else if bar_len (bar_zcopy v) \<noteq> len then Inr (NEG_EAGAIN, app, None)
                  else finish (offset + bar_start (bar_zcopy v)) (a\<lparr>app_alloc_type := ALLOC_TYPE_UNSPEC\<rparr>)
              | ALLOC_TYPE_UNSPEC \<Rightarrow> Inr (NEG_EINVAL, app, None)))"

datatype ioctl_cmd = IOCTL_REQUEST_SHM | IOCTL_GET_VM_ID | IOCTL_REQUEST_ZCOPY | IOCTL_GET_ZCOPY_PHY_ADDR | Other_ioctl

text \<open>The result is an \<open>int\<close>: the offset is cut to 32 bits. The last component is what is copied to the caller.\<close>

definition int32 :: "u64 \<Rightarrow> int" where
  "int32 x = sint (ucast x :: 32 word)"

definition request_shm :: "u64 \<Rightarrow> vgpu_dev \<Rightarrow> app_info \<Rightarrow> int \<times> app_info \<times> vgpu_dev" where
  "request_shm arg v a =
     (let cur = bar_cur_offset (bar_shm v);
          v' = v\<lparr>bar_shm := (bar_shm v)\<lparr>bar_cur_offset := cur + arg\<rparr>\<rparr>
      in if cur + arg > AVA_GUEST_SHM_SIZE then (0, a\<lparr>free_pblock_offset := 0, pblock_size := arg\<rparr>, v')
         else (int32 cur, a\<lparr>free_pblock_offset := cur, pblock_size := arg\<rparr>, v'))"

definition vgpu_ioctl ::
  "u64 \<Rightarrow> ioctl_cmd \<Rightarrow> u64 \<Rightarrow> app_info option \<Rightarrow> vgpu_dev \<Rightarrow> (int \<times> app_info option \<times> vgpu_dev \<times> u64 option) res" where
  "vgpu_ioctl zcopy_phys cmd arg app v =
     (case cmd of
        IOCTL_REQUEST_SHM \<Rightarrow>
          (case app of
             None \<Rightarrow> Inl NullDeref
           | Some a \<Rightarrow>
               if \<not> has_shm v then Inl NullDeref
               else case request_shm arg v (a\<lparr>app_alloc_type := ALLOC_TYPE_SHM\<rparr>) of (r, a, v) \<Rightarrow> Inr (r, Some a, v, None))
      | IOCTL_GET_VM_ID \<Rightarrow> Inr (dev_vm_id v, app, v, None)
      | IOCTL_REQUEST_ZCOPY \<Rightarrow>
          (case app of None \<Rightarrow> Inl NullDeref | Some a \<Rightarrow> Inr (0, Some (a\<lparr>app_alloc_type := ALLOC_TYPE_ZCOPY\<rparr>), v, None))
      | IOCTL_GET_ZCOPY_PHY_ADDR \<Rightarrow>
          if \<not> has_zcopy v then Inr (NEG_ENOMEM, app, v, None)
          else rbind (reg_access v) (\<lambda>_. Inr (0, app, v, Some zcopy_phys))
      | Other_ioctl \<Rightarrow> Inr (NEG_EINVAL, app, v, None))"

section \<open>The partition of the shared memory\<close>

text \<open>Applications that open the device, request a block and map it, in a row; the answers are the reported offsets and the mappings.\<close>

definition map_app :: "u64 \<Rightarrow> vgpu_dev \<Rightarrow> ((int \<times> u64 \<times> u64) option \<times> vgpu_dev) res" where
  "map_app sz v =
     rbind (vgpu_ioctl 0 IOCTL_REQUEST_SHM sz (snd (vgpu_open VGPU_DRIVER_MINOR True)) v) (\<lambda>(r, app, v, _).
     rbind (vgpu_mmap 0 \<lparr>vm_start = 0, vm_end = sz, vm_pgoff = 0\<rparr> v app) (\<lambda>(_, _, mp).
     Inr (map_option (\<lambda>m. (r, m)) mp, v)))"

fun map_apps :: "u64 list \<Rightarrow> vgpu_dev \<Rightarrow> ((int \<times> u64 \<times> u64) option list \<times> vgpu_dev) res" where
  "map_apps [] v = Inr ([], v)"
| "map_apps (sz # szs) v = rbind (map_app sz v) (\<lambda>(m, v). rbind (map_apps szs v) (\<lambda>(ms, v). Inr (m # ms, v)))"

lemma map_app_eq:
  "has_shm v \<Longrightarrow> map_app sz v =
     (case request_shm sz v \<lparr>app_alloc_type = ALLOC_TYPE_SHM, free_pblock_offset = 0, pblock_size = 0\<rparr> of
        (r, a, v') \<Rightarrow> Inr (Some (r, drop_bit 12 (bar_start (bar_shm v) + free_pblock_offset a), sz), v'))"
  by (simp add: map_app_def vgpu_open_def vgpu_ioctl_def vgpu_mmap_def request_shm_def Let_def)

text \<open>The byte addresses of a mapping.\<close>

definition mapped_block :: "int \<times> u64 \<times> u64 \<Rightarrow> nat \<times> nat" where
  "mapped_block m = (unat (fst (snd m)) * 4096, unat (snd (snd m)))"

definition pages :: "u64 \<Rightarrow> bool" where
  "pages x \<longleftrightarrow> 4096 dvd unat x"

text \<open>The next block: the frame of its start, and the state after it.\<close>

lemma map_app_step:
  assumes "has_shm v" "pages (bar_start (bar_shm v))" "pages (bar_cur_offset (bar_shm v))"
    "unat (bar_start (bar_shm v)) + 2 ^ 29 < 2 ^ 64" "unat (bar_cur_offset (bar_shm v)) + unat sz \<le> 2 ^ 29"
  shows "\<exists>pf. map_app sz v = Inr (Some (int (unat (bar_cur_offset (bar_shm v))), pf, sz), v\<lparr>bar_shm := (bar_shm v)\<lparr>bar_cur_offset := bar_cur_offset (bar_shm v) + sz\<rparr>\<rparr>)
       \<and> unat pf * 4096 = unat (bar_start (bar_shm v)) + unat (bar_cur_offset (bar_shm v))"
    and "unat (bar_cur_offset (bar_shm v) + sz) = unat (bar_cur_offset (bar_shm v)) + unat sz"
proof -
  let ?c = "bar_cur_offset (bar_shm v)" and ?s = "bar_start (bar_shm v)"
  show u: "unat (?c + sz) = unat ?c + unat sz" using assms(5) by (intro unat_plus_small) simp
  then have fit: "\<not> ?c + sz > AVA_GUEST_SHM_SIZE" using assms(5) by (simp add: AVA_GUEST_SHM_SIZE_def word_less_nat_alt)
  have us: "unat (?s + ?c) = unat ?s + unat ?c" using assms(4,5) by (intro unat_plus_small) simp
  have "unat (drop_bit 12 (?s + ?c)) * 4096 = (unat ?s + unat ?c) div 4096 * 4096"
    by (simp add: unat_div us drop_bit_eq_div)
  also have "\<dots> = unat ?s + unat ?c" using assms(2,3) by (simp add: pages_def)
  finally have f: "unat (drop_bit 12 (?s + ?c)) * 4096 = unat ?s + unat ?c" .
  have "int (unat ?c) < int (2 ^ 31)" using assms(5) by (subst of_nat_less_iff) simp
  then have "uint ?c < 2 ^ 31" "- (2 ^ 31) \<le> uint ?c" using order_trans [of "- (2 ^ 31)" 0 "uint ?c"] by simp_all
  then have "int32 ?c = int (unat ?c)" by (simp add: int32_def signed_ucast_eq signed_take_bit_int_eq_self)
  then show "\<exists>pf. map_app sz v = Inr (Some (int (unat ?c), pf, sz), v\<lparr>bar_shm := (bar_shm v)\<lparr>bar_cur_offset := ?c + sz\<rparr>\<rparr>)
       \<and> unat pf * 4096 = unat ?s + unat ?c"
    using fit f assms(1) by (intro exI [of _ "drop_bit 12 (?s + ?c)"]) (simp add: map_app_eq request_shm_def Let_def)
qed

definition shm_ready :: "vgpu_dev \<Rightarrow> bool" where
  "shm_ready v \<longleftrightarrow> has_shm v \<and> pages (bar_start (bar_shm v)) \<and> pages (bar_cur_offset (bar_shm v)) \<and>
     unat (bar_start (bar_shm v)) + 2 ^ 29 < 2 ^ 64"

definition vgpu_take :: "vgpu_dev \<Rightarrow> u64 \<Rightarrow> (nat \<times> nat) option \<times> vgpu_dev" where
  "vgpu_take v sz = (case map_app sz v of Inl _ \<Rightarrow> (None, v) | Inr (m, v') \<Rightarrow> (map_option mapped_block m, v'))"

definition vgpu_ready :: "vgpu_dev \<Rightarrow> u64 list \<Rightarrow> bool" where
  "vgpu_ready v szs \<longleftrightarrow> shm_ready v \<and> (\<forall>sz \<in> set szs. pages sz) \<and> unat (bar_cur_offset (bar_shm v)) + sum_list (map unat szs) \<le> 2 ^ 29"

lemma map_app_ready:
  assumes "vgpu_ready v (sz # szs)"
  shows "\<exists>m v'. map_app sz v = Inr (Some m, v') \<and> v' = v\<lparr>bar_shm := (bar_shm v)\<lparr>bar_cur_offset := bar_cur_offset (bar_shm v) + sz\<rparr>\<rparr> \<and>
      mapped_block m = (unat (bar_start (bar_shm v)) + unat (bar_cur_offset (bar_shm v)), unat sz) \<and> snd (snd m) = sz \<and>
      fst m = int (unat (bar_cur_offset (bar_shm v))) \<and> vgpu_ready v' szs \<and>
      unat (bar_cur_offset (bar_shm v')) = unat (bar_cur_offset (bar_shm v)) + unat sz"
proof -
  have r: "has_shm v" "pages (bar_start (bar_shm v))" "pages (bar_cur_offset (bar_shm v))" "unat (bar_start (bar_shm v)) + 2 ^ 29 < 2 ^ 64"
    "unat (bar_cur_offset (bar_shm v)) + unat sz \<le> 2 ^ 29" using assms by (simp_all add: vgpu_ready_def shm_ready_def)
  note st = map_app_step [OF r]
  from st(1) show ?thesis using assms st(2) by (elim exE conjE) (simp add: mapped_block_def vgpu_ready_def shm_ready_def pages_def)
qed

interpretation shm_bar: bump_allocator vgpu_take "\<lambda>v. unat (bar_start (bar_shm v)) + unat (bar_cur_offset (bar_shm v))"
  "\<lambda>v. unat (bar_start (bar_shm v)) + 2 ^ 29" vgpu_ready
proof
  fix v sz szs b
  assume z: "vgpu_ready v (sz # szs)"
  obtain m v' where m: "map_app sz v = Inr (Some m, v')" "v' = v\<lparr>bar_shm := (bar_shm v)\<lparr>bar_cur_offset := bar_cur_offset (bar_shm v) + sz\<rparr>\<rparr>"
    "mapped_block m = (unat (bar_start (bar_shm v)) + unat (bar_cur_offset (bar_shm v)), unat sz)" "vgpu_ready v' szs"
    "unat (bar_cur_offset (bar_shm v')) = unat (bar_cur_offset (bar_shm v)) + unat sz"
    using map_app_ready [OF z] by (elim exE conjE) (rule that)
  have e: "vgpu_take v sz = (Some (mapped_block m), v')" using m(1) by (simp add: vgpu_take_def)
  have s: "bar_start (bar_shm v') = bar_start (bar_shm v)" using m(2) by simp
  show "vgpu_ready (snd (vgpu_take v sz)) szs" using e m(4) by simp
  show "unat (bar_start (bar_shm (snd (vgpu_take v sz)))) + 2 ^ 29 = unat (bar_start (bar_shm v)) + 2 ^ 29" using e s by simp
  show "unat (bar_start (bar_shm v)) + unat (bar_cur_offset (bar_shm v)) \<le>
      unat (bar_start (bar_shm (snd (vgpu_take v sz)))) + unat (bar_cur_offset (bar_shm (snd (vgpu_take v sz))))" using e s m(5) by simp
  show "unat (bar_start (bar_shm v)) + unat (bar_cur_offset (bar_shm v)) \<le> fst b \<and>
      fst b + snd b \<le> unat (bar_start (bar_shm (snd (vgpu_take v sz)))) + unat (bar_cur_offset (bar_shm (snd (vgpu_take v sz))))"
    if "fst (vgpu_take v sz) = Some b" using that e s m(3,5) by (cases b) simp
qed (simp add: vgpu_ready_def)

lemma map_apps_take:
  "vgpu_ready v szs \<Longrightarrow> \<exists>ms. map_apps szs v = Inr (map Some ms, snd (take_list vgpu_take v szs)) \<and>
     map mapped_block ms = fst (take_list vgpu_take v szs) \<and> map (\<lambda>m. snd (snd m)) ms = szs \<and>
     (\<forall>m \<in> set ms. fst (mapped_block m) = unat (bar_start (bar_shm v)) + nat (fst m))"
proof (induction szs arbitrary: v)
  case (Cons sz szs)
  obtain m v' where m: "map_app sz v = Inr (Some m, v')" "v' = v\<lparr>bar_shm := (bar_shm v)\<lparr>bar_cur_offset := bar_cur_offset (bar_shm v) + sz\<rparr>\<rparr>"
    "mapped_block m = (unat (bar_start (bar_shm v)) + unat (bar_cur_offset (bar_shm v)), unat sz)" "snd (snd m) = sz"
    "fst m = int (unat (bar_cur_offset (bar_shm v)))" "vgpu_ready v' szs"
    using map_app_ready [OF Cons.prems] by (elim exE conjE) (rule that)
  have e: "vgpu_take v sz = (Some (mapped_block m), v')" using m(1) by (simp add: vgpu_take_def)
  from Cons.IH [OF m(6)] obtain ms where ih: "map_apps szs v' = Inr (map Some ms, snd (take_list vgpu_take v' szs))"
    "map mapped_block ms = fst (take_list vgpu_take v' szs)" "map (\<lambda>m. snd (snd m)) ms = szs"
    "\<forall>m \<in> set ms. fst (mapped_block m) = unat (bar_start (bar_shm v')) + nat (fst m)" by (elim exE conjE) (rule that)
  have "\<forall>m' \<in> set (m # ms). fst (mapped_block m') = unat (bar_start (bar_shm v)) + nat (fst m')" using ih(4) m(2,3,5) by simp
  then show ?case using ih(1-3) m(1,4) e by (intro exI [of _ "m # ms"]) (simp add: case_prod_beta)
qed simp

text \<open>C20: While the requests fit the shared memory, applications that request and map blocks of whole pages get mappings of
  the requested lengths that lie inside the shared memory BAR and never overlap, at the offsets that the driver reports.\<close>

theorem shm_mappings_disjoint:
  assumes "shm_ready v" "\<forall>sz \<in> set szs. pages sz" "unat (bar_cur_offset (bar_shm v)) + sum_list (map unat szs) \<le> unat AVA_GUEST_SHM_SIZE"
  shows "\<exists>ms v'. map_apps szs v = Inr (map Some ms, v') \<and> map (\<lambda>m. snd (snd m)) ms = szs \<and>
    (\<forall>m \<in> set ms. bytes_of_block (mapped_block m) \<subseteq> {unat (bar_start (bar_shm v)) ..< unat (bar_start (bar_shm v)) + unat AVA_GUEST_SHM_SIZE} \<and>
       fst (mapped_block m) = unat (bar_start (bar_shm v)) + nat (fst m)) \<and>
    (\<forall>i < length ms. \<forall>j < i. bytes_of_block (mapped_block (ms ! j)) \<inter> bytes_of_block (mapped_block (ms ! i)) = {})"
proof -
  have sz: "unat AVA_GUEST_SHM_SIZE = 2 ^ 29" by (simp add: AVA_GUEST_SHM_SIZE_def)
  then have z: "vgpu_ready v szs" using assms by (simp add: vgpu_ready_def)
  from map_apps_take [OF z] obtain ms where
    a: "map_apps szs v = Inr (map Some ms, snd (take_list vgpu_take v szs))" "map mapped_block ms = fst (take_list vgpu_take v szs)"
    "map (\<lambda>m. snd (snd m)) ms = szs" "\<forall>m \<in> set ms. fst (mapped_block m) = unat (bar_start (bar_shm v)) + nat (fst m)"
    by (elim exE conjE) (rule that)
  note d = shm_bar.run_disjoint [OF z, folded a(2)]
  have "bytes_of_block (mapped_block (ms ! j)) \<inter> bytes_of_block (mapped_block (ms ! i)) = {}" if "i < length ms" "j < i" for i j
    using d(2) [of i j] that by simp
  moreover have "\<forall>m \<in> set ms. bytes_of_block (mapped_block m) \<subseteq> {unat (bar_start (bar_shm v)) ..< unat (bar_start (bar_shm v)) + unat AVA_GUEST_SHM_SIZE}"
    using d(1) unfolding sz by fastforce
  ultimately show ?thesis using a(1,3,4) by (intro exI conjI) auto
qed

definition ex_vgpu :: vgpu_dev where
  "ex_vgpu = vgpu_dev_zero\<lparr>has_shm := True, bar_shm := bar_zero\<lparr>bar_start := 0x10000\<rparr>\<rparr>"

theorem shm_mappings_disjoint_witness:
  "\<exists>ms v'. map_apps [4096, 8192] ex_vgpu = Inr (map Some ms, v') \<and> map (\<lambda>m. snd (snd m)) ms = [4096, 8192] \<and>
     bytes_of_block (mapped_block (ms ! 0)) \<inter> bytes_of_block (mapped_block (ms ! 1)) = {}"
proof -
  have p: "shm_ready ex_vgpu" "\<forall>sz \<in> set [4096, 8192]. pages sz" by (simp_all add: shm_ready_def ex_vgpu_def bar_zero_def pages_def)
  have q: "unat (bar_cur_offset (bar_shm ex_vgpu)) + sum_list (map unat [4096 :: u64, 8192]) \<le> unat AVA_GUEST_SHM_SIZE" by (simp add: ex_vgpu_def bar_zero_def AVA_GUEST_SHM_SIZE_def)
  obtain ms v' where
    a: "map_apps [4096, 8192] ex_vgpu = Inr (map Some ms, v')" "map (\<lambda>m. snd (snd m)) ms = [4096, 8192]"
    "\<forall>i < length ms. \<forall>j < i. bytes_of_block (mapped_block (ms ! j)) \<inter> bytes_of_block (mapped_block (ms ! i)) = {}"
    using shm_mappings_disjoint [OF p q] by (elim exE conjE) (rule that)
  have "length ms = 2" using arg_cong [OF a(2), of length] by simp
  then have "bytes_of_block (mapped_block (ms ! 0)) \<inter> bytes_of_block (mapped_block (ms ! 1)) = {}" using a(3) by simp
  with a show ?thesis by (intro exI [of _ ms] exI [of _ v'] conjI)
qed

text \<open>When a request does not fit any more, the driver reports success at offset 0: the mapping starts at the beginning of
  the shared memory and overlaps the mapping of the first application.\<close>

theorem shm_exhausted_blocks_shared:
  "\<exists>m n v'. map_apps [AVA_GUEST_SHM_SIZE, 4096] ex_vgpu = Inr ([Some m, Some n], v') \<and> fst n = 0 \<and> bytes_of_block (mapped_block n) \<subseteq> bytes_of_block (mapped_block m)"
proof -
  have "map_apps [AVA_GUEST_SHM_SIZE, 4096] ex_vgpu = Inr ([Some (0, 16, AVA_GUEST_SHM_SIZE), Some (0, 16, 4096)],
      ex_vgpu\<lparr>bar_shm := (bar_shm ex_vgpu)\<lparr>bar_cur_offset := AVA_GUEST_SHM_SIZE + 4096\<rparr>\<rparr>)"
    by (simp add: map_app_eq request_shm_def ex_vgpu_def bar_zero_def AVA_GUEST_SHM_SIZE_def int32_def drop_bit_eq_div)
  then show ?thesis
    by (intro exI [of _ "(0, 16, AVA_GUEST_SHM_SIZE)"] exI [of _ "(0, 16, 4096)"]) (simp add: bytes_of_block_def mapped_block_def AVA_GUEST_SHM_SIZE_def)
qed

section \<open>Loading\<close>




text \<open>Removing the device unmaps the register BAR only; the mappings of the other BARs stay.\<close>

lemma vgpu_remove_leaks:
  assumes "vgpu_probe ans v nothing_held = (0, v', k)"
  shows "base_addr (bar_shm v') \<in> set (iomapped (vgpu_remove v' k))"
proof (cases "ans_zero_copy ans = 0")
  case True
  with assms show ?thesis
    by (auto simp: vgpu_probe_def vgpu_bar_probe_def pci_release_def pci_disable_def vgpu_remove_def NEG_EBUSY_def Let_def case_prod_beta nothing_held_def
        split: if_splits)
next
  case False
  with assms show ?thesis
    by (auto simp: vgpu_probe_def vgpu_bar_probe_def pci_release_def pci_disable_def vgpu_remove_def NEG_EBUSY_def Let_def case_prod_beta nothing_held_def
        split: if_splits)
qed

end
