(* ===== verification/Provision_Gpu.thy ===== *)
theory Provision_Gpu
  imports Server_Address
begin

text \<open>
  The GPUs that a worker offers to its application (\<open>worker/provision_gpu.cpp\<close>): parsing of the lists given on start-up, the
  mapping of provisioned GPUs to real ones, and the account of their memory. The mutex makes each operation one step;
  the thread-local current index is a function of the thread.
\<close>

section \<open>Lists separated by commas\<close>

text \<open>The strings that \<open>getline\<close> delivers while the stream is good.\<close>

function getlines :: "string \<Rightarrow> string list" where
  "getlines s =
     (case dropWhile (\<lambda>c. c \<noteq> CHR '','') s of
        [] \<Rightarrow> [s]
      | c # rest \<Rightarrow> takeWhile (\<lambda>c. c \<noteq> CHR '','') s # getlines rest)"
  by pat_completeness auto
termination
proof (relation "measure length")
  show "(rest, s) \<in> measure length" if "dropWhile (\<lambda>c. c \<noteq> CHR '','') s = c # rest" for s c rest
    using length_dropWhile_le [of "\<lambda>c. c \<noteq> CHR '',''" s] that by simp
qed simp

declare getlines.simps [simp del]

definition ParseGpuUuidList :: "string \<Rightarrow> string list" where
  "ParseGpuUuidList uuid_list = filter (\<lambda>uuid. uuid \<noteq> []) (getlines uuid_list)"

fun push_memory :: "string list \<Rightarrow> u64 list res" where
  "push_memory [] = Inr []"
| "push_memory (s # ss) =
     (if s = [] then push_memory ss else rbind (stol s) (\<lambda>v. rbind (push_memory ss) (\<lambda>vs. Inr (of_int v # vs))))"

definition ParseGpuMemoryList :: "string \<Rightarrow> u64 list res" where
  "ParseGpuMemoryList mem_list = push_memory (getlines mem_list)"

section \<open>The provisioned GPUs\<close>

record provision_gpu =
  index_of :: "u32 list"
  uuid_of :: "string list"
  memory_of :: "u64 list"
  free_memory_of :: "u64 list"

fun find_indices :: "string list \<Rightarrow> string list \<Rightarrow> u32 list res" where
  "find_indices cuda [] = Inr []"
| "find_indices cuda (u # us) =
     (case find (\<lambda>j. u = cuda ! j) [0..<length cuda] of
        None \<Rightarrow> Inl (ExitProc 1)
      | Some j \<Rightarrow> rbind (find_indices cuda us) (\<lambda>js. Inr (of_nat j # js)))"

definition Init :: "string list \<Rightarrow> string list \<Rightarrow> u64 list \<Rightarrow> provision_gpu res" where
  "Init cuda uuids mems =
     (if length uuids \<noteq> length mems then Inl (ExitProc 1)
      else rbind (find_indices cuda uuids) (\<lambda>idx. Inr \<lparr>index_of = idx, uuid_of = uuids, memory_of = mems, free_memory_of = mems\<rparr>))"

definition ProvisionGpu :: "string \<Rightarrow> string \<Rightarrow> string \<Rightarrow> provision_gpu res" where
  "ProvisionGpu cuda_uuid_list uuid_list mem_list =
     rbind (ParseGpuMemoryList mem_list) (\<lambda>mems. Init (ParseGpuUuidList cuda_uuid_list) (ParseGpuUuidList uuid_list) mems)"

definition GetGpuTotalMemory :: "u32 \<Rightarrow> provision_gpu \<Rightarrow> u64" where
  "GetGpuTotalMemory gpu_id p = (if unat gpu_id < length (memory_of p) then memory_of p ! unat gpu_id else 0)"

definition GetGpuFreeMemory :: "u32 \<Rightarrow> provision_gpu \<Rightarrow> u64" where
  "GetGpuFreeMemory gpu_id p = (if unat gpu_id < length (free_memory_of p) then free_memory_of p ! unat gpu_id else 0)"

definition ConsumeGpuMemory :: "u32 \<Rightarrow> u64 \<Rightarrow> provision_gpu \<Rightarrow> int \<times> provision_gpu" where
  "ConsumeGpuMemory gpu_id sz p =
     (if unat gpu_id < length (free_memory_of p) \<and> free_memory_of p ! unat gpu_id \<ge> sz
      then (0, p\<lparr>free_memory_of := (free_memory_of p)[unat gpu_id := free_memory_of p ! unat gpu_id - sz]\<rparr>)
      else (- 1, p))"

definition FreeGpuMemory :: "u32 \<Rightarrow> u64 \<Rightarrow> provision_gpu \<Rightarrow> provision_gpu" where
  "FreeGpuMemory gpu_id sz p =
     (if unat gpu_id < length (free_memory_of p)
      then p\<lparr>free_memory_of := (free_memory_of p)[unat gpu_id := free_memory_of p ! unat gpu_id + sz]\<rparr> else p)"

definition GetGpuIndex :: "u32 \<Rightarrow> provision_gpu \<Rightarrow> u32" where
  "GetGpuIndex gpu_id p = (if unat gpu_id < length (index_of p) then index_of p ! unat gpu_id else of_nat (length (index_of p)))"

definition PerThreadCurrentGpuIndex :: "u64 \<Rightarrow> bool \<Rightarrow> u32 \<Rightarrow> (u64 \<Rightarrow> u32) \<Rightarrow> u32 \<times> (u64 \<Rightarrow> u32)" where
  "PerThreadCurrentGpuIndex t get index cur = (if get then (cur t, cur) else (0, cur(t := index)))"

definition GetCurrentGpuIndex :: "u64 \<Rightarrow> (u64 \<Rightarrow> u32) \<Rightarrow> u32 \<times> (u64 \<Rightarrow> u32)" where
  "GetCurrentGpuIndex t cur = PerThreadCurrentGpuIndex t True 0 cur"

definition SetCurrentGpuIndex :: "u64 \<Rightarrow> u32 \<Rightarrow> (u64 \<Rightarrow> u32) \<Rightarrow> (u64 \<Rightarrow> u32)" where
  "SetCurrentGpuIndex t gpu_id cur = snd (PerThreadCurrentGpuIndex t False gpu_id cur)"

definition GetGpuCount :: "provision_gpu \<Rightarrow> u32" where
  "GetGpuCount p = of_nat (length (index_of p))"

section \<open>The interface for generated code\<close>

text \<open>The functions answer also when there is no provisioned GPU.\<close>

definition provision_gpu_get_gpu_total_memory :: "u32 \<Rightarrow> provision_gpu option \<Rightarrow> u64" where
  "provision_gpu_get_gpu_total_memory gpu_id g = (case g of None \<Rightarrow> 0 | Some p \<Rightarrow> GetGpuTotalMemory gpu_id p)"

definition provision_gpu_get_gpu_free_memory :: "u32 \<Rightarrow> provision_gpu option \<Rightarrow> u64" where
  "provision_gpu_get_gpu_free_memory gpu_id g = (case g of None \<Rightarrow> 0 | Some p \<Rightarrow> GetGpuFreeMemory gpu_id p)"

definition provision_gpu_consume_gpu_memory :: "u32 \<Rightarrow> u64 \<Rightarrow> provision_gpu option \<Rightarrow> int \<times> provision_gpu option" where
  "provision_gpu_consume_gpu_memory gpu_id sz g =
     (case g of None \<Rightarrow> (- 1, None) | Some p \<Rightarrow> (case ConsumeGpuMemory gpu_id sz p of (r, p) \<Rightarrow> (r, Some p)))"

definition provision_gpu_free_gpu_memory :: "u32 \<Rightarrow> u64 \<Rightarrow> provision_gpu option \<Rightarrow> provision_gpu option" where
  "provision_gpu_free_gpu_memory gpu_id sz g = map_option (FreeGpuMemory gpu_id sz) g"

definition provision_gpu_get_gpu_index :: "u32 \<Rightarrow> provision_gpu option \<Rightarrow> u32" where
  "provision_gpu_get_gpu_index gpu_id g = (case g of None \<Rightarrow> 0 | Some p \<Rightarrow> GetGpuIndex gpu_id p)"

definition provision_gpu_get_current_gpu_index :: "u64 \<Rightarrow> provision_gpu option \<Rightarrow> (u64 \<Rightarrow> u32) \<Rightarrow> u32 \<times> (u64 \<Rightarrow> u32)" where
  "provision_gpu_get_current_gpu_index t g cur = (case g of None \<Rightarrow> (0, cur) | Some p \<Rightarrow> GetCurrentGpuIndex t cur)"

definition provision_gpu_set_current_gpu_index :: "u64 \<Rightarrow> u32 \<Rightarrow> provision_gpu option \<Rightarrow> (u64 \<Rightarrow> u32) \<Rightarrow> (u64 \<Rightarrow> u32)" where
  "provision_gpu_set_current_gpu_index t gpu_id g cur = (case g of None \<Rightarrow> cur | Some p \<Rightarrow> SetCurrentGpuIndex t gpu_id cur)"

definition provision_gpu_get_gpu_count :: "provision_gpu option \<Rightarrow> u32" where
  "provision_gpu_get_gpu_count g = (case g of None \<Rightarrow> 0 | Some p \<Rightarrow> GetGpuCount p)"

section \<open>Start-up\<close>

fun join_commas :: "string list \<Rightarrow> string" where
  "join_commas [] = []"
| "join_commas [s] = s"
| "join_commas (s # ss) = s @ '','' @ join_commas ss"

lemma getlines_last: "CHR '','' \<notin> set s \<Longrightarrow> getlines s = [s]"
proof -
  assume "CHR '','' \<notin> set s"
  then have "dropWhile (\<lambda>c. c \<noteq> CHR '','') s = []" by (auto simp: dropWhile_eq_Nil_conv)
  then show ?thesis by (subst getlines.simps) (simp only: list.case)
qed

lemma getlines_comma: "CHR '','' \<notin> set s \<Longrightarrow> getlines (s @ CHR '','' # t) = s # getlines t"
proof -
  assume "CHR '','' \<notin> set s"
  then have "dropWhile (\<lambda>c. c \<noteq> CHR '','') (s @ CHR '','' # t) = CHR '','' # t" "takeWhile (\<lambda>c. c \<noteq> CHR '','') (s @ CHR '','' # t) = s"
    by (auto simp: dropWhile_append takeWhile_append)
  then show ?thesis by (subst getlines.simps) simp
qed

lemma getlines_join: "\<forall>s \<in> set ss. CHR '','' \<notin> set s \<Longrightarrow> ss \<noteq> [] \<Longrightarrow> getlines (join_commas ss) = ss"
  by (induction ss rule: join_commas.induct) (simp_all add: getlines_last getlines_comma)

lemma to_string_comma: "CHR '','' \<notin> set (to_string i)"
proof -
  have "digit_val (CHR '','') = None" by (simp add: digit_val_def)
  then have "CHR '','' \<notin> set (nat_string n)" for n using nat_string_digits [of "CHR '',''" n] by blast
  then show ?thesis by (simp add: to_string_def)
qed

lemma to_string_nonempty: "to_string i \<noteq> []"
  by (simp add: to_string_def nat_string_nonempty)

lemma push_memory_strings: "\<forall>v \<in> set mems. v < 2 ^ 63 \<Longrightarrow> push_memory (map (\<lambda>v. to_string (uint v)) mems) = Inr mems"
proof (induction mems)
  case (Cons v mems)
  have "uint v < 2 ^ 63" using Cons.prems by (simp add: word_less_def)
  moreover have "- (2 ^ 63) \<le> uint v" using order_trans [of "- (2 ^ 63)" 0 "uint v"] by simp
  ultimately have "stol (to_string (uint v)) = Inr (uint v)" unfolding stol_def by (intro string_to_int_to_string)
  then show ?case using Cons by (simp add: to_string_nonempty)
qed simp

text \<open>The strings of a start-up: no part is empty or contains a comma.\<close>

definition listable :: "string list \<Rightarrow> bool" where
  "listable ss \<longleftrightarrow> ss \<noteq> [] \<and> (\<forall>s \<in> set ss. s \<noteq> [] \<and> CHR '','' \<notin> set s)"

lemma ParseGpuUuidList_join: "listable ss \<Longrightarrow> ParseGpuUuidList (join_commas ss) = ss"
  by (simp add: ParseGpuUuidList_def listable_def getlines_join filter_id_conv)

lemma ParseGpuMemoryList_join:
  "mems \<noteq> [] \<Longrightarrow> \<forall>v \<in> set mems. v < 2 ^ 63 \<Longrightarrow> ParseGpuMemoryList (join_commas (map (\<lambda>v. to_string (uint v)) mems)) = Inr mems"
  using getlines_join [of "map (\<lambda>v. to_string (uint v)) mems"] by (simp add: ParseGpuMemoryList_def to_string_comma push_memory_strings)

text \<open>Provisioned GPU \<open>i\<close> is the real GPU with its UUID.\<close>

definition provision_ok :: "string list \<Rightarrow> provision_gpu \<Rightarrow> bool" where
  "provision_ok cuda p \<longleftrightarrow> length (index_of p) = length (uuid_of p) \<and> length (memory_of p) = length (uuid_of p) \<and>
     length (free_memory_of p) = length (uuid_of p) \<and>
     (\<forall>i < length (uuid_of p). unat (index_of p ! i) < length cuda \<and> cuda ! unat (index_of p ! i) = uuid_of p ! i)"

lemma find_indices_ok:
  assumes "length cuda < 2 ^ 32" "find_indices cuda us = Inr idx"
  shows "length idx = length us \<and> (\<forall>i < length us. unat (idx ! i) < length cuda \<and> cuda ! unat (idx ! i) = us ! i)"
  using assms(2)
proof (induction us arbitrary: idx)
  case (Cons u us)
  then obtain j js where j: "find (\<lambda>j. u = cuda ! j) [0..<length cuda] = Some j" "find_indices cuda us = Inr js" "idx = of_nat j # js"
    by (auto simp: res_simps split: option.splits sum.splits)
  then have "j < length cuda" "cuda ! j = u" by (auto simp: find_Some_iff)
  moreover then have "unat (of_nat j :: u32) = j" using assms(1) by (simp add: unsigned_of_nat take_bit_nat_eq_self_iff)
  ultimately show ?case using Cons.IH [OF j(2)] j(3) by (auto simp: nth_Cons split: nat.split)
qed simp

lemma find_indices_total: "set us \<subseteq> set cuda \<Longrightarrow> \<exists>idx. find_indices cuda us = Inr idx"
proof (induction us)
  case (Cons u us)
  then obtain j where "j < length cuda" "cuda ! j = u" by (auto simp: in_set_conv_nth)
  then have "find (\<lambda>j. u = cuda ! j) [0..<length cuda] \<noteq> None" by (auto simp: find_None_iff)
  then show ?case using Cons by auto
qed simp

text \<open>A worker started with printed lists of UUIDs and memory sizes comes up, and every provisioned GPU has the real
  GPU with its UUID and the memory of its entry, all of it free.\<close>

theorem provision_startup:
  assumes "listable cuda" "listable uuids" "set uuids \<subseteq> set cuda" "length mems = length uuids" "\<forall>v \<in> set mems. v < 2 ^ 63" "length cuda < 2 ^ 32"
  shows "\<exists>p. ProvisionGpu (join_commas cuda) (join_commas uuids) (join_commas (map (\<lambda>v. to_string (uint v)) mems)) = Inr p \<and>
    provision_ok cuda p \<and> uuid_of p = uuids \<and> memory_of p = mems \<and> free_memory_of p = mems"
proof -
  have "mems \<noteq> []" using assms(2,4) by (auto simp: listable_def)
  then have m: "ParseGpuMemoryList (join_commas (map (\<lambda>v. to_string (uint v)) mems)) = Inr mems" using assms(5) by (rule ParseGpuMemoryList_join)
  obtain idx where i: "find_indices cuda uuids = Inr idx" using find_indices_total [OF assms(3)] by blast
  then show ?thesis using m assms(4) find_indices_ok [OF assms(6) i]
    by (simp add: ProvisionGpu_def Init_def ParseGpuUuidList_join [OF assms(1)] ParseGpuUuidList_join [OF assms(2)] provision_ok_def)
qed

theorem provision_startup_witness:
  "\<exists>p. ProvisionGpu (join_commas [''A'', ''B'']) (join_commas [''B'']) (join_commas (map (\<lambda>v. to_string (uint v)) [4096 :: u64])) = Inr p \<and>
    provision_ok [''A'', ''B''] p \<and> memory_of p = [4096]"
  using provision_startup [of "[''A'', ''B'']" "[''B'']" "[4096]"] by (auto simp: listable_def)

text \<open>The real index of a GPU that was not provisioned is meant to be an invalid one, but it is the number of provisioned GPUs,
  and this can be the index of a real GPU that was not given to the worker.\<close>

theorem unprovisioned_gpu_reachable:
  "\<exists>p. Init [''A'', ''B''] [''A''] [4096] = Inr p \<and> GetGpuCount p = 1 \<and> unat (GetGpuIndex 7 p) < length [''A'', ''B''] \<and>
     [''A'', ''B''] ! unat (GetGpuIndex 7 p) \<notin> set (uuid_of p)"
  by (simp add: Init_def GetGpuCount_def GetGpuIndex_def)

section \<open>The account of memory\<close>

datatype memory_op = Consume u32 u64 | Free u32 u64

fun provision_run :: "memory_op list \<Rightarrow> provision_gpu option \<Rightarrow> int list \<times> provision_gpu option" where
  "provision_run [] g = ([], g)"
| "provision_run (Consume i sz # ops) g =
     (case provision_gpu_consume_gpu_memory i sz g of (r, g) \<Rightarrow> case provision_run ops g of (rs, g) \<Rightarrow> (r # rs, g))"
| "provision_run (Free i sz # ops) g = provision_run ops (provision_gpu_free_gpu_memory i sz g)"

text \<open>The specification counts what is in use on each GPU. It is undefined when more is freed than is in use.\<close>

fun usage_run :: "u64 list \<Rightarrow> memory_op list \<Rightarrow> (nat \<Rightarrow> nat) \<Rightarrow> (int list \<times> (nat \<Rightarrow> nat)) option" where
  "usage_run tot [] used = Some ([], used)"
| "usage_run tot (Consume i sz # ops) used =
     (if unat i < length tot \<and> used (unat i) + unat sz \<le> unat (tot ! unat i)
      then map_option (\<lambda>(rs, u). (0 # rs, u)) (usage_run tot ops (used(unat i := used (unat i) + unat sz)))
      else map_option (\<lambda>(rs, u). (- 1 # rs, u)) (usage_run tot ops used))"
| "usage_run tot (Free i sz # ops) used =
     (if unat i < length tot
      then if unat sz \<le> used (unat i) then usage_run tot ops (used(unat i := used (unat i) - unat sz)) else None
      else usage_run tot ops used)"

definition usage_rel :: "provision_gpu \<Rightarrow> (nat \<Rightarrow> nat) \<Rightarrow> bool" where
  "usage_rel p used \<longleftrightarrow> length (free_memory_of p) = length (memory_of p) \<and>
     (\<forall>i < length (memory_of p). unat (free_memory_of p ! i) + used i = unat (memory_of p ! i))"

lemma consume_step:
  assumes "usage_rel p used"
  shows "(unat i < length (memory_of p) \<and> used (unat i) + unat sz \<le> unat (memory_of p ! unat i)) \<longleftrightarrow> fst (ConsumeGpuMemory i sz p) = 0"
    and "fst (ConsumeGpuMemory i sz p) = 0 \<Longrightarrow> usage_rel (snd (ConsumeGpuMemory i sz p)) (used(unat i := used (unat i) + unat sz))"
    and "fst (ConsumeGpuMemory i sz p) \<noteq> 0 \<Longrightarrow> ConsumeGpuMemory i sz p = (- 1, p)"
    and "memory_of (snd (ConsumeGpuMemory i sz p)) = memory_of p"
proof -
  have e: "unat (free_memory_of p ! unat i) + used (unat i) = unat (memory_of p ! unat i)" if "unat i < length (memory_of p)"
    using assms that by (simp add: usage_rel_def)
  show "(unat i < length (memory_of p) \<and> used (unat i) + unat sz \<le> unat (memory_of p ! unat i)) \<longleftrightarrow> fst (ConsumeGpuMemory i sz p) = 0"
    using assms e by (auto simp: ConsumeGpuMemory_def usage_rel_def word_le_nat_alt)
  show "usage_rel (snd (ConsumeGpuMemory i sz p)) (used(unat i := used (unat i) + unat sz))" if "fst (ConsumeGpuMemory i sz p) = 0"
    using assms that by (auto simp: ConsumeGpuMemory_def usage_rel_def nth_list_update unat_sub word_le_nat_alt split: if_splits)
qed (auto simp: ConsumeGpuMemory_def)

lemma free_step:
  assumes "usage_rel p used" "unat i < length (memory_of p)" "unat sz \<le> used (unat i)"
  shows "usage_rel (FreeGpuMemory i sz p) (used(unat i := used (unat i) - unat sz)) \<and> memory_of (FreeGpuMemory i sz p) = memory_of p"
proof -
  have e: "unat (free_memory_of p ! unat i) + used (unat i) = unat (memory_of p ! unat i)" using assms by (simp add: usage_rel_def)
  then have "unat (free_memory_of p ! unat i) + unat sz < 2 ^ 64" using assms(3) unsigned_less [of "memory_of p ! unat i", where ?'a = nat] by simp
  then have "unat (free_memory_of p ! unat i + sz) = unat (free_memory_of p ! unat i) + unat sz" by (rule unat_plus_small)
  then show ?thesis using assms e by (auto simp: FreeGpuMemory_def usage_rel_def nth_list_update)
qed

lemma usage_refines:
  "usage_rel p used \<Longrightarrow> usage_run (memory_of p) ops used = Some (rs, used') \<Longrightarrow>
   \<exists>p'. provision_run ops (Some p) = (rs, Some p') \<and> usage_rel p' used' \<and> memory_of p' = memory_of p"
proof (induction ops arbitrary: p rs used)
  case (Cons x ops)
  show ?case
  proof (cases x)
    case (Consume i sz)
    note c = consume_step [OF Cons.prems(1), of i sz]
    obtain r q where q: "ConsumeGpuMemory i sz p = (r, q)" by fastforce
    have run: "provision_run (x # ops) (Some p) = (let (rs, g) = provision_run ops (Some q) in (r # rs, g))"
      by (simp add: Consume provision_gpu_consume_gpu_memory_def q)
    have mq: "memory_of q = memory_of p" using c(4) q by simp
    have spec: "usage_run (memory_of p) (x # ops) used = map_option (\<lambda>(rs, u). (r # rs, u))
        (usage_run (memory_of q) ops (if r = 0 then used(unat i := used (unat i) + unat sz) else used))"
      using c(1,3) q mq by (simp add: Consume)
    have rel: "usage_rel q (if r = 0 then used(unat i := used (unat i) + unat sz) else used)" using c(2,3) q Cons.prems(1) by simp
    obtain rs1 where "usage_run (memory_of q) ops (if r = 0 then used(unat i := used (unat i) + unat sz) else used) = Some (rs1, used')" "rs = r # rs1"
      using Cons.prems(2) unfolding spec by (auto simp del: fun_upd_apply)
    with Cons.IH [OF rel this(1)] run mq show ?thesis by (elim exE conjE) simp
  next
    case (Free i sz)
    show ?thesis
    proof (cases "unat i < length (memory_of p)")
      case True
      then have le: "unat sz \<le> used (unat i)" "usage_run (memory_of p) ops (used(unat i := used (unat i) - unat sz)) = Some (rs, used')"
        using Cons.prems(2) by (simp_all add: Free split: if_splits)
      note f = free_step [OF Cons.prems(1) True le(1)]
      have "usage_run (memory_of (FreeGpuMemory i sz p)) ops (used(unat i := used (unat i) - unat sz)) = Some (rs, used')" using le(2) f by simp
      from Cons.IH [OF f [THEN conjunct1] this] show ?thesis using f by (simp add: Free provision_gpu_free_gpu_memory_def)
    next
      case False
      then have "FreeGpuMemory i sz p = p" using Cons.prems(1) by (simp add: FreeGpuMemory_def usage_rel_def)
      then show ?thesis using Cons.IH [OF Cons.prems(1), of rs] Cons.prems(2) False by (simp add: Free provision_gpu_free_gpu_memory_def)
    qed
  qed
qed simp

text \<open>C21: Consuming and freeing memory refines a counter of the memory in use on each GPU, as long as no more is freed than is in
  use: requests succeed exactly when they fit, and free memory is the total less the memory in use.\<close>

theorem provision_memory_refines:
  assumes "provision_ok cuda p" "free_memory_of p = memory_of p" "usage_run (memory_of p) ops (\<lambda>_. 0) = Some (rs, used)"
  shows "\<exists>p'. provision_run ops (Some p) = (rs, Some p') \<and>
    (\<forall>i. unat i < length (memory_of p) \<longrightarrow>
       unat (provision_gpu_get_gpu_free_memory i (Some p')) = unat (provision_gpu_get_gpu_total_memory i (Some p)) - used (unat i))"
proof -
  have "usage_rel p (\<lambda>_. 0)" using assms(2) by (simp add: usage_rel_def)
  from usage_refines [OF this assms(3)] obtain p' where
    p: "provision_run ops (Some p) = (rs, Some p')" "usage_rel p' used" "memory_of p' = memory_of p" by blast
  have "unat (free_memory_of p' ! unat i) = unat (memory_of p ! unat i) - used (unat i)" if "unat i < length (memory_of p)" for i :: u32
    using p(2,3) that by (metis diff_add_inverse2 usage_rel_def)
  then show ?thesis using p
    by (intro exI [of _ p']) (simp add: provision_gpu_get_gpu_free_memory_def provision_gpu_get_gpu_total_memory_def GetGpuFreeMemory_def
        GetGpuTotalMemory_def usage_rel_def)
qed

definition ex_provision :: provision_gpu where
  "ex_provision = \<lparr>index_of = [0], uuid_of = [''A''], memory_of = [10], free_memory_of = [10]\<rparr>"

theorem provision_memory_refines_witness:
  "\<exists>p'. provision_run [Consume 0 8, Consume 0 4, Free 0 8, Consume 0 4] (Some ex_provision) = ([0, - 1, 0], Some p') \<and>
     unat (provision_gpu_get_gpu_free_memory 0 (Some p')) = 6"
proof -
  have "provision_ok [''A''] ex_provision" by (simp add: provision_ok_def ex_provision_def)
  moreover have "usage_run (memory_of ex_provision) [Consume 0 8, Consume 0 4, Free 0 8, Consume 0 4] (\<lambda>_. 0) =
     Some ([0, - 1, 0], ((\<lambda>_. 0)(0 := 8, 0 := 0, 0 := 4)))" by (simp add: ex_provision_def)
  ultimately obtain p' where "provision_run [Consume 0 8, Consume 0 4, Free 0 8, Consume 0 4] (Some ex_provision) = ([0, - 1, 0], Some p')"
    "\<forall>i. unat i < length (memory_of ex_provision) \<longrightarrow> unat (provision_gpu_get_gpu_free_memory i (Some p')) =
       unat (provision_gpu_get_gpu_total_memory i (Some ex_provision)) - ((\<lambda>_. 0)(0 := 8, 0 := 0, 0 := 4 :: nat)) (unat i)"
    using provision_memory_refines [of "[''A'']" ex_provision] by (fastforce simp: ex_provision_def)
  then show ?thesis by (intro exI [of _ p']) (simp add: ex_provision_def provision_gpu_get_gpu_total_memory_def GetGpuTotalMemory_def)
qed

text \<open>Nothing bounds what is freed: memory that was never consumed can be freed, and the free memory exceeds the total.\<close>

lemma free_exceeds_total:
  "\<exists>p'. provision_run [Free 0 5] (Some ex_provision) = ([], Some p') \<and>
     provision_gpu_get_gpu_total_memory 0 (Some p') < provision_gpu_get_gpu_free_memory 0 (Some p')"
  by (simp add: ex_provision_def provision_gpu_free_gpu_memory_def FreeGpuMemory_def provision_gpu_get_gpu_total_memory_def
      provision_gpu_get_gpu_free_memory_def GetGpuTotalMemory_def GetGpuFreeMemory_def)

end
