(* ===== verification/Worker_Pool.thy ===== *)
theory Worker_Pool
  imports Server_Address
begin

text \<open>
  The socket manager for NVIDIA GPUs (\<open>worker/nvidia_gpu/manager_nv.cpp\<close>): a queue of ports of idle workers per GPU, the choice of a GPU for an
  application, and the handling of one connection. The accept loop waits for each handler, because the
  future that \<open>std::async\<close> returns is destroyed at once, so handlers run one after the other. What a handler does to the
  outside is a list of actions: a reply with a port, or the start of a worker on a GPU with a port.
\<close>

section \<open>State\<close>

record pool_config =
  worker_port_base :: int
  worker_pool_size :: u32
  worker_pool_enabled :: bool
  visible_uuid :: "string list"

record pool_manager =
  idle_ports :: "int list list"
  worker_id :: int
  num_assigned_app :: int

datatype pool_action = Reply int | Spawn nat int

definition enqueue_port :: "int \<Rightarrow> int list \<Rightarrow> int list" where
  "enqueue_port p q = q @ [p]"

definition dequeue_port :: "int list \<Rightarrow> int \<times> int list" where
  "dequeue_port q = (case q of [] \<Rightarrow> (0, []) | p # q \<Rightarrow> (p, q))"

definition get_worker_port :: "pool_config \<Rightarrow> int \<Rightarrow> int" where
  "get_worker_port c i = worker_port_base c + i"

text \<open>\<open>atoi\<close> of a string of one character.\<close>

definition atoi_char :: "char \<Rightarrow> nat" where
  "atoi_char ch = (case digit_val ch of None \<Rightarrow> 0 | Some d \<Rightarrow> d)"

text \<open>A UUID, an index of one digit, or the next GPU in turn. Without GPUs the remainder is a division by zero.\<close>

definition get_gpu_id_from_uuid :: "pool_config \<Rightarrow> string \<Rightarrow> pool_manager \<Rightarrow> (nat \<times> pool_manager) res" where
  "get_gpu_id_from_uuid c gpu_uuid m =
     (case find (\<lambda>i. visible_uuid c ! i = gpu_uuid) [0..<length (visible_uuid c)] of
        Some i \<Rightarrow> Inr (i, m)
      | None \<Rightarrow>
          if length gpu_uuid > 0 \<and> length gpu_uuid < 2 then Inr (atoi_char (gpu_uuid ! 0), m)
          else if visible_uuid c = [] then Inl (Aborted ''division by zero'')
          else Inr (nat (num_assigned_app m mod int (length (visible_uuid c))), m\<lparr>num_assigned_app := num_assigned_app m + 1\<rparr>))"

section \<open>Handling a connection\<close>

datatype pool_request = New_application string | Start_migration int | Other_message

text \<open>\<open>spawn_new\<close>: a port is drawn and a worker is started with it.\<close>

definition spawn_new :: "pool_config \<Rightarrow> nat \<Rightarrow> pool_manager \<Rightarrow> int \<times> pool_manager" where
  "spawn_new c gpu m = (get_worker_port c (worker_id m), m\<lparr>worker_id := worker_id m + 1\<rparr>)"

text \<open>The table that migration looks up is never filled, so a migration request ends the manager.\<close>

definition handle_guestlib :: "pool_config \<Rightarrow> pool_request \<Rightarrow> pool_manager \<Rightarrow> (pool_action list \<times> pool_manager) res" where
  "handle_guestlib c req m =
     (case req of
        New_application gpu_uuid \<Rightarrow>
          rbind (get_gpu_id_from_uuid c gpu_uuid m) (\<lambda>(gpu, m).
          if length (idle_ports m) \<le> gpu then Inl OutOfBounds
          else let (prt, q) = dequeue_port (idle_ports m ! gpu); m = m\<lparr>idle_ports := (idle_ports m)[gpu := q]\<rparr>
               in if worker_pool_enabled c \<and> prt \<noteq> 0
                  then if of_nat (length q) > worker_pool_size c - 1 then Inr ([Reply prt], m)
                       else let (new, m) = spawn_new c gpu m
                            in Inr ([Reply prt, Spawn gpu new], m\<lparr>idle_ports := (idle_ports m)[gpu := enqueue_port new q]\<rparr>)
                  else let (new, m) = spawn_new c gpu m in Inr ([Spawn gpu new, Reply new], m))
      | Start_migration prt \<Rightarrow> Inl (ExitProc 0)
      | Other_message \<Rightarrow> Inr ([], m))"

text \<open>Start-up: the pools are filled GPU by GPU.\<close>

definition fill_pool :: "pool_config \<Rightarrow> nat \<Rightarrow> pool_action list \<times> pool_manager \<Rightarrow> pool_action list \<times> pool_manager" where
  "fill_pool c i s =
     foldl (\<lambda>(as, m) _. let prt = get_worker_port c (worker_id m)
              in (as @ [Spawn i prt], m\<lparr>idle_ports := (idle_ports m)[i := enqueue_port prt (idle_ports m ! i)], worker_id := worker_id m + 1\<rparr>))
       s [0..<unat (worker_pool_size c)]"

definition pool_start :: "pool_config \<Rightarrow> pool_action list \<times> pool_manager" where
  "pool_start c =
     (let n = length (visible_uuid c); m = \<lparr>idle_ports = replicate n [], worker_id = 1, num_assigned_app = 0\<rparr>
      in if worker_pool_enabled c then foldl (\<lambda>s i. fill_pool c i s) ([], m) [0..<n] else ([], m))"


section \<open>The invariant\<close>

definition replies :: "pool_action list \<Rightarrow> int list" where
  "replies as = concat (map (\<lambda>a. case a of Reply p \<Rightarrow> [p] | Spawn _ _ \<Rightarrow> []) as)"

definition spawned :: "pool_action list \<Rightarrow> int list" where
  "spawned as = concat (map (\<lambda>a. case a of Reply _ \<Rightarrow> [] | Spawn _ p \<Rightarrow> [p]) as)"

lemma action_lists [simp]:
  "replies [] = []" "spawned [] = []"
  "replies (as @ bs) = replies as @ replies bs" "spawned (as @ bs) = spawned as @ spawned bs"
  "replies (Reply p # as) = p # replies as" "spawned (Reply p # as) = spawned as"
  "replies (Spawn i p # as) = replies as" "spawned (Spawn i p # as) = p # spawned as"
  by (simp_all add: replies_def spawned_def)










section \<open>Start-up\<close>





definition ex_pool_config :: pool_config where
  "ex_pool_config = \<lparr>worker_port_base = 4000, worker_pool_size = 1, worker_pool_enabled = True, visible_uuid = [''GPU-a'', ''GPU-b'']\<rparr>"


text \<open>A single digit is taken as an index without a check.\<close>

lemma gpu_index_out_of_bounds:
  "handle_guestlib ex_pool_config (New_application ''9'') (snd (pool_start ex_pool_config)) = Inl OutOfBounds"
  by (simp add: ex_pool_config_def pool_start_def fill_pool_def handle_guestlib_def get_gpu_id_from_uuid_def atoi_char_def digit_val_def Let_def)

end
