(* ===== verification/Spawn_Daemon.thy ===== *)
theory Spawn_Daemon
  imports Gpu_Manager Provision_Gpu
begin

text \<open>
  The spawn daemon of a GPU server (\<open>worker/katana/spawn_daemon.cpp\<close>, and \<open>worker/galvanic/spawn_daemon.cpp\<close> for one GPU): its options and the
  file of visible GPUs, the messages to the manager, the service that forks API servers, their environment, and the
  monitors of their end; and how an API server reads this environment (\<open>main\<close> of \<open>worker/worker.cpp\<close>). The answers of \<open>realpath\<close>, NVML, \<open>fork\<close>
  and \<open>execvpe\<close> are parameters. The counter of workers is an \<open>int\<close> of the program and unbounded here.
\<close>

section \<open>Options\<close>

definition atoi :: "string \<Rightarrow> int" where
  "atoi s =
     (let s = dropWhile is_space s;
          neg = (s \<noteq> [] \<and> s ! 0 = CHR ''-'');
          s = (if s \<noteq> [] \<and> (s ! 0 = CHR ''-'' \<or> s ! 0 = CHR ''+'') then tl s else s);
          v = (if neg then - int (read_digits 0 s) else int (read_digits 0 s))
      in signed_take_bit 31 (max (- (2 ^ 63)) (min (2 ^ 63 - 1) v)))"

record gpu_info =
  g_uuid :: string
  g_free_memory :: u64

record daemon_config =
  config_file :: string
  worker_path :: string
  daemon_address :: server_address
  manager_address :: server_address
  worker_port_base :: int
  visible_cuda_devices :: "gpu_info list"

record galvanic_config = daemon_config +
  worker_pool_size :: int

definition kDefaultManagerAddress :: string where
  "kDefaultManagerAddress = ''0.0.0.0:3334''"

definition kDefaultDaemonAddress :: string where
  "kDefaultDaemonAddress = ''0.0.0.0:3335''"

definition kDefaultWorkerPortBase :: int where
  "kDefaultWorkerPortBase = 4000"

definition kDefaultWorkerPoolSize :: int where
  "kDefaultWorkerPoolSize = 3"

text \<open>The options as \<open>getopt\<close> delivers them: the character and its argument, with \<open>?\<close> for an unknown option or a missing argument.\<close>

record daemon_options =
  opt_file :: "string option"
  opt_worker :: "string option"
  opt_manager :: string
  opt_daemon :: string
  opt_base :: int
  opt_pool :: int

definition default_options :: daemon_options where
  "default_options = \<lparr>opt_file = None, opt_worker = None, opt_manager = kDefaultManagerAddress, opt_daemon = kDefaultDaemonAddress,
     opt_base = kDefaultWorkerPortBase, opt_pool = kDefaultWorkerPoolSize\<rparr>"

fun read_options :: "bool \<Rightarrow> (char \<times> string) list \<Rightarrow> daemon_options \<Rightarrow> daemon_options res" where
  "read_options pooled [] op = Inr op"
| "read_options pooled ((c, arg) # opts) op =
     (if c = CHR ''f'' then read_options pooled opts (op\<lparr>opt_file := Some arg\<rparr>)
      else if c = CHR ''w'' then read_options pooled opts (op\<lparr>opt_worker := Some arg\<rparr>)
      else if c = CHR ''m'' then read_options pooled opts (op\<lparr>opt_manager := arg\<rparr>)
      else if c = CHR ''d'' then read_options pooled opts (op\<lparr>opt_daemon := arg\<rparr>)
      else if c = CHR ''b'' then read_options pooled opts (op\<lparr>opt_base := atoi arg\<rparr>)
      else if c = CHR ''n'' \<and> pooled then read_options pooled opts (op\<lparr>opt_pool := atoi arg\<rparr>)
      else Inl (ExitProc 1))"

text \<open>The two programs differ in the option \<open>n\<close> only. A relative path that does not resolve ends the program, and an invalid address throws.\<close>

definition daemon_arguments :: "bool \<Rightarrow> (string \<Rightarrow> string option) \<Rightarrow> (char \<times> string) list \<Rightarrow> (daemon_config \<times> int) res" where
  "daemon_arguments pooled realpath opts =
     rbind (read_options pooled opts default_options) (\<lambda>op.
     case opt_file op of None \<Rightarrow> Inl (ExitProc 1)
     | Some f \<Rightarrow>
     case opt_worker op of None \<Rightarrow> Inl (ExitProc 1)
     | Some w \<Rightarrow>
     case realpath w of None \<Rightarrow> Inl (ExitProc 1)
     | Some path \<Rightarrow>
     rbind (ServerAddress_parse (opt_manager op)) (\<lambda>ma.
     rbind (ServerAddress_parse (opt_daemon op)) (\<lambda>da.
     Inr (\<lparr>config_file = f, worker_path = path, daemon_address = da, manager_address = ma, worker_port_base = opt_base op, visible_cuda_devices = []\<rparr>,
          opt_pool op))))"

definition parse_arguments :: "(string \<Rightarrow> string option) \<Rightarrow> (char \<times> string) list \<Rightarrow> daemon_config res" where
  "parse_arguments realpath opts = rbind (daemon_arguments False realpath opts) (\<lambda>(c, _). Inr c)"

definition parse_arguments_galvanic :: "(string \<Rightarrow> string option) \<Rightarrow> (char \<times> string) list \<Rightarrow> galvanic_config res" where
  "parse_arguments_galvanic realpath opts =
     rbind (daemon_arguments True realpath opts) (\<lambda>(c, pool). Inr (daemon_config.extend c \<lparr>worker_pool_size = pool\<rparr>))"

section \<open>The file of visible GPUs\<close>

text \<open>The lines that \<open>getline\<close> delivers before it fails.\<close>

function file_lines :: "string \<Rightarrow> string list" where
  "file_lines [] = []"
| "file_lines (c # s) = takeWhile (\<lambda>x. x \<noteq> CHR 0x0A) (c # s) # file_lines (tl (dropWhile (\<lambda>x. x \<noteq> CHR 0x0A) (c # s)))"
  by pat_completeness auto
termination
proof (relation "measure length")
  show "(tl (dropWhile (\<lambda>x. x \<noteq> CHR 0x0A) (c # s)), c # s) \<in> measure length" for c s
    using length_dropWhile_le [of "\<lambda>x. x \<noteq> CHR 0x0A" "c # s"] by (simp add: le_imp_less_Suc)
qed simp

text \<open>\<open>by_uuid\<close> and \<open>memory_info\<close> are NVML: a handle for a UUID and the free memory of a device, or an error. A line without \<open>=\<close> reads from behind a null
  pointer.\<close>

fun read_devices :: "(string \<Rightarrow> 'd option) \<Rightarrow> ('d \<Rightarrow> u64 option) \<Rightarrow> string list \<Rightarrow> gpu_info list \<Rightarrow> gpu_info list res" where
  "read_devices by_uuid memory_info [] devs = Inr devs"
| "read_devices by_uuid memory_info (line # lines) devs =
     (let cstr = takeWhile (\<lambda>x. x \<noteq> CHR 0x00) line
      in case find_char (CHR ''='') cstr of
           None \<Rightarrow> Inl NullDeref
         | Some k \<Rightarrow>
         case by_uuid (drop (k + 1) cstr) of
           None \<Rightarrow> Inl (ExitProc (- 1))
         | Some dev \<Rightarrow>
         case memory_info dev of
           None \<Rightarrow> Inl (ExitProc (- 1))
         | Some mem \<Rightarrow> read_devices by_uuid memory_info lines (devs @ [\<lparr>g_uuid = drop (k + 1) cstr, g_free_memory = mem\<rparr>]))"

definition parseConfigFile ::
  "bool \<Rightarrow> (string \<Rightarrow> 'd option) \<Rightarrow> ('d \<Rightarrow> u64 option) \<Rightarrow> string \<Rightarrow> 'c daemon_config_scheme \<Rightarrow> 'c daemon_config_scheme res" where
  "parseConfigFile nvml_ok by_uuid memory_info content c =
     (if \<not> nvml_ok then Inl (ExitProc (- 1))
      else rbind (read_devices by_uuid memory_info (file_lines content) (visible_cuda_devices c)) (\<lambda>devs. Inr (c\<lparr>visible_cuda_devices := devs\<rparr>)))"

section \<open>Messages to the manager\<close>

text \<open>The fields of a registration: address, free memory and UUIDs.\<close>

definition RegisterDaemon_client :: "'c daemon_config_scheme \<Rightarrow> server_address \<Rightarrow> string \<times> u64 list \<times> string list" where
  "RegisterDaemon_client c self_address = (GetAddress self_address, map g_free_memory (visible_cuda_devices c), map g_uuid (visible_cuda_devices c))"

definition worker_address :: "'c daemon_config_scheme \<Rightarrow> int \<Rightarrow> string" where
  "worker_address c p = ip (daemon_address c) @ '':'' @ to_string p"

definition NotifyWorkerExit_client :: "'c daemon_config_scheme \<Rightarrow> int \<Rightarrow> string list \<Rightarrow> string \<times> string list" where
  "NotifyWorkerExit_client c worker_port uuids = (worker_address c worker_port, uuids)"

section \<open>The environment of an API server\<close>

text \<open>A UUID that occurred before is left out.\<close>

fun unseen :: "string list \<Rightarrow> string list \<Rightarrow> string list" where
  "unseen seen [] = []"
| "unseen seen (u # us) = (if u \<in> set seen then unseen (seen @ [u]) us else u # unseen (seen @ [u]) us)"

definition append_list :: "string \<Rightarrow> string list \<Rightarrow> string" where
  "append_list s us = foldl (\<lambda>s u. s @ '','' @ u) s us"

text \<open>A request of 0 bytes stands for all the memory of the GPU.\<close>

definition adjusted_memory :: "gpu_info list \<Rightarrow> string list \<Rightarrow> u64 list \<Rightarrow> u64 list" where
  "adjusted_memory devs uuids gpu_mem =
     map (\<lambda>(u, g). if g = 0 then (case find (\<lambda>gi. g_uuid gi = u) devs of None \<Rightarrow> g | Some gi \<Rightarrow> g_free_memory gi) else g) (zip uuids gpu_mem)"

definition worker_environment :: "'c daemon_config_scheme \<Rightarrow> string list \<Rightarrow> u64 list \<Rightarrow> string list res" where
  "worker_environment c uuids gpu_mem =
     (let mem = adjusted_memory (visible_cuda_devices c) uuids gpu_mem
      in if uuids = [] \<or> mem = [] then Inl OutOfBounds
         else Inr [append_list (''CUDA_VISIBLE_DEVICES='' @ hd uuids) (unseen [hd uuids] (tl uuids)), ''AVA_CHANNEL=TCP'',
                   append_list (''AVA_GPU_MEMORY='' @ to_string (uint (hd mem))) (map (\<lambda>g. to_string (uint g)) (tl mem)),
                   append_list (''AVA_GPU_UUID='' @ hd uuids) (tl uuids)])"

section \<open>The service\<close>

record monitor =
  m_pid :: int
  m_uuids :: "string list"

record daemon_state =
  worker_id :: int
  worker_monitor_map :: "int \<rightharpoonup> monitor"

definition DaemonServiceImpl :: daemon_state where
  "DaemonServiceImpl = \<lparr>worker_id = 0, worker_monitor_map = Map.empty\<rparr>"

definition GetWorkerPort :: "'c daemon_config_scheme \<Rightarrow> daemon_state \<Rightarrow> int \<times> daemon_state" where
  "GetWorkerPort c s = (worker_port_base c + worker_id s, s\<lparr>worker_id := worker_id s + 1\<rparr>)"

text \<open>\<open>fork\<close> splits the process. A process goes on with a port, or becomes the program of the given path with the given environment. The argument of this
  program is a string that was destroyed before the call, so it has no value here.\<close>

datatype 'a process = Continues 'a | Executes string "string list"

definition insert_monitor :: "int \<Rightarrow> monitor \<Rightarrow> daemon_state \<Rightarrow> daemon_state" where
  "insert_monitor p mon s =
     (case worker_monitor_map s p of None \<Rightarrow> s\<lparr>worker_monitor_map := (worker_monitor_map s)(p \<mapsto> mon)\<rparr> | Some _ \<Rightarrow> s)"

definition SpawnWorker_fork ::
  "int \<Rightarrow> bool \<Rightarrow> 'c daemon_config_scheme \<Rightarrow> string list \<Rightarrow> u64 list \<Rightarrow> daemon_state \<Rightarrow> (int process \<times> daemon_state) res" where
  "SpawnWorker_fork pid exec_ok c uuids gpu_mem s =
     (let (p, s) = GetWorkerPort c s
      in if uuids = [] then Inl OutOfBounds
         else if pid \<noteq> 0 then Inr (Continues p, insert_monitor p \<lparr>m_pid = pid, m_uuids = uuids\<rparr> s)
         else rbind (worker_environment c uuids gpu_mem) (\<lambda>env.
              Inr (if exec_ok then Executes (worker_path c) env else Continues p, s)))"

text \<open>The loop of the service in one process; \<open>pids\<close> are the answers of the calls of \<open>fork\<close>, one for each API server.\<close>

fun spawn_loop ::
  "bool \<Rightarrow> 'c daemon_config_scheme \<Rightarrow> string list \<Rightarrow> u64 list \<Rightarrow> int list \<Rightarrow> string list \<Rightarrow> daemon_state \<Rightarrow> (string list process \<times> daemon_state) res" where
  "spawn_loop exec_ok c uuids gpu_mem [] acc s = Inr (Continues acc, s)"
| "spawn_loop exec_ok c uuids gpu_mem (pid # pids) acc s =
     rbind (SpawnWorker_fork pid exec_ok c uuids gpu_mem s) (\<lambda>(r, s).
     case r of Executes path env \<Rightarrow> Inr (Executes path env, s)
     | Continues p \<Rightarrow> spawn_loop exec_ok c uuids gpu_mem pids (acc @ [worker_address c p]) s)"

definition SpawnWorker_service ::
  "(nat \<Rightarrow> int) \<Rightarrow> bool \<Rightarrow> 'c daemon_config_scheme \<Rightarrow> u32 \<Rightarrow> string list option \<Rightarrow> u64 list option \<Rightarrow> daemon_state \<Rightarrow>
   (string list status process \<times> daemon_state) res" where
  "SpawnWorker_service fork exec_ok c cnt uuid_field mem_field s =
     (let uuids = (case uuid_field of None \<Rightarrow> [] | Some us \<Rightarrow> us); gpu_mem = (case mem_field of None \<Rightarrow> [] | Some gm \<Rightarrow> gm)
      in if cnt = 0 \<or> length uuids \<noteq> length gpu_mem then Inr (Continues Invalid_argument, s)
         else rbind (spawn_loop exec_ok c uuids gpu_mem (map fork [0..<unat cnt]) [] s) (\<lambda>(r, s).
              Inr (case r of Continues ws \<Rightarrow> Continues (Ok_status ws) | Executes path env \<Rightarrow> Executes path env, s)))"

text \<open>The monitor sends its message and then erases the entry of its own thread, which ends the program when the entry is there. The result is the message
  and what follows.\<close>

definition MonitorWorkerExit ::
  "'c daemon_config_scheme \<Rightarrow> int \<Rightarrow> string list \<Rightarrow> daemon_state \<Rightarrow> (string \<times> string list) option \<times> daemon_state res" where
  "MonitorWorkerExit c p uuids s =
     (if uuids = [] then (None, Inl OutOfBounds)
      else (Some (NotifyWorkerExit_client c p uuids),
            case worker_monitor_map s p of None \<Rightarrow> Inr s | Some _ \<Rightarrow> Inl (Aborted ''terminate: destruction of a joinable thread'')))"

section \<open>The daemon for one GPU\<close>

definition NotifyWorkerExit_galvanic_client :: "'c daemon_config_scheme \<Rightarrow> int \<Rightarrow> string \<Rightarrow> string \<times> string list" where
  "NotifyWorkerExit_galvanic_client c worker_port u = (worker_address c worker_port, [u])"

definition MonitorWorkerExit_galvanic :: "'c daemon_config_scheme \<Rightarrow> int \<Rightarrow> string \<Rightarrow> daemon_state \<Rightarrow> (string \<times> string list) \<times> daemon_state res" where
  "MonitorWorkerExit_galvanic c p u s =
     (NotifyWorkerExit_galvanic_client c p u,
      case worker_monitor_map s p of None \<Rightarrow> Inr s | Some _ \<Rightarrow> Inl (Aborted ''terminate: destruction of a joinable thread''))"

definition worker_environment_galvanic :: "string \<Rightarrow> string list" where
  "worker_environment_galvanic u = [''CUDA_VISIBLE_DEVICES='' @ u, ''AVA_CHANNEL=TCP'']"

definition SpawnWorker_fork_galvanic ::
  "int \<Rightarrow> bool \<Rightarrow> 'c daemon_config_scheme \<Rightarrow> string \<Rightarrow> daemon_state \<Rightarrow> int process \<times> daemon_state" where
  "SpawnWorker_fork_galvanic pid exec_ok c u s =
     (let (p, s) = GetWorkerPort c s
      in if pid \<noteq> 0 then (Continues p, insert_monitor p \<lparr>m_pid = pid, m_uuids = [u]\<rparr> s)
         else (if exec_ok then Executes (worker_path c) (worker_environment_galvanic u) else Continues p, s))"

fun spawn_loop_galvanic ::
  "bool \<Rightarrow> 'c daemon_config_scheme \<Rightarrow> string \<Rightarrow> int list \<Rightarrow> string list \<Rightarrow> daemon_state \<Rightarrow> string list process \<times> daemon_state" where
  "spawn_loop_galvanic exec_ok c u [] acc s = (Continues acc, s)"
| "spawn_loop_galvanic exec_ok c u (pid # pids) acc s =
     (case SpawnWorker_fork_galvanic pid exec_ok c u s of
        (Executes path env, s) \<Rightarrow> (Executes path env, s)
      | (Continues p, s) \<Rightarrow> spawn_loop_galvanic exec_ok c u pids (acc @ [worker_address c p]) s)"

definition SpawnWorker_service_galvanic ::
  "(nat \<Rightarrow> int) \<Rightarrow> bool \<Rightarrow> 'c daemon_config_scheme \<Rightarrow> u32 \<Rightarrow> string option \<Rightarrow> daemon_state \<Rightarrow> string list status process \<times> daemon_state" where
  "SpawnWorker_service_galvanic fork exec_ok c cnt uuid_field s =
     (case uuid_field of
        None \<Rightarrow> (Continues Invalid_argument, s)
      | Some u \<Rightarrow>
          if cnt = 0 \<or> u = [] then (Continues Invalid_argument, s)
          else case spawn_loop_galvanic exec_ok c u (map fork [0..<unat cnt]) [] s of
                 (Continues ws, s) \<Rightarrow> (Continues (Ok_status ws), s)
               | (Executes path env, s) \<Rightarrow> (Executes path env, s))"

section \<open>The start of an API server\<close>

fun getenv :: "string \<Rightarrow> string list \<Rightarrow> string option" where
  "getenv name [] = None"
| "getenv name (e # env) = (if take (length name + 1) e = name @ ''='' then Some (drop (length name + 1) e) else getenv name env)"

definition worker_provision :: "string list \<Rightarrow> provision_gpu res" where
  "worker_provision env =
     (let get = (\<lambda>name. case getenv name env of None \<Rightarrow> [] | Some v \<Rightarrow> v)
      in ProvisionGpu (get ''CUDA_VISIBLE_DEVICES'') (get ''AVA_GPU_UUID'') (get ''AVA_GPU_MEMORY''))"

section \<open>The worker gets what the daemon was asked for\<close>

lemma append_list_join: "append_list (p @ s) ss = p @ join_commas (s # ss)"
proof (induction ss arbitrary: s)
  case (Cons t ss)
  show ?case using Cons.IH [of "s @ '','' @ t"] Cons.IH [of t] by (cases ss) (simp_all add: append_list_def)
qed (simp add: append_list_def)

lemma set_unseen: "set (unseen seen us) = set us - set seen"
  by (induction us arbitrary: seen) auto

lemma distinct_unseen: "distinct (unseen seen us)"
  by (induction us arbitrary: seen) (auto simp: set_unseen)

definition visible_devices :: "string list \<Rightarrow> string list" where
  "visible_devices uuids = hd uuids # unseen [hd uuids] (tl uuids)"

lemma visible_devices_set: "uuids \<noteq> [] \<Longrightarrow> set (visible_devices uuids) = set uuids \<and> distinct (visible_devices uuids)"
  by (cases uuids) (auto simp: visible_devices_def set_unseen distinct_unseen)

lemma adjusted_memory_length: "length (adjusted_memory devs uuids gpu_mem) = min (length uuids) (length gpu_mem)"
  by (simp add: adjusted_memory_def)

lemma worker_environment_join:
  assumes "uuids \<noteq> []" "length gpu_mem = length uuids"
  shows "worker_environment c uuids gpu_mem = Inr [''CUDA_VISIBLE_DEVICES='' @ join_commas (visible_devices uuids), ''AVA_CHANNEL=TCP'',
    ''AVA_GPU_MEMORY='' @ join_commas (map (\<lambda>g. to_string (uint g)) (adjusted_memory (visible_cuda_devices c) uuids gpu_mem)),
    ''AVA_GPU_UUID='' @ join_commas uuids]"
proof -
  let ?mem = "adjusted_memory (visible_cuda_devices c) uuids gpu_mem"
  have m: "?mem \<noteq> []" using assms adjusted_memory_length [of "visible_cuda_devices c" uuids gpu_mem] by (metis length_0_conv min.idem)
  then have "map f ?mem = f (hd ?mem) # map f (tl ?mem)" for f :: "u64 \<Rightarrow> string" by (cases ?mem) simp_all
  moreover have "uuids = hd uuids # tl uuids" using assms(1) by simp
  ultimately show ?thesis using assms(1) m by (simp only: worker_environment_def append_list_join visible_devices_def Let_def if_False simp_thms)
qed

text \<open>C14: An API server started by the daemon comes up with exactly the GPUs and memory sizes of the request, in the order of the request, where a
  size of 0 is the free memory of the GPU. It sees each of these GPUs once, and every provisioned GPU is the real one with its UUID.\<close>

theorem spawned_worker_provisioned:
  assumes "listable uuids" "length gpu_mem = length uuids" "\<forall>g \<in> set (adjusted_memory (visible_cuda_devices c) uuids gpu_mem). g < 2 ^ 63"
    "length uuids < 2 ^ 32"
  shows "\<exists>env p. SpawnWorker_fork 0 True c uuids gpu_mem s = Inr (Executes (worker_path c) env, snd (GetWorkerPort c s)) \<and>
    worker_provision env = Inr p \<and> provision_ok (visible_devices uuids) p \<and> distinct (visible_devices uuids) \<and> set (visible_devices uuids) = set uuids \<and>
    uuid_of p = uuids \<and> memory_of p = adjusted_memory (visible_cuda_devices c) uuids gpu_mem \<and> free_memory_of p = memory_of p"
proof -
  let ?mem = "adjusted_memory (visible_cuda_devices c) uuids gpu_mem"
  have ne: "uuids \<noteq> []" using assms(1) by (simp add: listable_def)
  note v = visible_devices_set [OF ne]
  have lv: "listable (visible_devices uuids)" using assms(1) v by (simp add: listable_def visible_devices_def)
  have "length (visible_devices uuids) \<le> length uuids" using v by (metis card_length distinct_card)
  then have "length (visible_devices uuids) < 2 ^ 32" using assms(4) by simp
  moreover have "length ?mem = length uuids" using assms(2) by (simp add: adjusted_memory_length)
  moreover have "set uuids \<subseteq> set (visible_devices uuids)" using v by simp
  ultimately obtain p where p: "ProvisionGpu (join_commas (visible_devices uuids)) (join_commas uuids) (join_commas (map (\<lambda>v. to_string (uint v)) ?mem)) = Inr p"
      "provision_ok (visible_devices uuids) p" "uuid_of p = uuids" "memory_of p = ?mem" "free_memory_of p = ?mem"
    using provision_startup [OF lv assms(1) _ _ assms(3)] by blast
  show ?thesis using p v worker_environment_join [OF ne assms(2), of c] ne
    by (simp add: SpawnWorker_fork_def worker_provision_def case_prod_beta Let_def)
qed

definition sample_config :: daemon_config where
  "sample_config = \<lparr>config_file = ''gpu.conf'', worker_path = ''/worker'', daemon_address = \<lparr>ip = ''h'', port = 1\<rparr>, manager_address = \<lparr>ip = ''m'', port = 3334\<rparr>,
     worker_port_base = 4000, visible_cuda_devices = [\<lparr>g_uuid = ''A'', g_free_memory = 8\<rparr>, \<lparr>g_uuid = ''B'', g_free_memory = 5\<rparr>]\<rparr>"

theorem spawned_worker_provisioned_witness:
  "\<exists>env p. SpawnWorker_fork 0 True sample_config [''B'', ''A'', ''B''] [0, 3, 2] DaemonServiceImpl = Inr (Executes ''/worker'' env, DaemonServiceImpl\<lparr>worker_id := 1\<rparr>) \<and>
    worker_provision env = Inr p \<and> uuid_of p = [''B'', ''A'', ''B''] \<and> memory_of p = [5, 3, 2]"
  using spawned_worker_provisioned [of "[''B'', ''A'', ''B'']" "[0, 3, 2]" sample_config DaemonServiceImpl]
  by (auto simp: listable_def adjusted_memory_def sample_config_def GetWorkerPort_def DaemonServiceImpl_def)

section \<open>Ports and monitors\<close>

lemma to_string_inj: "to_string i = to_string j \<Longrightarrow> i = j"
proof -
  assume e: "to_string i = to_string j"
  define b where "b = nat (\<bar>i\<bar> + \<bar>j\<bar>)"
  have "int b < int (2 ^ b)" by (simp only: of_nat_less_iff less_exp)
  moreover have "int b = \<bar>i\<bar> + \<bar>j\<bar>" unfolding b_def by linarith
  ultimately have "- (2 ^ b) \<le> i" "i < 2 ^ b" "- (2 ^ b) \<le> j" "j < 2 ^ b" unfolding of_nat_power of_nat_numeral by linarith+
  then have "string_to_int [] b (to_string i) = Inr i" "string_to_int [] b (to_string j) = Inr j"
    using string_to_int_to_string [of b i "[]"] string_to_int_to_string [of b j "[]"] by blast+
  with e show ?thesis by (metis sum.inject(2))
qed

lemma worker_address_inj: "worker_address c p = worker_address c q \<longleftrightarrow> p = q"
  using to_string_inj by (auto simp: worker_address_def)

text \<open>The ports of the monitors were handed out before.\<close>

definition daemon_ok :: "'c daemon_config_scheme \<Rightarrow> daemon_state \<Rightarrow> bool" where
  "daemon_ok c s \<longleftrightarrow> (\<forall>p \<in> dom (worker_monitor_map s). p < worker_port_base c + worker_id s)"

lemma SpawnWorker_fork_parent:
  assumes "daemon_ok c s" "pid \<noteq> 0" "uuids \<noteq> []"
  shows "SpawnWorker_fork pid e c uuids gpu_mem s = Inr (Continues (worker_port_base c + worker_id s),
    s\<lparr>worker_id := worker_id s + 1, worker_monitor_map := (worker_monitor_map s)(worker_port_base c + worker_id s \<mapsto> \<lparr>m_pid = pid, m_uuids = uuids\<rparr>)\<rparr>)"
proof -
  have "worker_monitor_map s (worker_port_base c + worker_id s) = None" using assms(1) by (fastforce simp: daemon_ok_def dom_def)
  then show ?thesis using assms by (simp add: SpawnWorker_fork_def GetWorkerPort_def insert_monitor_def)
qed

lemma spawn_loop_parent:
  assumes "daemon_ok c s" "0 \<notin> set pids" "uuids \<noteq> []"
  shows "\<exists>s'. spawn_loop e c uuids gpu_mem pids acc s =
      Inr (Continues (acc @ map (\<lambda>i. worker_address c (worker_port_base c + worker_id s + int i)) [0..<length pids]), s') \<and>
    daemon_ok c s' \<and> worker_id s' = worker_id s + int (length pids) \<and>
    (\<forall>p. worker_monitor_map s' p =
       (if worker_port_base c + worker_id s \<le> p \<and> p < worker_port_base c + worker_id s'
        then Some \<lparr>m_pid = pids ! nat (p - worker_port_base c - worker_id s), m_uuids = uuids\<rparr> else worker_monitor_map s p))"
  using assms(1,2)
proof (induction pids arbitrary: acc s)
  case (Cons pid pids)
  let ?p = "worker_port_base c + worker_id s"
  let ?s = "s\<lparr>worker_id := worker_id s + 1, worker_monitor_map := (worker_monitor_map s)(?p \<mapsto> \<lparr>m_pid = pid, m_uuids = uuids\<rparr>)\<rparr>"
  have f: "SpawnWorker_fork pid e c uuids gpu_mem s = Inr (Continues ?p, ?s)" using Cons.prems assms(3) by (intro SpawnWorker_fork_parent) auto
  have "p < worker_port_base c + (worker_id s + 1)" if "p \<in> dom (worker_monitor_map s)" for p
    using bspec [OF Cons.prems(1) [unfolded daemon_ok_def] that] by simp
  then have ok: "daemon_ok c ?s" by (simp add: daemon_ok_def)
  obtain s' where s': "spawn_loop e c uuids gpu_mem pids (acc @ [worker_address c ?p]) ?s =
      Inr (Continues ((acc @ [worker_address c ?p]) @ map (\<lambda>i. worker_address c (worker_port_base c + worker_id ?s + int i)) [0..<length pids]), s')"
      "daemon_ok c s'" "worker_id s' = worker_id ?s + int (length pids)"
      "\<forall>p. worker_monitor_map s' p = (if worker_port_base c + worker_id ?s \<le> p \<and> p < worker_port_base c + worker_id s'
        then Some \<lparr>m_pid = pids ! nat (p - worker_port_base c - worker_id ?s), m_uuids = uuids\<rparr> else worker_monitor_map ?s p)"
    using Cons.IH [OF ok, of "acc @ [worker_address c ?p]"] Cons.prems(2) by auto
  have a: "[0..<length (pid # pids)] = 0 # map Suc [0..<length pids]" by (simp only: length_Cons map_Suc_upt upt_conv_Cons zero_less_Suc)
  have "worker_monitor_map s' p = (if ?p \<le> p \<and> p < worker_port_base c + worker_id s'
        then Some \<lparr>m_pid = (pid # pids) ! nat (p - worker_port_base c - worker_id s), m_uuids = uuids\<rparr> else worker_monitor_map s p)" for p
  proof (cases "p = ?p")
    case False
    have "nat (p - worker_port_base c - worker_id s) = Suc (nat (p - worker_port_base c - (worker_id s + 1)))" if "?p < p" using that by linarith
    then show ?thesis using False s'(4) by auto
  qed (use s'(3,4) in simp)
  then show ?case using f s'(1-3) unfolding a by (intro exI [of _ s']) (simp add: add_ac o_def)
qed auto

text \<open>C25: A request for several API servers starts them on consecutive ports that were not used before. Each address is returned once, and each server has a
  monitor that knows its process and its GPUs, while the other monitors stay.\<close>

theorem daemon_spawns:
  assumes "daemon_ok c s" "cnt \<noteq> 0" "uuids \<noteq> []" "length gpu_mem = length uuids" "\<forall>i < unat cnt. fork i \<noteq> 0"
  shows "\<exists>s' ws. SpawnWorker_service fork e c cnt (Some uuids) (Some gpu_mem) s = Inr (Continues (Ok_status ws), s') \<and>
    ws = map (\<lambda>i. worker_address c (worker_port_base c + worker_id s + int i)) [0..<unat cnt] \<and> distinct ws \<and>
    daemon_ok c s' \<and> worker_id s' = worker_id s + uint cnt \<and>
    (\<forall>p. worker_monitor_map s' p =
       (if worker_port_base c + worker_id s \<le> p \<and> p < worker_port_base c + worker_id s + uint cnt
        then Some \<lparr>m_pid = fork (nat (p - worker_port_base c - worker_id s)), m_uuids = uuids\<rparr> else worker_monitor_map s p))"
proof -
  let ?pids = "map fork [0..<unat cnt]"
  have z: "0 \<notin> set ?pids" using assms(5) by (metis atLeastLessThan_iff image_iff list.set_map set_upt)
  have n: "int (length ?pids) = uint cnt" by simp
  obtain s' where s': "spawn_loop e c uuids gpu_mem ?pids [] s =
      Inr (Continues (map (\<lambda>i. worker_address c (worker_port_base c + worker_id s + int i)) [0..<unat cnt]), s')"
      "daemon_ok c s'" "worker_id s' = worker_id s + uint cnt"
      "\<forall>p. worker_monitor_map s' p = (if worker_port_base c + worker_id s \<le> p \<and> p < worker_port_base c + worker_id s'
        then Some \<lparr>m_pid = ?pids ! nat (p - worker_port_base c - worker_id s), m_uuids = uuids\<rparr> else worker_monitor_map s p)"
    using spawn_loop_parent [OF assms(1) z assms(3), of e gpu_mem "[]"] unfolding n by (elim exE conjE) (rule that, simp, assumption+)
  have mon: "worker_monitor_map s' p =
       (if worker_port_base c + worker_id s \<le> p \<and> p < worker_port_base c + worker_id s + uint cnt
        then Some \<lparr>m_pid = fork (nat (p - worker_port_base c - worker_id s)), m_uuids = uuids\<rparr> else worker_monitor_map s p)" for p
  proof (cases "worker_port_base c + worker_id s \<le> p \<and> p < worker_port_base c + worker_id s + uint cnt")
    case True
    then have "p - worker_port_base c - worker_id s < int (unat cnt)" "0 \<le> p - worker_port_base c - worker_id s" by simp_all
    then have "nat (p - worker_port_base c - worker_id s) < unat cnt" by linarith
    then show ?thesis using True spec [OF s'(4), of p] s'(3) by (simp add: add.assoc)
  next
    case False
    then show ?thesis using spec [OF s'(4), of p] unfolding s'(3) add.assoc by (simp only: if_False)
  qed
  have "distinct (map (\<lambda>i. worker_address c (worker_port_base c + worker_id s + int i)) [0..<unat cnt])"
    by (simp add: distinct_map inj_on_def worker_address_inj)
  moreover have "SpawnWorker_service fork e c cnt (Some uuids) (Some gpu_mem) s =
      Inr (Continues (Ok_status (map (\<lambda>i. worker_address c (worker_port_base c + worker_id s + int i)) [0..<unat cnt])), s')"
    using s'(1) assms(2,4) by (simp add: SpawnWorker_service_def)
  ultimately show ?thesis using s'(2,3) mon by (intro exI conjI allI) (rule refl | assumption)+
qed

theorem daemon_spawns_witness:
  "\<exists>s' ws. SpawnWorker_service (\<lambda>i. 100 + int i) True sample_config 2 (Some [''B'', ''B'']) (Some [1, 2]) DaemonServiceImpl = Inr (Continues (Ok_status ws), s') \<and>
    distinct ws \<and> worker_monitor_map s' 4001 = Some \<lparr>m_pid = 101, m_uuids = [''B'', ''B'']\<rparr>"
proof -
  have "daemon_ok sample_config DaemonServiceImpl" by (simp add: daemon_ok_def DaemonServiceImpl_def)
  from daemon_spawns [OF this, of 2 "[''B'', ''B'']" "[1, 2]" "\<lambda>i. 100 + int i" True] show ?thesis
    by (auto simp: sample_config_def DaemonServiceImpl_def)
qed

text \<open>The first worker that ends takes the daemon with it: its monitor is in the map.\<close>

lemma first_exit_ends_daemon:
  assumes "daemon_ok c s" "pid \<noteq> 0" "uuids \<noteq> []" "SpawnWorker_fork pid e c uuids gpu_mem s = Inr (Continues p, s')"
  shows "MonitorWorkerExit c p uuids s' = (Some (worker_address c p, uuids), Inl (Aborted ''terminate: destruction of a joinable thread''))"
  using assms(4) unfolding SpawnWorker_fork_parent [OF assms(1-3)] using assms(3)
  by (auto simp: MonitorWorkerExit_def NotifyWorkerExit_client_def)

text \<open>An API server of the daemon for one GPU starts without the lists, and so it has no GPU.\<close>

lemma galvanic_worker_unprovisioned:
  "\<exists>p. worker_provision (worker_environment_galvanic u) = Inr p \<and> GetGpuCount p = 0"
proof -
  have g: "getlines [] = [[]]" using getlines_last [of "[]"] by simp
  have "worker_provision (worker_environment_galvanic u) = ProvisionGpu u [] []"
    by (simp add: worker_provision_def worker_environment_galvanic_def)
  then show ?thesis by (simp add: ProvisionGpu_def ParseGpuMemoryList_def ParseGpuUuidList_def g Init_def GetGpuCount_def)
qed

end
