(* ===== verification/Gpu_Cluster.thy ===== *)
theory Gpu_Cluster
  imports Spawn_Daemon
begin

text \<open>
  The GPU manager together with its spawn daemons: a daemon registers its GPUs, the manager asks it for an API server on the GPUs that it reserved, and
  the message that the server ended gives the memory back.
\<close>

section \<open>From the file of GPUs to the manager\<close>

lemma file_lines_Cons: "CHR 0x0A \<notin> set l \<Longrightarrow> file_lines (l @ CHR 0x0A # rest) = l # file_lines rest"
proof -
  assume n: "CHR 0x0A \<notin> set l"
  then have t: "takeWhile (\<lambda>x. x \<noteq> CHR 0x0A) (l @ CHR 0x0A # rest) = l" "dropWhile (\<lambda>x. x \<noteq> CHR 0x0A) (l @ CHR 0x0A # rest) = CHR 0x0A # rest"
    by (auto simp: takeWhile_append dropWhile_append)
  obtain c s where cs: "l @ CHR 0x0A # rest = c # s" by (cases l) auto
  show ?thesis using t unfolding cs file_lines.simps(2) by simp
qed

text \<open>A file with one line for each GPU, a name and a UUID.\<close>

definition gpu_line :: "string \<times> string \<Rightarrow> string" where
  "gpu_line nu = fst nu @ ''='' @ snd nu"

definition gpu_file :: "(string \<times> string) list \<Rightarrow> string" where
  "gpu_file nus = concat (map (\<lambda>nu. gpu_line nu @ [CHR 0x0A]) nus)"

definition plain_line :: "string \<times> string \<Rightarrow> bool" where
  "plain_line nu \<longleftrightarrow> CHR ''='' \<notin> set (fst nu) \<and> CHR 0x0A \<notin> set (gpu_line nu) \<and> CHR 0x00 \<notin> set (gpu_line nu)"

lemma file_lines_gpu_file: "list_all plain_line nus \<Longrightarrow> file_lines (gpu_file nus) = map gpu_line nus"
  by (induction nus) (simp_all add: gpu_file_def file_lines_Cons plain_line_def)

lemma find_gpu_line: "plain_line nu \<Longrightarrow> find_char (CHR ''='') (gpu_line nu) = Some (length (fst nu)) \<and> drop (length (fst nu) + 1) (gpu_line nu) = snd nu"
  by (auto simp: plain_line_def find_char_def gpu_line_def takeWhile_append)

lemma read_gpu_lines:
  assumes "list_all plain_line nus" "\<forall>nu \<in> set nus. by_uuid (snd nu) = Some (dev (snd nu)) \<and> memory_info (dev (snd nu)) = Some (mem (snd nu))"
  shows "read_devices by_uuid memory_info (map gpu_line nus) devs = Inr (devs @ map (\<lambda>nu. \<lparr>g_uuid = snd nu, g_free_memory = mem (snd nu)\<rparr>) nus)"
  using assms
proof (induction nus arbitrary: devs)
  case (Cons nu nus)
  then have p: "plain_line nu" by simp
  then have t: "takeWhile (\<lambda>x. x \<noteq> CHR 0x00) (gpu_line nu) = gpu_line nu" by (auto simp: plain_line_def takeWhile_eq_all_conv)
  show ?case unfolding list.map read_devices.simps t using Cons find_gpu_line [OF p] by (simp add: Let_def)
qed simp

lemma parse_gpu_file:
  assumes "list_all plain_line nus" "\<forall>nu \<in> set nus. by_uuid (snd nu) = Some (dev (snd nu)) \<and> memory_info (dev (snd nu)) = Some (mem (snd nu))"
  shows "parseConfigFile True by_uuid memory_info (gpu_file nus) c =
    Inr (c\<lparr>visible_cuda_devices := visible_cuda_devices c @ map (\<lambda>nu. \<lparr>g_uuid = snd nu, g_free_memory = mem (snd nu)\<rparr>) nus\<rparr>)"
  by (simp add: parseConfigFile_def file_lines_gpu_file [OF assms(1)] read_gpu_lines [OF assms])

lemma register_devices:
  assumes "std_sort srt" "manager_ok tot m" "ServerAddress_parse address = Inr a" "length mems = length uuids"
  shows "\<exists>m' new. RegisterDaemon srt (Some address) (Some uuids) (Some mems) m = Inr m' \<and> manager_ok (tot @ map unat mems) m' \<and>
    daemons m' = daemons m @ [new] \<and> d_address new = a \<and> \<not> is_dead new \<and> take (length (entries m)) (entries m') = entries m \<and>
    mset (map (\<lambda>i. (uuid (entries m' ! i), free_memory (entries m' ! i))) (gpus new)) = mset (zip uuids mems)"
proof -
  let ?n = "length (entries m)"
  let ?entry = "\<lambda>i. \<lparr>uuid = uuids ! i, free_memory = (if i < length mems then mems ! i else 0), idle_workers = [], busy_workers = [],
      worker_counter = 0, e_list = length (daemons m)\<rparr>"
  let ?h = "entries m @ map ?entry [0..<length uuids]"
  let ?new = "\<lparr>d_address = a, gpus = AddEntries srt ?h [?n..<?n + length uuids] [], is_dead = False\<rparr>"
  have R: "RegisterDaemon srt (Some address) (Some uuids) (Some mems) m = Inr \<lparr>entries = ?h, daemons = daemons m @ [?new]\<rparr>"
    using assms(3,4) by (simp add: RegisterDaemon_def deref_def Let_def)
  have g: "mset (gpus ?new) = mset [?n..<?n + length uuids]" using assms(1) by (simp add: AddEntries_def std_sort_def)
  have "mset (map (\<lambda>i. (uuid (?h ! i), free_memory (?h ! i))) (gpus ?new)) = mset (map (\<lambda>i. (uuid (?h ! i), free_memory (?h ! i))) [?n..<?n + length uuids])"
    unfolding mset_map g ..
  moreover have "map (\<lambda>i. (uuid (?h ! i), free_memory (?h ! i))) [?n..<?n + length uuids] = zip uuids mems"
    using assms(4) by (intro nth_equalityI) (simp_all add: nth_append)
  moreover have "manager_ok (tot @ map unat mems) \<lparr>entries = ?h, daemons = daemons m @ [?new]\<rparr>"
  proof -
    have "list_all2 entry_ok (map unat mems) (map ?entry [0..<length uuids])"
      using assms(4) unsigned_less [of _, where ?'a = nat and ?'b = 64] by (auto simp: list_all2_conv_all_nth entry_ok_def)
    moreover have "i < length ?h" if "i \<in> set (gpus ?new)" for i using that unfolding mset_eq_setD [OF g] by simp
    moreover have "i < length ?h" if "d \<in> set (daemons m)" "i \<in> set (gpus d)" for d i
      using assms(2) that trans_less_add1 [of i ?n] by (simp add: manager_ok_def lists_ok_def)
    ultimately show ?thesis using assms(2) by (auto simp: manager_ok_def heap_ok_def lists_ok_def list_all2_appendI)
  qed
  ultimately show ?thesis using R by (intro exI [of _ "\<lparr>entries = ?h, daemons = daemons m @ [?new]\<rparr>"] exI [of _ ?new]) simp
qed

text \<open>C15: A daemon that starts with a file of GPUs and registers makes these GPUs known to the manager: all of them, each with the memory
  that is free on it, without workers, under the daemon's address. The memory accounting of the manager holds for them and for the GPUs it had before.\<close>

theorem gpu_file_registers:
  assumes "std_sort srt" "manager_ok tot m" "list_all plain_line nus"
    "\<forall>nu \<in> set nus. by_uuid (snd nu) = Some (dev (snd nu)) \<and> memory_info (dev (snd nu)) = Some (mem (snd nu))"
    "visible_cuda_devices c = []" "ip (daemon_address c) \<noteq> []" "CHR '':'' \<notin> set (ip (daemon_address c))"
    "port (daemon_address c) \<noteq> 0" "- (2 ^ 31) \<le> port (daemon_address c)" "port (daemon_address c) < 2 ^ 31"
  shows "\<exists>c' address mems uuids m' new. parseConfigFile True by_uuid memory_info (gpu_file nus) c = Inr c' \<and>
    RegisterDaemon_client c' (daemon_address c') = (address, mems, uuids) \<and>
    RegisterDaemon srt (Some address) (Some uuids) (Some mems) m = Inr m' \<and>
    daemons m' = daemons m @ [new] \<and> d_address new = daemon_address c \<and> take (length (entries m)) (entries m') = entries m \<and>
    mset (map (\<lambda>i. (uuid (entries m' ! i), free_memory (entries m' ! i))) (gpus new)) = mset (map (\<lambda>nu. (snd nu, mem (snd nu))) nus) \<and>
    manager_ok (tot @ map (\<lambda>nu. unat (mem (snd nu))) nus) m'"
proof -
  let ?c = "c\<lparr>visible_cuda_devices := map (\<lambda>nu. \<lparr>g_uuid = snd nu, g_free_memory = mem (snd nu)\<rparr>) nus\<rparr>"
  let ?us = "map snd nus" and ?ms = "map (\<lambda>nu. mem (snd nu)) nus"
  have a: "ServerAddress_parse (GetAddress (daemon_address c)) = Inr (daemon_address c)" using assms(6-10) by (rule server_address_roundtrip)
  have P: "parseConfigFile True by_uuid memory_info (gpu_file nus) c = Inr ?c" using parse_gpu_file [OF assms(3,4), of c] assms(5) by simp
  have C: "RegisterDaemon_client ?c (daemon_address ?c) = (GetAddress (daemon_address c), ?ms, ?us)" by (simp add: RegisterDaemon_client_def o_def)
  have z: "zip ?us ?ms = map (\<lambda>nu. (snd nu, mem (snd nu))) nus" by (induction nus) simp_all
  have u: "map unat ?ms = map (\<lambda>nu. unat (mem (snd nu))) nus" by simp
  have "\<exists>m' new. RegisterDaemon srt (Some (GetAddress (daemon_address c))) (Some ?us) (Some ?ms) m = Inr m' \<and> manager_ok (tot @ map unat ?ms) m' \<and>
    daemons m' = daemons m @ [new] \<and> d_address new = daemon_address c \<and> \<not> is_dead new \<and> take (length (entries m)) (entries m') = entries m \<and>
    mset (map (\<lambda>i. (uuid (entries m' ! i), free_memory (entries m' ! i))) (gpus new)) = mset (zip ?us ?ms)"
    by (rule register_devices [OF assms(1,2) a]) simp
  then show ?thesis using P C unfolding z u by (elim exE conjE, intro exI conjI) assumption+
qed

theorem gpu_file_registers_witness:
  "\<exists>c' address mems uuids m' new. parseConfigFile True Some (\<lambda>_. Some 7) (gpu_file [(''gpu0'', ''C''), (''gpu1'', ''D'')]) (sample_config\<lparr>visible_cuda_devices := []\<rparr>) = Inr c' \<and>
    RegisterDaemon_client c' (daemon_address c') = (address, mems, uuids) \<and> RegisterDaemon key_sort (Some address) (Some uuids) (Some mems) two_gpus = Inr m' \<and>
    manager_ok [8, 5, 7, 7] m' \<and> daemons m' = daemons two_gpus @ [new] \<and> d_address new = \<lparr>ip = ''h'', port = 1\<rparr>"
proof -
  have p: "list_all plain_line [(''gpu0'', ''C''), (''gpu1'', ''D'')]" by (simp add: plain_line_def gpu_line_def)
  have "daemon_address (sample_config\<lparr>visible_cuda_devices := []\<rparr>) = \<lparr>ip = ''h'', port = 1\<rparr>" by (simp add: sample_config_def)
  with gpu_file_registers [OF key_sort_std two_gpus_ok p, of Some "\<lambda>u. u" "\<lambda>_. Some 7" "\<lambda>_. 7" "sample_config\<lparr>visible_cuda_devices := []\<rparr>"]
  show ?thesis by simp blast
qed

section \<open>The stub of a daemon\<close>

text \<open>What the manager's call \<open>SpawnWorker(1, ...)\<close> gets from the service of the daemon. A daemon that fails is an error status.\<close>

definition daemon_stub :: "(nat \<Rightarrow> int) \<Rightarrow> daemon_config \<Rightarrow> daemon_state \<Rightarrow> string list \<Rightarrow> u64 list \<Rightarrow> string list option option" where
  "daemon_stub fork c s uuids gpu_mem =
     (case SpawnWorker_service fork True c 1 (Some uuids) (Some gpu_mem) s of
        Inr (Continues (Ok_status ws), _) \<Rightarrow> Some (Some ws)
      | _ \<Rightarrow> None)"

lemma SpawnWorker_service_one:
  assumes "daemon_ok c s" "fork 0 \<noteq> 0" "uuids \<noteq> []" "length gpu_mem = length uuids"
  shows "SpawnWorker_service fork e c 1 (Some uuids) (Some gpu_mem) s =
    Inr (Continues (Ok_status [worker_address c (worker_port_base c + worker_id s)]),
      s\<lparr>worker_id := worker_id s + 1, worker_monitor_map := (worker_monitor_map s)(worker_port_base c + worker_id s \<mapsto> \<lparr>m_pid = fork 0, m_uuids = uuids\<rparr>)\<rparr>)"
  using assms by (simp add: SpawnWorker_service_def SpawnWorker_fork_parent)

lemma parse_worker_address:
  assumes "CHR '':'' \<notin> set (ip (daemon_address c))" "ServerAddress_parse (worker_address c p) = Inr a"
  shows "ip a = ip (daemon_address c)"
proof -
  have t: "takeWhile (\<lambda>x. x \<noteq> CHR '':'') (ip (daemon_address c) @ '':'' @ to_string p) = ip (daemon_address c)"
    using assms(1) by (subst takeWhile_append2) auto
  have "find_char (CHR '':'') (worker_address c p) = Some (length (ip (daemon_address c)))"
    unfolding find_char_def worker_address_def Let_def t by simp
  then show ?thesis using assms(2) by (auto simp: ServerAddress_parse_def worker_address_def res_simps split: if_splits sum.splits)
qed

lemma FindDaemonByIp_distinct:
  assumes "d < length (daemons m)" "distinct (map (\<lambda>d. ip (d_address d)) (daemons m))"
  shows "FindDaemonByIp (ip (d_address (daemons m ! d))) m = Some d"
proof -
  have "i = d" if "i < length (daemons m)" "ip (d_address (daemons m ! i)) = ip (d_address (daemons m ! d))" for i
    using nth_eq_iff_index_eq [OF assms(2), of i d] that assms(1) by simp
  moreover have "i < length (daemons m) \<and> ip (d_address (daemons m ! i)) = a" if "FindDaemonByIp a m = Some i" for i a
    using that by (auto simp: FindDaemonByIp_def find_Some_iff)
  moreover have "FindDaemonByIp (ip (d_address (daemons m ! d))) m \<noteq> None" using assms(1) by (auto simp: FindDaemonByIp_def find_None_iff)
  ultimately show ?thesis by fastforce
qed

section \<open>From assignment to exit\<close>

text \<open>The daemons of the manager run with these configurations and states.\<close>

definition cluster_ok :: "(nat \<Rightarrow> daemon_config) \<Rightarrow> (nat \<Rightarrow> daemon_state) \<Rightarrow> manager \<Rightarrow> bool" where
  "cluster_ok cfg st m \<longleftrightarrow>
     (\<forall>d < length (daemons m). d_address (daemons m ! d) = daemon_address (cfg d) \<and> CHR '':'' \<notin> set (ip (daemon_address (cfg d))) \<and> daemon_ok (cfg d) (st d) \<and>
        inj_on (\<lambda>i. uuid (entries m ! i)) (set (gpus (daemons m ! d)))) \<and>
     distinct (map (\<lambda>d. ip (d_address d)) (daemons m))"

text \<open>C5: From assignment to exit: when the manager assigned a new API server, a daemon has started it with as many GPUs as were requested and
  monitors it, and the message that the monitor sends when the server ends brings every GPU of the manager back to the state before the assignment.\<close>

theorem worker_lifecycle:
  assumes "std_sort srt" "visits_all ord" "manager_ok tot m" "cluster_ok cfg st m" "\<forall>d. fork d 0 \<noteq> 0"
    "DoAssignWorker srt shut (\<lambda>d. daemon_stub (fork d) (cfg d) (st d)) gpu_mem m = Inr (ws, m')" "ws \<noteq> []"
    "\<forall>e \<in> set (entries m). \<not> has_worker (ws ! 0) e"
  shows "\<exists>d us s' p msg m''. d < length (daemons m) \<and> \<not> shut d \<and> length us = length gpu_mem \<and>
    SpawnWorker_service (fork d) True (cfg d) 1 (Some us) (Some gpu_mem) (st d) = Inr (Continues (Ok_status [worker_address (cfg d) p]), s') \<and>
    worker_monitor_map s' p = Some \<lparr>m_pid = fork d 0, m_uuids = us\<rparr> \<and>
    fst (MonitorWorkerExit (cfg d) p us s') = Some msg \<and>
    NotifyWorkerExit ord (Some (fst msg)) (Some (snd msg)) m' = Inr (Ok_status (), m'') \<and> entries m'' = entries m"
proof -
  have lo: "lists_ok m" using assms(3) by (simp add: manager_ok_def)
  have inj: "\<forall>d \<in> set (daemons m). inj_on (\<lambda>i. uuid (entries m ! i)) (set (gpus d))"
    using assms(4) unfolding cluster_ok_def by (metis in_set_conv_nth)
  show ?thesis using assign_then_exit [OF assms(1,2) lo assms(6,7) inj assms(8)]
  proof cases
    case (1 d us)
    let ?c = "cfg d" let ?p = "worker_port_base ?c + worker_id (st d)"
    have ne: "gpu_mem \<noteq> []" using assms(6,7) by (auto simp: DoAssignWorker_def)
    then have us: "us \<noteq> []" "length gpu_mem = length us" using 1(4) by auto
    have c: "d_address (daemons m ! d) = daemon_address ?c" "CHR '':'' \<notin> set (ip (daemon_address ?c))" "daemon_ok ?c (st d)"
      and dis: "distinct (map (\<lambda>d. ip (d_address d)) (daemons m))"
      using assms(4) 1(1) by (simp_all add: cluster_ok_def)
    note sv = SpawnWorker_service_one [of ?c "st d" "fork d", OF c(3) spec [OF assms(5), of d] us, of True]
    have "parse_all [worker_address ?c ?p] = Inr ws" using 1(3) by (simp add: daemon_stub_def sv SpawnWorker_def deref_def)
    then have pa: "ServerAddress_parse (worker_address ?c ?p) = Inr (ws ! 0)" by (auto simp: res_simps split: sum.splits)
    have "FindDaemonByIp (ip (ws ! 0)) m' = Some d"
      using FindDaemonByIp_distinct [OF 1(1) dis] parse_worker_address [OF c(2) pa] by (simp add: same_daemons_ip [OF 1(6)] c(1))
    then have "NotifyWorkerExit ord (Some (worker_address ?c ?p)) (Some us) m' = Inr (Ok_status (), m'\<lparr>entries := entries m\<rparr>)"
      using pa us(1) 1(7) by (simp add: NotifyWorkerExit_def deref_def)
    moreover define s' where "s' = st d\<lparr>worker_id := worker_id (st d) + 1, worker_monitor_map := (worker_monitor_map (st d))(?p \<mapsto> \<lparr>m_pid = fork d 0, m_uuids = us\<rparr>)\<rparr>"
    then have "worker_monitor_map s' ?p = Some \<lparr>m_pid = fork d 0, m_uuids = us\<rparr>" by simp
    ultimately show ?thesis using 1(1,2,4) sv us(1) unfolding s'_def [symmetric]
      by (intro exI [of _ d] exI [of _ us] exI [of _ s'] exI [of _ ?p] exI [of _ "(worker_address ?c ?p, us)"] exI [of _ "m'\<lparr>entries := entries m\<rparr>"] conjI)
        (simp_all add: MonitorWorkerExit_def NotifyWorkerExit_client_def)
  qed
qed

lemma sample_cluster_ok: "cluster_ok (\<lambda>_. sample_config) (\<lambda>_. DaemonServiceImpl) two_gpus"
  by (simp add: cluster_ok_def two_gpus_def sample_config_def daemon_ok_def DaemonServiceImpl_def idle_gpu_def inj_on_def nth_Cons split: nat.split)

lemma sample_assignment:
  "\<exists>m'. DoAssignWorker key_sort (\<lambda>_. False) (\<lambda>d. daemon_stub (\<lambda>_. 77) sample_config DaemonServiceImpl) [3, 6, 2] two_gpus = Inr ([\<lparr>ip = ''h'', port = 4000\<rparr>], m')"
proof -
  have "to_string 4000 = ''4000''" by (simp add: to_string_def nat_string.simps digit_char_def) code_simp
  then have w: "worker_address sample_config 4000 = ''h:4000''" by (simp add: worker_address_def sample_config_def)
  have p: "ServerAddress_parse ''h:4000'' = Inr \<lparr>ip = ''h'', port = 4000\<rparr>" by code_simp
  have st: "daemon_stub (\<lambda>_. 77) sample_config DaemonServiceImpl [''B'', ''A'', ''B''] [3, 6, 2] = Some (Some [''h:4000''])"
    using SpawnWorker_service_one [of sample_config DaemonServiceImpl "\<lambda>_. 77" "[''B'', ''A'', ''B'']" "[3, 6, 2]" True] w
    by (simp add: daemon_stub_def daemon_ok_def DaemonServiceImpl_def sample_config_def)
  have "\<exists>m1. daemon_loop key_sort (\<lambda>_. False) [6, 3, 2] 0 two_gpus = (Some (0, [(0, 6), (1, 3), (1, 2)]), m1) \<and>
      uuid (entries m1 ! 0) = ''A'' \<and> uuid (entries m1 ! 1) = ''B''" by (simp add: run_simps)
  then obtain m1 where m1: "daemon_loop key_sort (\<lambda>_. False) [6, 3, 2] 0 two_gpus = (Some (0, [(0, 6), (1, 3), (1, 2)]), m1)"
      "uuid (entries m1 ! 0) = ''A''" "uuid (entries m1 ! 1) = ''B''" by (elim exE conjE)
  have o: "rev (sort [3 :: u64, 6, 2]) = [6, 3, 2]" by simp
  have r: "restore_uuids [3 :: u64, 6, 2] [6, 3, 2] [''A'', ''B'', ''B''] = [''B'', ''A'', ''B'']" by (simp add: restore_uuids_def restore_step_def upt_rec)
  have "SpawnWorker (Some (Some [''h:4000''])) = Inr [\<lparr>ip = ''h'', port = 4000\<rparr>]" by (simp add: SpawnWorker_def deref_def p)
  then show ?thesis using m1 by (simp add: DoAssignWorker_def Let_def o r st del: sort_key_simps)
qed

theorem worker_lifecycle_witness:
  "\<exists>m' us s' p msg m''. DoAssignWorker key_sort (\<lambda>_. False) (\<lambda>d. daemon_stub (\<lambda>_. 77) sample_config DaemonServiceImpl) [3, 6, 2] two_gpus =
      Inr ([\<lparr>ip = ''h'', port = 4000\<rparr>], m') \<and>
    SpawnWorker_service (\<lambda>_. 77) True sample_config 1 (Some us) (Some [3, 6, 2]) DaemonServiceImpl = Inr (Continues (Ok_status [worker_address sample_config p]), s') \<and>
    length us = length [3 :: u64, 6, 2] \<and> fst (MonitorWorkerExit sample_config p us s') = Some msg \<and>
    NotifyWorkerExit (\<lambda>ws. ws) (Some (fst msg)) (Some (snd msg)) m' = Inr (Ok_status (), m'') \<and> entries m'' = entries two_gpus"
proof -
  obtain m' where a: "DoAssignWorker key_sort (\<lambda>_. False) (\<lambda>d. daemon_stub (\<lambda>_. 77) sample_config DaemonServiceImpl) [3, 6, 2] two_gpus = Inr ([\<lparr>ip = ''h'', port = 4000\<rparr>], m')"
    using sample_assignment by (elim exE)
  have v: "visits_all (\<lambda>ws. ws)" by (simp add: visits_all_def)
  have n: "\<forall>e \<in> set (entries two_gpus). \<not> has_worker ([\<lparr>ip = ''h'', port = 4000\<rparr>] ! 0) e" by (simp add: two_gpus_def idle_gpu_def has_worker_def)
  have "\<forall>d::nat. (\<lambda>d (i::nat). 77 :: int) d 0 \<noteq> 0" by simp
  from worker_lifecycle [OF key_sort_std v two_gpus_ok sample_cluster_ok this a list.distinct(2) n] show ?thesis
    by (elim exE conjE, intro exI conjI) (rule a | assumption)+
qed

end
