(* ===== verification/Galvanic_Manager.thy ===== *)
theory Galvanic_Manager
  imports Spawn_Daemon
begin

text \<open>
  The manager of \<open>worker/galvanic/manager.cpp\<close>, which assigns one GPU to each API server. It shares the data structures, the registration and the
  notification with \<open>worker/katana/manager.cpp\<close> and has its own assignment. Its spawn requests carry one UUID.
\<close>

section \<open>Assignment\<close>

text \<open>The first daemon that is alive and has a GPU with enough memory.\<close>

function find_entry_galvanic :: "sorter \<Rightarrow> (nat \<Rightarrow> bool) \<Rightarrow> u64 \<Rightarrow> nat \<Rightarrow> manager \<Rightarrow> (nat \<times> nat) option \<times> manager" where
  "find_entry_galvanic srt shut g d m =
     (if d < length (daemons m)
      then let (dead, di) = IsDead (shut d) (daemons m ! d)
           in if dead then find_entry_galvanic srt shut g (d + 1) (m\<lparr>daemons := (daemons m)[d := di]\<rparr>)
              else let (r, h, l) = FindEntryAndReserveMemory srt g (entries m, gpus di);
                       m' = m\<lparr>entries := h, daemons := (daemons m)[d := di\<lparr>gpus := l\<rparr>]\<rparr>
                   in case r of Some e \<Rightarrow> (Some (d, e), m') | None \<Rightarrow> find_entry_galvanic srt shut g (d + 1) m'
      else (None, m))"
  by pat_completeness auto
termination
  by (relation "measure (\<lambda>(srt, shut, g, d, m). length (daemons m) - d)") auto

declare find_entry_galvanic.simps [simp del]

text \<open>\<open>stub d u\<close> is the answer of the daemon, as for the manager with several GPUs.\<close>

definition DoAssignWorker_galvanic ::
  "sorter \<Rightarrow> (nat \<Rightarrow> bool) \<Rightarrow> (nat \<Rightarrow> string \<Rightarrow> string list option option) \<Rightarrow> u64 \<Rightarrow> manager \<Rightarrow> (server_address list \<times> manager) res" where
  "DoAssignWorker_galvanic srt shut stub g m =
     (case find_entry_galvanic srt shut g 0 m of
        (None, m) \<Rightarrow> Inr ([], m)
      | (Some (d, e), m) \<Rightarrow>
          rbind (SpawnWorker (stub d (uuid (entries m ! e)))) (\<lambda>workers.
          if workers = []
          then let (h, l) = RevokeEntryWithMemory srt (e_list (entries m ! e)) e g (entries m, gpus (daemons m ! d))
               in Inr ([], m\<lparr>entries := h, daemons := (daemons m)[d := (daemons m ! d)\<lparr>gpus := l\<rparr>]\<rparr>)
          else Inr (workers, m\<lparr>entries := (entries m)[e := AddBusyWorker (workers ! 0) g (entries m ! e)]\<rparr>)))"

text \<open>The first memory size of the request counts. A list without elements is read behind its end.\<close>

definition AssignWorker_galvanic ::
  "sorter \<Rightarrow> (nat \<Rightarrow> bool) \<Rightarrow> (nat \<Rightarrow> string \<Rightarrow> string list option option) \<Rightarrow> u64 list option \<Rightarrow> manager \<Rightarrow> (string list status \<times> manager) res" where
  "AssignWorker_galvanic srt shut stub gpu_mem m =
     (case gpu_mem of
        None \<Rightarrow> Inr (Invalid_argument, m)
      | Some [] \<Rightarrow> Inl OutOfBounds
      | Some (g # _) \<Rightarrow> rbind (DoAssignWorker_galvanic srt shut stub g m) (\<lambda>(ws, m).
          if ws = [] then Inr (Unavailable, m) else Inr (Ok_status (map GetAddress ws), m)))"

section \<open>One GPU of many\<close>

lemma assign_one_gpu:
  "assign_gpus srt [g] [] s = (case FindEntryAndReserveMemory srt g s of (Some e, s) \<Rightarrow> ([(e, g)], s) | (None, s) \<Rightarrow> ([], s))"
  by (simp split: prod.split option.split)

lemma find_entry_loop:
  "daemon_loop srt shut [g] d m = (case find_entry_galvanic srt shut g d m of
     (None, m) \<Rightarrow> (None, m) | (Some (d, e), m) \<Rightarrow> (Some (d, [(e, g)]), m))"
proof (induction "length (daemons m) - d" arbitrary: d m rule: less_induct)
  case less
  show ?case
  proof (cases "d < length (daemons m)")
    case False
    then show ?thesis by (simp add: daemon_loop.simps [of srt shut "[g]" d m] find_entry_galvanic.simps [of srt shut g d m])
  next
    case True
    obtain dead di where D: "IsDead (shut d) (daemons m ! d) = (dead, di)" by fastforce
    obtain r h l where F: "FindEntryAndReserveMemory srt g (entries m, gpus di) = (r, h, l)" by (metis prod_cases3)
    let ?dead = "m\<lparr>daemons := (daemons m)[d := di]\<rparr>" and ?next = "m\<lparr>entries := h, daemons := (daemons m)[d := di\<lparr>gpus := l\<rparr>]\<rparr>"
    have "daemon_loop srt shut [g] d m = (if dead then daemon_loop srt shut [g] (d + 1) ?dead
        else case r of Some e \<Rightarrow> (Some (d, [(e, g)]), ?next) | None \<Rightarrow> daemon_loop srt shut [g] (d + 1) ?next)"
      using True D F by (subst daemon_loop.simps) (simp add: assign_one_gpu del: assign_gpus.simps split: option.split)
    moreover have "find_entry_galvanic srt shut g d m = (if dead then find_entry_galvanic srt shut g (d + 1) ?dead
        else case r of Some e \<Rightarrow> (Some (d, e), ?next) | None \<Rightarrow> find_entry_galvanic srt shut g (d + 1) ?next)"
      using True D F by (subst find_entry_galvanic.simps) (simp add: Let_def)
    ultimately show ?thesis using True less [of ?dead "d + 1"] less [of ?next "d + 1"] by (simp split: option.split)
  qed
qed

lemma restore_one: "restore_uuids [g] [g] [u] = [u]"
  by (simp add: restore_uuids_def restore_step_def)

text \<open>C23: The assignment of one GPU is the assignment of several GPUs for a request of one, with a daemon that gets its UUID alone.\<close>

theorem galvanic_assigns_one:
  "DoAssignWorker_galvanic srt shut stub g m = DoAssignWorker srt shut (\<lambda>d us _. stub d (hd us)) [g] m"
proof (cases "find_entry_galvanic srt shut g 0 m")
  case (Pair r m1)
  show ?thesis
  proof (cases r)
    case None
    then show ?thesis using Pair by (simp add: DoAssignWorker_galvanic_def DoAssignWorker_def find_entry_loop)
  next
    case (Some de)
    obtain d e where de: "de = (d, e)" by fastforce
    have "map (\<lambda>(e, g). uuid (entries m1 ! e)) [(e, g)] = [uuid (entries m1 ! e)]" by simp
    then show ?thesis using Pair Some de
      by (cases "SpawnWorker (stub d (uuid (entries m1 ! e)))") (simp_all add: res_simps DoAssignWorker_galvanic_def DoAssignWorker_def find_entry_loop restore_one Let_def)
  qed
qed

end
