(* ===== verification/Descriptor_Pools.thy ===== *)
theory Descriptor_Pools
  imports Ava_Prelude
begin

text \<open>
  The pools of descriptors and handles of the TensorFlow and ONNX extensions: \<open>worker/extensions/tf_optimization.c\<close>, \<open>guestlib/extensions/tf_optimization.c\<close>,
  and the functions of \<open>cava/samples/onnxruntime/onnx_opt.c\<close> that replace the API in the guest. The guest asks the worker for
  64 descriptors at a time and returns them in the same way. The API of the accelerator is a pair of functions on its state \<open>'w\<close>; status 0 is success. The calls
  from the guest to the worker run in order, and the asynchronous ones report success at once. A queue of GLib is a list.
\<close>

section \<open>The worker\<close>

datatype descriptor_kind = Convolution | Pooling | Tensor | Filter | Event

type_synonym 'w creator = "descriptor_kind \<Rightarrow> 'w \<Rightarrow> int \<times> pointer \<times> 'w"
type_synonym 'w destroyer = "descriptor_kind \<Rightarrow> pointer \<Rightarrow> 'w \<Rightarrow> int \<times> 'w"

definition DESCRIPTOR_POOL_SIZE :: nat where
  "DESCRIPTOR_POOL_SIZE = 64"

definition CUDNN_HANDLE_POOL_SIZE :: nat where
  "CUDNN_HANDLE_POOL_SIZE = 2"

definition CUBLAS_HANDLE_POOL_SIZE :: nat where
  "CUBLAS_HANDLE_POOL_SIZE = 2"

text \<open>The status and the descriptors that were written.\<close>

fun create_loop :: "('w \<Rightarrow> int \<times> pointer \<times> 'w) \<Rightarrow> nat \<Rightarrow> 'w \<Rightarrow> int \<times> pointer list \<times> 'w" where
  "create_loop create 0 w = (0, [], w)"
| "create_loop create (Suc n) w =
     (case create w of (res, d, w) \<Rightarrow>
        if res \<noteq> 0 then (res, [], w) else case create_loop create n w of (res, ds, w) \<Rightarrow> (res, d # ds, w))"

text \<open>The result variable has no value before the first call.\<close>

fun destroy_loop :: "(pointer \<Rightarrow> 'w \<Rightarrow> int \<times> 'w) \<Rightarrow> pointer list \<Rightarrow> int option \<Rightarrow> 'w \<Rightarrow> int res \<times> 'w" where
  "destroy_loop destroy [] res w = (case res of None \<Rightarrow> Inl Uninitialised | Some r \<Rightarrow> Inr r, w)"
| "destroy_loop destroy (d # ds) res w =
     (case destroy d w of (r, w) \<Rightarrow> if r \<noteq> 0 then (Inr r, w) else destroy_loop destroy ds (Some r) w)"

definition pool_cudnnCreateConvolutionDescriptor :: "'w creator \<Rightarrow> nat \<Rightarrow> 'w \<Rightarrow> int \<times> pointer list \<times> 'w" where
  "pool_cudnnCreateConvolutionDescriptor create n w = create_loop (create Convolution) n w"

definition pool_cudnnDestroyConvolutionDescriptor :: "'w destroyer \<Rightarrow> pointer list \<Rightarrow> 'w \<Rightarrow> int res \<times> 'w" where
  "pool_cudnnDestroyConvolutionDescriptor destroy ds w = destroy_loop (destroy Convolution) ds None w"

definition pool_cudnnCreatePoolingDescriptor :: "'w creator \<Rightarrow> nat \<Rightarrow> 'w \<Rightarrow> int \<times> pointer list \<times> 'w" where
  "pool_cudnnCreatePoolingDescriptor create n w = create_loop (create Pooling) n w"

definition pool_cudnnDestroyPoolingDescriptor :: "'w destroyer \<Rightarrow> pointer list \<Rightarrow> 'w \<Rightarrow> int res \<times> 'w" where
  "pool_cudnnDestroyPoolingDescriptor destroy ds w = destroy_loop (destroy Pooling) ds None w"

definition pool_cudnnCreateTensorDescriptor :: "'w creator \<Rightarrow> nat \<Rightarrow> 'w \<Rightarrow> int \<times> pointer list \<times> 'w" where
  "pool_cudnnCreateTensorDescriptor create n w = create_loop (create Tensor) n w"

definition pool_cudnnDestroyTensorDescriptor :: "'w destroyer \<Rightarrow> pointer list \<Rightarrow> 'w \<Rightarrow> int res \<times> 'w" where
  "pool_cudnnDestroyTensorDescriptor destroy ds w = destroy_loop (destroy Tensor) ds None w"

definition pool_cudnnCreateFilterDescriptor :: "'w creator \<Rightarrow> nat \<Rightarrow> 'w \<Rightarrow> int \<times> pointer list \<times> 'w" where
  "pool_cudnnCreateFilterDescriptor create n w = create_loop (create Filter) n w"

definition pool_cudnnDestroyFilterDescriptor :: "'w destroyer \<Rightarrow> pointer list \<Rightarrow> 'w \<Rightarrow> int res \<times> 'w" where
  "pool_cudnnDestroyFilterDescriptor destroy ds w = destroy_loop (destroy Filter) ds None w"

definition pool_cuEventCreate :: "'w creator \<Rightarrow> nat \<Rightarrow> 'w \<Rightarrow> int \<times> pointer list \<times> 'w" where
  "pool_cuEventCreate create n w = create_loop (create Event) n w"

definition pool_cuEventDestroy :: "'w destroyer \<Rightarrow> pointer list \<Rightarrow> 'w \<Rightarrow> int res \<times> 'w" where
  "pool_cuEventDestroy destroy ds w = destroy_loop (destroy Event) ds None w"

text \<open>The worker's half of a request for a kind of descriptor.\<close>

definition worker_create :: "'w creator \<Rightarrow> descriptor_kind \<Rightarrow> nat \<Rightarrow> 'w \<Rightarrow> int \<times> pointer list \<times> 'w" where
  "worker_create create k =
     (case k of Convolution \<Rightarrow> pool_cudnnCreateConvolutionDescriptor create | Pooling \<Rightarrow> pool_cudnnCreatePoolingDescriptor create
      | Tensor \<Rightarrow> pool_cudnnCreateTensorDescriptor create | Filter \<Rightarrow> pool_cudnnCreateFilterDescriptor create
      | Event \<Rightarrow> pool_cuEventCreate create)"

definition worker_destroy :: "'w destroyer \<Rightarrow> descriptor_kind \<Rightarrow> pointer list \<Rightarrow> 'w \<Rightarrow> int res \<times> 'w" where
  "worker_destroy destroy k =
     (case k of Convolution \<Rightarrow> pool_cudnnDestroyConvolutionDescriptor destroy | Pooling \<Rightarrow> pool_cudnnDestroyPoolingDescriptor destroy
      | Tensor \<Rightarrow> pool_cudnnDestroyTensorDescriptor destroy | Filter \<Rightarrow> pool_cudnnDestroyFilterDescriptor destroy
      | Event \<Rightarrow> pool_cuEventDestroy destroy)"

section \<open>Cached handles of the worker\<close>

record 'w handle_api =
  cudnnCreate :: "'w \<Rightarrow> int \<times> pointer \<times> 'w"
  cublasCreate :: "'w \<Rightarrow> int \<times> pointer \<times> 'w"
  cuInit :: "'w \<Rightarrow> 'w"

record handle_cache =
  cudnn_handles :: "pointer list"
  cublas_handles :: "pointer list"

fun cache_loop :: "('w \<Rightarrow> int \<times> pointer \<times> 'w) \<Rightarrow> nat \<Rightarrow> pointer list \<Rightarrow> 'w \<Rightarrow> pointer list \<times> 'w" where
  "cache_loop create 0 q w = (q, w)"
| "cache_loop create (Suc n) q w = (case create w of (ret, h, w) \<Rightarrow> if ret = 0 then cache_loop create n (q @ [h]) w else (q, w))"

definition worker_tf_opt_init :: "'w handle_api \<Rightarrow> 'w \<Rightarrow> handle_cache \<times> 'w" where
  "worker_tf_opt_init api w =
     (case cache_loop (cudnnCreate api) CUDNN_HANDLE_POOL_SIZE [] (cuInit api w) of (dnn, w) \<Rightarrow>
      case cache_loop (cublasCreate api) CUBLAS_HANDLE_POOL_SIZE [] w of (blas, w) \<Rightarrow>
      (\<lparr>cudnn_handles = dnn, cublas_handles = blas\<rparr>, w))"

definition cached_cudnnCreate :: "'w handle_api \<Rightarrow> handle_cache \<Rightarrow> 'w \<Rightarrow> int \<times> pointer \<times> handle_cache \<times> 'w" where
  "cached_cudnnCreate api c w =
     (case cudnn_handles c of
        [] \<Rightarrow> (case cudnnCreate api w of (ret, h, w) \<Rightarrow> (ret, h, c, w))
      | h # hs \<Rightarrow> (0, h, c\<lparr>cudnn_handles := hs\<rparr>, w))"

definition cached_cublasCreate :: "'w handle_api \<Rightarrow> handle_cache \<Rightarrow> 'w \<Rightarrow> int \<times> pointer \<times> handle_cache \<times> 'w" where
  "cached_cublasCreate api c w =
     (case cublas_handles c of
        [] \<Rightarrow> (case cublasCreate api w of (ret, h, w) \<Rightarrow> (ret, h, c, w))
      | h # hs \<Rightarrow> (0, h, c\<lparr>cublas_handles := hs\<rparr>, w))"

section \<open>The guest\<close>

record tf_pools =
  pool :: "descriptor_kind \<Rightarrow> pointer list"
  idle :: "descriptor_kind \<Rightarrow> pointer list"


text \<open>Calls of the guest, with the worker behind them.\<close>

type_synonym 'w rpc_create = "descriptor_kind \<Rightarrow> nat \<Rightarrow> 'w \<Rightarrow> int \<times> pointer list \<times> 'w"
type_synonym 'w rpc_destroy = "descriptor_kind \<Rightarrow> pointer list \<Rightarrow> 'w \<Rightarrow> int \<times> 'w"



text \<open>Popping ends with a null pointer: the queue is empty, or a null descriptor was in it.\<close>

definition drain_pool :: "pointer list \<Rightarrow> pointer list \<times> pointer list" where
  "drain_pool q = (takeWhile (\<lambda>d. d \<noteq> 0) q, tl (dropWhile (\<lambda>d. d \<noteq> 0) q))"

definition free_pool :: "(pointer list \<Rightarrow> 'w \<Rightarrow> int \<times> 'w) \<Rightarrow> pointer list \<Rightarrow> 'w \<Rightarrow> int \<times> pointer list \<times> 'w" where
  "free_pool destroy q w =
     (if q = [] then (0, q, w)
      else let (ds, q) = drain_pool q; (res, w) = destroy ds w in (res, q, w))"

definition free_convolution_descriptor_pool :: "'w rpc_destroy \<Rightarrow> pointer list \<Rightarrow> 'w \<Rightarrow> int \<times> pointer list \<times> 'w" where
  "free_convolution_descriptor_pool rpc q w = free_pool (rpc Convolution) q w"

definition free_pooling_descriptor_pool :: "'w rpc_destroy \<Rightarrow> pointer list \<Rightarrow> 'w \<Rightarrow> int \<times> pointer list \<times> 'w" where
  "free_pooling_descriptor_pool rpc q w = free_pool (rpc Pooling) q w"

definition free_tensor_descriptor_pool :: "'w rpc_destroy \<Rightarrow> pointer list \<Rightarrow> 'w \<Rightarrow> int \<times> pointer list \<times> 'w" where
  "free_tensor_descriptor_pool rpc q w = free_pool (rpc Tensor) q w"

definition free_filter_descriptor_pool :: "'w rpc_destroy \<Rightarrow> pointer list \<Rightarrow> 'w \<Rightarrow> int \<times> pointer list \<times> 'w" where
  "free_filter_descriptor_pool rpc q w = free_pool (rpc Filter) q w"

definition free_cu_event_pool :: "'w rpc_destroy \<Rightarrow> pointer list \<Rightarrow> 'w \<Rightarrow> int \<times> pointer list \<times> 'w" where
  "free_cu_event_pool rpc q w = free_pool (rpc Event) q w"

definition free_kind :: "'w rpc_destroy \<Rightarrow> descriptor_kind \<Rightarrow> pointer list \<Rightarrow> 'w \<Rightarrow> int \<times> pointer list \<times> 'w" where
  "free_kind rpc k =
     (case k of Convolution \<Rightarrow> free_convolution_descriptor_pool rpc | Pooling \<Rightarrow> free_pooling_descriptor_pool rpc
      | Tensor \<Rightarrow> free_tensor_descriptor_pool rpc | Filter \<Rightarrow> free_filter_descriptor_pool rpc | Event \<Rightarrow> free_cu_event_pool rpc)"



text \<open>The replaced functions of the API. \<open>None\<close> stands for an output that is not written.\<close>

definition create_descriptor ::
  "'w rpc_create \<Rightarrow> descriptor_kind \<Rightarrow> tf_pools \<Rightarrow> 'w \<Rightarrow> int \<times> pointer option \<times> tf_pools \<times> 'w" where
  "create_descriptor rpc k p w =
     (let (res, q, w) = (if pool p k = []
                         then case rpc k DESCRIPTOR_POOL_SIZE w of (res, ds, w) \<Rightarrow> (res, if res = 0 then pool p k @ ds else pool p k, w)
                         else (0, pool p k, w))
      in if res \<noteq> 0 then (res, None, p\<lparr>pool := (pool p)(k := q)\<rparr>, w)
         else (res, Some (case q of [] \<Rightarrow> 0 | d # _ \<Rightarrow> d), p\<lparr>pool := (pool p)(k := tl q)\<rparr>, w))"

definition destroy_descriptor :: "'w rpc_destroy \<Rightarrow> descriptor_kind \<Rightarrow> pointer \<Rightarrow> tf_pools \<Rightarrow> 'w \<Rightarrow> int \<times> tf_pools \<times> 'w" where
  "destroy_descriptor rpc k d p w =
     (let i = idle p k @ [d]
      in if length i \<ge> DESCRIPTOR_POOL_SIZE
         then case free_kind rpc k i w of (res, i, w) \<Rightarrow> (res, p\<lparr>idle := (idle p)(k := i)\<rparr>, w)
         else (0, p\<lparr>idle := (idle p)(k := i)\<rparr>, w))"

definition cudnnCreateConvolutionDescriptor :: "'w rpc_create \<Rightarrow> tf_pools \<Rightarrow> 'w \<Rightarrow> int \<times> pointer option \<times> tf_pools \<times> 'w" where
  "cudnnCreateConvolutionDescriptor rpc = create_descriptor rpc Convolution"

definition cudnnCreateFilterDescriptor :: "'w rpc_create \<Rightarrow> tf_pools \<Rightarrow> 'w \<Rightarrow> int \<times> pointer option \<times> tf_pools \<times> 'w" where
  "cudnnCreateFilterDescriptor rpc = create_descriptor rpc Filter"

definition cudnnCreatePoolingDescriptor :: "'w rpc_create \<Rightarrow> tf_pools \<Rightarrow> 'w \<Rightarrow> int \<times> pointer option \<times> tf_pools \<times> 'w" where
  "cudnnCreatePoolingDescriptor rpc = create_descriptor rpc Pooling"

definition cudnnCreateTensorDescriptor :: "'w rpc_create \<Rightarrow> tf_pools \<Rightarrow> 'w \<Rightarrow> int \<times> pointer option \<times> tf_pools \<times> 'w" where
  "cudnnCreateTensorDescriptor rpc = create_descriptor rpc Tensor"

definition cuEventCreate :: "'w rpc_create \<Rightarrow> tf_pools \<Rightarrow> 'w \<Rightarrow> int \<times> pointer option \<times> tf_pools \<times> 'w" where
  "cuEventCreate rpc = create_descriptor rpc Event"

definition cudnnDestroyConvolutionDescriptor :: "'w rpc_destroy \<Rightarrow> pointer \<Rightarrow> tf_pools \<Rightarrow> 'w \<Rightarrow> int \<times> tf_pools \<times> 'w" where
  "cudnnDestroyConvolutionDescriptor rpc = destroy_descriptor rpc Convolution"

definition cudnnDestroyFilterDescriptor :: "'w rpc_destroy \<Rightarrow> pointer \<Rightarrow> tf_pools \<Rightarrow> 'w \<Rightarrow> int \<times> tf_pools \<times> 'w" where
  "cudnnDestroyFilterDescriptor rpc = destroy_descriptor rpc Filter"

definition cudnnDestroyPoolingDescriptor :: "'w rpc_destroy \<Rightarrow> pointer \<Rightarrow> tf_pools \<Rightarrow> 'w \<Rightarrow> int \<times> tf_pools \<times> 'w" where
  "cudnnDestroyPoolingDescriptor rpc = destroy_descriptor rpc Pooling"

definition cudnnDestroyTensorDescriptor :: "'w rpc_destroy \<Rightarrow> pointer \<Rightarrow> tf_pools \<Rightarrow> 'w \<Rightarrow> int \<times> tf_pools \<times> 'w" where
  "cudnnDestroyTensorDescriptor rpc = destroy_descriptor rpc Tensor"

definition cuEventDestroy :: "'w rpc_destroy \<Rightarrow> pointer \<Rightarrow> tf_pools \<Rightarrow> 'w \<Rightarrow> int \<times> tf_pools \<times> 'w" where
  "cuEventDestroy rpc = destroy_descriptor rpc Event"

definition api_create :: "'w rpc_create \<Rightarrow> descriptor_kind \<Rightarrow> tf_pools \<Rightarrow> 'w \<Rightarrow> int \<times> pointer option \<times> tf_pools \<times> 'w" where
  "api_create rpc k =
     (case k of Convolution \<Rightarrow> cudnnCreateConvolutionDescriptor rpc | Pooling \<Rightarrow> cudnnCreatePoolingDescriptor rpc
      | Tensor \<Rightarrow> cudnnCreateTensorDescriptor rpc | Filter \<Rightarrow> cudnnCreateFilterDescriptor rpc | Event \<Rightarrow> cuEventCreate rpc)"

definition api_destroy :: "'w rpc_destroy \<Rightarrow> descriptor_kind \<Rightarrow> pointer \<Rightarrow> tf_pools \<Rightarrow> 'w \<Rightarrow> int \<times> tf_pools \<times> 'w" where
  "api_destroy rpc k =
     (case k of Convolution \<Rightarrow> cudnnDestroyConvolutionDescriptor rpc | Pooling \<Rightarrow> cudnnDestroyPoolingDescriptor rpc
      | Tensor \<Rightarrow> cudnnDestroyTensorDescriptor rpc | Filter \<Rightarrow> cudnnDestroyFilterDescriptor rpc | Event \<Rightarrow> cuEventDestroy rpc)"

section \<open>What the API promises\<close>


lemma worker_create_loop [simp]: "worker_create create k = create_loop (create k)"
  by (rule ext, rule ext, cases k) (simp_all add: worker_create_def pool_cudnnCreateConvolutionDescriptor_def pool_cudnnCreatePoolingDescriptor_def
      pool_cudnnCreateTensorDescriptor_def pool_cudnnCreateFilterDescriptor_def pool_cuEventCreate_def)

lemma worker_destroy_loop [simp]: "worker_destroy destroy k ds = destroy_loop (destroy k) ds None"
  by (rule ext, cases k) (simp_all add: worker_destroy_def pool_cudnnDestroyConvolutionDescriptor_def pool_cudnnDestroyPoolingDescriptor_def
      pool_cudnnDestroyTensorDescriptor_def pool_cudnnDestroyFilterDescriptor_def pool_cuEventDestroy_def)

lemma free_kind_pool [simp]: "free_kind rpc k = free_pool (rpc k)"
  by (rule ext, rule ext, cases k) (simp_all add: free_kind_def free_convolution_descriptor_pool_def free_pooling_descriptor_pool_def
      free_tensor_descriptor_pool_def free_filter_descriptor_pool_def free_cu_event_pool_def)

lemma api_create_descriptor [simp]: "api_create rpc k = create_descriptor rpc k"
  by (cases k) (simp_all add: api_create_def cudnnCreateConvolutionDescriptor_def cudnnCreatePoolingDescriptor_def cudnnCreateTensorDescriptor_def
      cudnnCreateFilterDescriptor_def cuEventCreate_def)

lemma api_destroy_descriptor [simp]: "api_destroy rpc k = destroy_descriptor rpc k"
  by (cases k) (simp_all add: api_destroy_def cudnnDestroyConvolutionDescriptor_def cudnnDestroyPoolingDescriptor_def cudnnDestroyTensorDescriptor_def
      cudnnDestroyFilterDescriptor_def cuEventDestroy_def)






section \<open>Runs of an application\<close>

text \<open>An application creates descriptors and destroys those that it has. \<open>held\<close> are the descriptors it has, and \<open>failed\<close> tells that some creation has
  failed.\<close>

record 'w tf_state =
  failed :: bool
  held :: "descriptor_kind \<Rightarrow> pointer list"
  pools :: tf_pools
  api :: 'w














section \<open>The end of the guest library\<close>










section \<open>Handles come in the order of their creation\<close>

fun cudnn_run :: "'w handle_api \<Rightarrow> nat \<Rightarrow> handle_cache \<Rightarrow> 'w \<Rightarrow> (int \<times> pointer) list" where
  "cudnn_run a 0 c w = []"
| "cudnn_run a (Suc n) c w = (case cached_cudnnCreate a c w of (ret, h, c, w) \<Rightarrow> (ret, h) # cudnn_run a n c w)"

lemma cache_loop_creates: "create_loop f n w = (0, hs, w') \<Longrightarrow> cache_loop f n q w = (q @ hs, w')"
  by (induction n arbitrary: q w hs) (auto split: prod.splits if_splits)

lemma create_loop_length: "create_loop f n w = (0, hs, w') \<Longrightarrow> length hs = n"
  by (induction n arbitrary: w hs) (auto split: prod.splits if_splits)

lemma cudnn_run_cached: "cudnn_handles c = hs \<Longrightarrow> create_loop (cudnnCreate a) n w = (0, ds, w') \<Longrightarrow>
  cudnn_run a (length hs + n) c w = map (\<lambda>h. (0, h)) (hs @ ds)"
proof (induction hs arbitrary: c)
  case Nil
  then show ?case
    by (induction n arbitrary: w ds) (auto simp: cached_cudnnCreate_def split: prod.splits if_splits)
qed (simp add: cached_cudnnCreate_def)

text \<open>The handles that the guest gets through the cache are those that the library creates, in the same order.\<close>

lemma cached_handles_in_order:
  assumes "create_loop (cudnnCreate a) CUDNN_HANDLE_POOL_SIZE (cuInit a w) = (0, hs, w1)"
    "create_loop (cublasCreate a) CUBLAS_HANDLE_POOL_SIZE w1 = (0, bs, w2)" "create_loop (cudnnCreate a) n w2 = (0, ds, w3)"
  shows "case worker_tf_opt_init a w of (c, w') \<Rightarrow> cudnn_run a (CUDNN_HANDLE_POOL_SIZE + n) c w' = map (\<lambda>h. (0, h)) (hs @ ds) \<and> cublas_handles c = bs"
proof -
  have "length hs = CUDNN_HANDLE_POOL_SIZE" using assms(1) by (rule create_loop_length)
  moreover have "worker_tf_opt_init a w = (\<lparr>cudnn_handles = hs, cublas_handles = bs\<rparr>, w2)"
    using cache_loop_creates [OF assms(1)] cache_loop_creates [OF assms(2)] by (simp add: worker_tf_opt_init_def)
  ultimately show ?thesis using cudnn_run_cached [OF _ assms(3), of "\<lparr>cudnn_handles = hs, cublas_handles = bs\<rparr>" hs] by simp
qed

end
