(* ===== verification/Device_Addresses.thy ===== *)
theory Device_Addresses
  imports Ava_Prelude "HOL-Library.Tree"
begin

text \<open>
  What the guest library of \<open>cava/samples/onnxruntime/onnx_opt.c\<close> answers without the worker: the stack of call configurations, and the set of device addresses that
  tells device pointers from host pointers, with its comparison in \<open>guestlib/extensions/tf_optimization.c\<close>. A tree of GLib is a binary tree
  whose nodes have a key and a value; lookup and search go down from the root as the documentation says, and the balancing insertion is a parameter.
\<close>

section \<open>Call configurations\<close>

record dim3 =
  x :: u32
  y :: u32
  z :: u32

record call_configuration =
  gridDim :: dim3
  blockDim :: dim3
  sharedMem :: u64
  stream :: pointer

definition cudaPushCallConfiguration :: "dim3 \<Rightarrow> dim3 \<Rightarrow> u64 \<Rightarrow> pointer \<Rightarrow> call_configuration list \<Rightarrow> u32 \<times> call_configuration list" where
  "cudaPushCallConfiguration g b n s st = (0, st @ [\<lparr>gridDim = g, blockDim = b, sharedMem = n, stream = s\<rparr>])"

text \<open>The outputs, and the remaining stack. An empty stack gives a null pointer, which is read.\<close>

definition cudaPopCallConfiguration :: "call_configuration list \<Rightarrow> ((dim3 \<times> dim3 \<times> u64 \<times> pointer) \<times> call_configuration list) res" where
  "cudaPopCallConfiguration st =
     (if st = [] then Inl NullDeref
      else let cc = last st in Inr ((gridDim cc, blockDim cc, sharedMem cc, stream cc), butlast st))"

section \<open>The set of device addresses\<close>

record gpu_address_range =
  r_start :: u64
  r_end :: u64

type_synonym address_tree = "(u64 \<times> gpu_address_range) tree"

definition gpu_address_range_cmp :: "u64 \<Rightarrow> u64 \<Rightarrow> int" where
  "gpu_address_range_cmp r1 r2 = (let diff = sint (r1 - r2) in if diff < 0 then - 1 else if diff > 0 then 1 else 0)"

fun g_tree_lookup :: "address_tree \<Rightarrow> u64 \<Rightarrow> gpu_address_range option" where
  "g_tree_lookup Leaf k = None"
| "g_tree_lookup (Node l kr t) k =
     (let c = gpu_address_range_cmp k (fst kr)
      in if c = 0 then Some (snd kr) else if c < 0 then g_tree_lookup l k else g_tree_lookup t k)"

fun g_tree_search :: "(u64 \<Rightarrow> int res) \<Rightarrow> address_tree \<Rightarrow> gpu_address_range option res" where
  "g_tree_search f Leaf = Inr None"
| "g_tree_search f (Node l kr t) =
     rbind (f (fst kr)) (\<lambda>c. if c = 0 then Inr (Some (snd kr)) else if c < 0 then g_tree_search f l else g_tree_search f t)"

text \<open>The function looks the key of the node up again.\<close>

definition gpu_address_search_func :: "address_tree \<Rightarrow> u64 \<Rightarrow> u64 \<Rightarrow> int res" where
  "gpu_address_search_func gset a b =
     (case g_tree_lookup gset a of
        None \<Rightarrow> Inl NullDeref
      | Some r \<Rightarrow> Inr (if r_start r > b then - 1 else if r_end r \<le> b then 1 else 0))"

datatype cuda_error = CudaSuccess | CudaErrorInvalidDevice | CudaErrorInvalidValue
datatype memory_type = MemoryTypeDevice | MemoryTypeUnregistered

text \<open>\<open>attributes\<close> tells whether there is a structure to fill. The result has the status, what was written to both type fields, and the last
  error.\<close>

definition cudaPointerGetAttributes :: "address_tree \<Rightarrow> bool \<Rightarrow> u64 \<Rightarrow> cuda_error \<Rightarrow> (cuda_error \<times> memory_type option \<times> cuda_error) res" where
  "cudaPointerGetAttributes gset attributes ptr last_error =
     (if \<not> attributes then Inr (CudaErrorInvalidDevice, None, last_error)
      else rbind (g_tree_search (\<lambda>a. gpu_address_search_func gset a ptr) gset) (\<lambda>r.
           case r of Some _ \<Rightarrow> Inr (CudaSuccess, Some MemoryTypeDevice, last_error)
           | None \<Rightarrow> Inr (CudaErrorInvalidValue, Some MemoryTypeUnregistered, CudaErrorInvalidValue)))"

definition helper_save_gpu_address_range ::
  "(u64 \<Rightarrow> gpu_address_range \<Rightarrow> address_tree \<Rightarrow> address_tree) \<Rightarrow> bool \<Rightarrow> u64 \<Rightarrow> u64 \<Rightarrow> int \<Rightarrow> address_tree \<Rightarrow> address_tree" where
  "helper_save_gpu_address_range ins is_guest dptr bytesize ret gset =
     (if is_guest \<and> ret = 0 then ins dptr \<lparr>r_start = dptr, r_end = dptr + bytesize\<rparr> gset else gset)"

section \<open>The stack is last in, first out\<close>

text \<open>Every pop gets what the matching push has stored, whatever balanced calls come in between.\<close>

inductive balanced :: "(call_configuration list \<Rightarrow> call_configuration list) \<Rightarrow> bool" where
  none: "balanced (\<lambda>st. st)"
| nest: "balanced f \<Longrightarrow> balanced h \<Longrightarrow>
    balanced (\<lambda>st. h (butlast (f (snd (cudaPushCallConfiguration g b n s st)))))"

lemma balanced_id: "balanced f \<Longrightarrow> f st = st"
  by (induction arbitrary: st rule: balanced.induct) (simp_all add: cudaPushCallConfiguration_def)

lemma call_configuration_nested:
  "balanced f \<Longrightarrow> cudaPopCallConfiguration (f (snd (cudaPushCallConfiguration g b n s st))) = Inr ((g, b, n, s), st)"
  by (simp add: balanced_id cudaPushCallConfiguration_def cudaPopCallConfiguration_def)

section \<open>The comparison\<close>

lemma cmp_unsigned:
  assumes "a < 2 ^ 63" "b < 2 ^ 63"
  shows "gpu_address_range_cmp a b = (if a < b then - 1 else if a = b then 0 else 1)"
proof -
  have u: "sint w = uint w" "uint w < 2 ^ 63" if "w < 2 ^ 63" for w :: u64
  proof -
    show l: "uint w < 2 ^ 63" using that by (simp add: word_less_def)
    have "- (2 ^ 63) \<le> uint w" by (rule order_trans [of _ 0]) simp_all
    then show "sint w = uint w" unfolding sint_uint using l by (intro signed_take_bit_int_eq_self) simp_all
  qed
  have "- (2 ^ 63) \<le> uint a - uint b" "uint a - uint b < 2 ^ 63"
    using u(2) [OF assms(1)] u(2) [OF assms(2)] uint_ge_0 [of a] uint_ge_0 [of b] by linarith+
  then have "sint (a - b) = uint a - uint b"
    using signed_take_bit_int_eq_self [of 63 "uint a - uint b"] u(1) [OF assms(1)] u(1) [OF assms(2)] by (simp add: sint_word_ariths)
  then show ?thesis by (auto simp: gpu_address_range_cmp_def word_less_def Let_def dest: word_uint_eqI)
qed

text \<open>It is not an order on all addresses: the difference wraps around.\<close>

lemma cmp_cyclic:
  "gpu_address_range_cmp 0 0x6000000000000000 = - 1 \<and> gpu_address_range_cmp 0x6000000000000000 0xC000000000000000 = - 1 \<and>
   gpu_address_range_cmp 0xC000000000000000 0 = - 1"
  by (simp add: gpu_address_range_cmp_def)

section \<open>Searching\<close>

text \<open>The keys are in order and below the sign bit, every range starts at its key, and ranges do not overlap.\<close>

definition tree_ok :: "address_tree \<Rightarrow> bool" where
  "tree_ok t \<longleftrightarrow> sorted_wrt (\<lambda>a b. fst a < fst b) (inorder t) \<and> (\<forall>kr \<in> set_tree t. fst kr < 2 ^ 63 \<and> r_start (snd kr) = fst kr)"

definition ranges_ok :: "address_tree \<Rightarrow> bool" where
  "ranges_ok t \<longleftrightarrow> sorted_wrt (\<lambda>a b. r_end (snd a) \<le> fst b) (inorder t) \<and> (\<forall>kr \<in> set_tree t. fst kr \<le> r_end (snd kr))"

lemma tree_ok_Node: "tree_ok (Node l kr t) \<Longrightarrow> tree_ok l \<and> tree_ok t \<and> (\<forall>a \<in> set_tree l. fst a < fst kr) \<and> (\<forall>a \<in> set_tree t. fst kr < fst a) \<and>
    fst kr < 2 ^ 63 \<and> r_start (snd kr) = fst kr"
  by (auto simp: tree_ok_def sorted_wrt_append)

lemma ranges_ok_Node: "ranges_ok (Node l kr t) \<Longrightarrow> ranges_ok l \<and> ranges_ok t \<and> (\<forall>a \<in> set_tree l. r_end (snd a) \<le> fst kr) \<and> fst kr \<le> r_end (snd kr)"
  by (auto simp: ranges_ok_def sorted_wrt_append)

lemma g_tree_lookup_in: "tree_ok t \<Longrightarrow> (k, r) \<in> set_tree t \<Longrightarrow> g_tree_lookup t k = Some r"
proof (induction t)
  case (Node l kr t)
  note n = tree_ok_Node [OF Node.prems(1)]
  have "fst (k, r) < 2 ^ 63" using Node.prems unfolding tree_ok_def by blast
  then have k: "k < 2 ^ 63" by simp
  consider "(k, r) = kr" | "(k, r) \<in> set_tree l" | "(k, r) \<in> set_tree t" using Node.prems(2) by auto
  then show ?case
  proof cases
    case 1
    then show ?thesis using n k by (auto simp: cmp_unsigned)
  next
    case 2
    moreover then have "k < fst kr" using n by force
    ultimately show ?thesis using n k Node.IH(1) by (simp add: cmp_unsigned)
  next
    case 3
    moreover then have "fst kr < k" using n by force
    ultimately show ?thesis using n k Node.IH(2) by (auto simp: cmp_unsigned)
  qed
qed simp

definition in_range :: "u64 \<Rightarrow> gpu_address_range \<Rightarrow> bool" where
  "in_range p r \<longleftrightarrow> r_start r \<le> p \<and> p < r_end r"

lemma search_subtree:
  assumes "tree_ok s" "tree_ok t" "ranges_ok t" "set_tree t \<subseteq> set_tree s"
  shows "\<exists>r. g_tree_search (\<lambda>a. gpu_address_search_func s a p) t = Inr r \<and> (r \<noteq> None \<longleftrightarrow> (\<exists>kr \<in> set_tree t. in_range p (snd kr)))"
  using assms(2-4)
proof (induction t)
  case (Node l kr t)
  note n = tree_ok_Node [OF Node.prems(1)] and m = ranges_ok_Node [OF Node.prems(2)]
  have "g_tree_lookup s (fst kr) = Some (snd kr)" using Node.prems(3) by (intro g_tree_lookup_in [OF assms(1)]) auto
  then have f: "gpu_address_search_func s (fst kr) p = Inr (if fst kr > p then - 1 else if r_end (snd kr) \<le> p then 1 else 0)"
    using n by (simp add: gpu_address_search_func_def)
  have l: "\<not> in_range p (snd a)" if "a \<in> set_tree l" "r_end (snd kr) \<le> p" for a
    using m that by (force simp: in_range_def)
  have r: "\<not> in_range p (snd a)" if "a \<in> set_tree t" "p < fst kr" for a
  proof -
    have "fst kr < fst a" "r_start (snd a) = fst a" using n that(1) by (auto simp: tree_ok_def)
    then show ?thesis using that(2) by (auto simp: in_range_def)
  qed
  consider "p < fst kr" | "fst kr \<le> p" "r_end (snd kr) \<le> p" | "fst kr \<le> p" "p < r_end (snd kr)" by fastforce
  then show ?case
  proof cases
    case 1
    then have "\<not> in_range p (snd kr)" using n by (auto simp: in_range_def)
    then show ?thesis using 1 f r Node.IH(1) n m Node.prems(3) by auto
  next
    case 2
    then have "\<not> in_range p (snd kr)" by (auto simp: in_range_def)
    then show ?thesis using 2 f l Node.IH(2) n m Node.prems(3) by auto
  next
    case 3
    then show ?thesis using f n by (auto simp: in_range_def)
  qed
qed simp

section \<open>Device pointers\<close>

text \<open>What the documentation says about insertion: the tree stays in order and has the new pair in place of one with the same key.\<close>

definition glib_insert :: "(u64 \<Rightarrow> gpu_address_range \<Rightarrow> address_tree \<Rightarrow> address_tree) \<Rightarrow> bool" where
  "glib_insert ins \<longleftrightarrow> (\<forall>k r t. sorted_wrt (\<lambda>a b. fst a < fst b) (inorder t) \<and> (\<forall>a \<in> set_tree t. fst a < 2 ^ 63) \<and> k < 2 ^ 63 \<longrightarrow>
     sorted_wrt (\<lambda>a b. fst a < fst b) (inorder (ins k r t)) \<and> set_tree (ins k r t) = insert (k, r) {a \<in> set_tree t. fst a \<noteq> k})"

text \<open>Allocations, given by address and size, that lie in the lower half of the address space and do not overlap.\<close>

definition allocations_ok :: "(u64 \<times> u64) list \<Rightarrow> bool" where
  "allocations_ok as \<longleftrightarrow> (\<forall>a \<in> set as. 0 < snd a \<and> unat (fst a) + unat (snd a) < 2 ^ 63) \<and>
     sorted_wrt (\<lambda>a b. unat (fst a) + unat (snd a) \<le> unat (fst b) \<or> unat (fst b) + unat (snd b) \<le> unat (fst a)) as"

definition entry_of :: "u64 \<times> u64 \<Rightarrow> u64 \<times> gpu_address_range" where
  "entry_of a = (fst a, \<lparr>r_start = fst a, r_end = fst a + snd a\<rparr>)"

lemma allocations_ok_snoc:
  "allocations_ok (as @ [a]) \<longleftrightarrow> allocations_ok as \<and> 0 < snd a \<and> unat (fst a) + unat (snd a) < 2 ^ 63 \<and>
     (\<forall>b \<in> set as. unat (fst b) + unat (snd b) \<le> unat (fst a) \<or> unat (fst a) + unat (snd a) \<le> unat (fst b))"
  by (auto simp: allocations_ok_def sorted_wrt_append)

lemma saved_tree:
  assumes "glib_insert ins"
  shows "allocations_ok as \<Longrightarrow> tree_ok (foldl (\<lambda>t a. helper_save_gpu_address_range ins True (fst a) (snd a) 0 t) Leaf as) \<and>
    set_tree (foldl (\<lambda>t a. helper_save_gpu_address_range ins True (fst a) (snd a) 0 t) Leaf as) = entry_of ` set as"
proof (induction as rule: rev_induct)
  case Nil
  then show ?case by (simp add: tree_ok_def)
next
  case (snoc a as)
  let ?t = "foldl (\<lambda>t a. helper_save_gpu_address_range ins True (fst a) (snd a) 0 t) Leaf as"
  have A: "allocations_ok as" "0 < snd a" "unat (fst a) + unat (snd a) < 2 ^ 63"
      "\<forall>b \<in> set as. unat (fst b) + unat (snd b) \<le> unat (fst a) \<or> unat (fst a) + unat (snd a) \<le> unat (fst b)"
    using snoc.prems by (simp_all add: allocations_ok_snoc)
  have t: "tree_ok ?t" "set_tree ?t = entry_of ` set as" using snoc.IH A(1) by simp_all
  have k: "fst a < 2 ^ 63" using A(3) by (simp add: word_less_nat_alt)
  have i: "sorted_wrt (\<lambda>a b. fst a < fst b) (inorder (ins (fst a) r ?t)) \<and> set_tree (ins (fst a) r ?t) = insert (fst a, r) {b \<in> set_tree ?t. fst b \<noteq> fst a}" for r
    using assms t(1) k unfolding glib_insert_def tree_ok_def by blast
  have "fst b \<noteq> fst a" if b: "b \<in> set as" for b
  proof
    assume e: "fst b = fst a"
    have "0 < unat (snd a)" "0 < unat (snd b)" using A(1,2) b by (auto simp: allocations_ok_def word_less_nat_alt)
    then show False using A(4) b e by fastforce
  qed
  then have "{b \<in> set_tree ?t. fst b \<noteq> fst a} = entry_of ` set as" unfolding t(2) by (auto simp: entry_of_def)
  moreover have "helper_save_gpu_address_range ins True (fst a) (snd a) 0 ?t = ins (fst a) (snd (entry_of a)) ?t"
    by (simp add: helper_save_gpu_address_range_def entry_of_def)
  moreover have "(fst a, snd (entry_of a)) = entry_of a" by (simp add: entry_of_def)
  ultimately show ?case using i [of "snd (entry_of a)"] t k by (auto simp: tree_ok_def entry_of_def)
qed

lemma saved_ranges:
  assumes "allocations_ok as" "tree_ok t" "set_tree t = entry_of ` set as"
  shows "ranges_ok t"
proof -
  have e: "unat (r_end (snd (entry_of a))) = unat (fst a) + unat (snd a)" if "a \<in> set as" for a
  proof -
    have "unat (fst a) + unat (snd a) < 2 ^ 63" using bspec [OF conjunct1 [OF assms(1) [unfolded allocations_ok_def]] that] ..
    then have "unat (fst a + snd a) = unat (fst a) + unat (snd a)" by (intro unat_plus_small) simp
    then show ?thesis by (simp add: entry_of_def)
  qed
  have d: "a = b \<or> unat (fst a) + unat (snd a) \<le> unat (fst b) \<or> unat (fst b) + unat (snd b) \<le> unat (fst a)" if ab: "a \<in> set as" "b \<in> set as" for a b
  proof -
    obtain i j where ij: "i < length as" "as ! i = a" "j < length as" "as ! j = b" using ab unfolding in_set_conv_nth by (elim exE conjE)
    have s: "sorted_wrt (\<lambda>a b. unat (fst a) + unat (snd a) \<le> unat (fst b) \<or> unat (fst b) + unat (snd b) \<le> unat (fst a)) as"
      using assms(1) by (simp add: allocations_ok_def)
    show ?thesis using sorted_wrt_nth_less [OF s, of i j] sorted_wrt_nth_less [OF s, of j i] ij by (cases i j rule: linorder_cases) auto
  qed
  have le: "r_end (snd x) \<le> fst y" if xy: "x \<in> set_tree t" "y \<in> set_tree t" "fst x < fst y" for x y
  proof -
    obtain a b where ab: "x = entry_of a" "a \<in> set as" "y = entry_of b" "b \<in> set as"
      using xy(1,2) unfolding assms(3) by (elim imageE)
    then have "unat (fst a) < unat (fst b)" using xy(3) by (simp add: entry_of_def word_less_nat_alt)
    then have "unat (fst a) + unat (snd a) \<le> unat (fst b)" using d [OF ab(2,4)] by auto
    then show ?thesis using ab e [OF ab(2)] by (simp add: word_le_nat_alt entry_of_def)
  qed
  have "sorted_wrt (\<lambda>a b. r_end (snd a) \<le> fst b) (inorder t)"
  proof (rule sorted_wrt_mono_rel [of _ "\<lambda>a b. fst a < fst b"])
    show "sorted_wrt (\<lambda>a b. fst a < fst b) (inorder t)" using assms(2) by (simp add: tree_ok_def)
  qed (use le in simp)
  moreover have "fst x \<le> r_end (snd x)" if x: "x \<in> set_tree t" for x
  proof -
    obtain a where a: "x = entry_of a" "a \<in> set as" using x unfolding assms(3) by (elim imageE)
    then show ?thesis using e [OF a(2)] by (simp add: word_le_nat_alt entry_of_def)
  qed
  ultimately show ?thesis by (simp add: ranges_ok_def)
qed

text \<open>C26: After a sequence of allocations that do not overlap, a pointer is reported as a device pointer exactly when it points into one of them.\<close>

theorem device_pointers_found:
  assumes "glib_insert ins" "allocations_ok as" "t = foldl (\<lambda>t a. helper_save_gpu_address_range ins True (fst a) (snd a) 0 t) Leaf as"
  shows "cudaPointerGetAttributes t True p e =
    Inr (if \<exists>a \<in> set as. unat (fst a) \<le> unat p \<and> unat p < unat (fst a) + unat (snd a)
         then (CudaSuccess, Some MemoryTypeDevice, e) else (CudaErrorInvalidValue, Some MemoryTypeUnregistered, CudaErrorInvalidValue))"
proof -
  have t: "tree_ok t" "set_tree t = entry_of ` set as" using saved_tree [OF assms(1,2)] assms(3) by simp_all
  have "in_range p (snd (entry_of a)) \<longleftrightarrow> unat (fst a) \<le> unat p \<and> unat p < unat (fst a) + unat (snd a)" if "a \<in> set as" for a
  proof -
    have "unat (fst a + snd a) = unat (fst a) + unat (snd a)" using assms(2) that by (intro unat_plus_small) (auto simp: allocations_ok_def)
    then show ?thesis by (simp add: in_range_def entry_of_def word_le_nat_alt word_less_nat_alt)
  qed
  then have ex: "(\<exists>kr \<in> set_tree t. in_range p (snd kr)) \<longleftrightarrow> (\<exists>a \<in> set as. unat (fst a) \<le> unat p \<and> unat p < unat (fst a) + unat (snd a))"
    unfolding t(2) by auto
  obtain r where "g_tree_search (\<lambda>a. gpu_address_search_func t a p) t = Inr r" "r \<noteq> None \<longleftrightarrow> (\<exists>kr \<in> set_tree t. in_range p (snd kr))"
    using search_subtree [OF t(1) t(1) saved_ranges [OF assms(2) t], of p] by auto
  then show ?thesis unfolding ex by (cases r) (auto simp: cudaPointerGetAttributes_def)
qed

text \<open>An insertion without balancing keeps the promise.\<close>

fun plain_insert :: "u64 \<Rightarrow> gpu_address_range \<Rightarrow> address_tree \<Rightarrow> address_tree" where
  "plain_insert k r Leaf = Node Leaf (k, r) Leaf"
| "plain_insert k r (Node l a t) =
     (if k = fst a then Node l (k, r) t else if k < fst a then Node (plain_insert k r l) a t else Node l a (plain_insert k r t))"

lemma plain_insert_set:
  "sorted_wrt (\<lambda>a b. fst a < fst b) (inorder t) \<Longrightarrow> set_tree (plain_insert k r t) = insert (k, r) {a \<in> set_tree t. fst a \<noteq> k}"
  by (induction t) (auto simp: sorted_wrt_append)

lemma plain_insert_sorted:
  "sorted_wrt (\<lambda>a b. fst a < fst b) (inorder t) \<Longrightarrow> sorted_wrt (\<lambda>a b. fst a < fst b) (inorder (plain_insert k r t))"
proof (induction t)
  case (Node l a t)
  have s: "sorted_wrt (\<lambda>a b. fst a < fst b) (inorder l)" "sorted_wrt (\<lambda>a b. fst a < fst b) (inorder t)" using Node.prems by (simp_all add: sorted_wrt_append)
  then show ?case using Node by (auto simp: sorted_wrt_append plain_insert_set [OF s(1)] plain_insert_set [OF s(2)] intro: less_trans)
qed simp

lemma plain_insert_ok: "glib_insert plain_insert"
  using plain_insert_set plain_insert_sorted by (simp add: glib_insert_def)

theorem device_pointers_found_witness:
  "cudaPointerGetAttributes (plain_insert 0x3000 \<lparr>r_start = 0x3000, r_end = 0x3020\<rparr> (plain_insert 0x1000 \<lparr>r_start = 0x1000, r_end = 0x1100\<rparr> Leaf)) True 0x1080 CudaSuccess =
     Inr (CudaSuccess, Some MemoryTypeDevice, CudaSuccess)"
  using device_pointers_found [OF plain_insert_ok, of "[(0x1000, 0x100), (0x3000, 0x20)]" _ "0x1080" CudaSuccess]
  by (simp add: allocations_ok_def helper_save_gpu_address_range_def)

end
