(* ===== verification/Kernel_Info.thy ===== *)
theory Kernel_Info
  imports Server_Address
begin

text \<open>
  What the CUDA specification \<open>cava/samples/cudart.nw.c\<close> knows about kernels: the sizes of their parameters, read from the output of \<open>cuobjdump\<close>, which of
  the parameters are handles, read from the mangled name, and the registration of host functions. The pipe is the text that the
  program prints. A fixed array is a list of its size; writing behind it is a fault, as are the overflow of an \<open>int\<close> and
  a conversion in a line that serves as a format.
\<close>

section \<open>Functions of a fat binary\<close>

record kernel_arg =
  is_handle :: bool
  arg_size :: u32

record fatbin_function =
  argc :: nat
  args :: "kernel_arg list"
  cufunc :: pointer
  hostfunc :: pointer
  cu_module :: pointer

definition MAX_KERNEL_ARG :: nat where
  "MAX_KERNEL_ARG = 25"

definition MAX_KERNEL_NAME_LEN :: nat where
  "MAX_KERNEL_NAME_LEN = 1024"

definition no_arg :: kernel_arg where
  "no_arg = \<lparr>is_handle = False, arg_size = 0\<rparr>"

definition new_function :: fatbin_function where
  "new_function = \<lparr>argc = 0, args = replicate MAX_KERNEL_ARG no_arg, cufunc = 0, hostfunc = 0, cu_module = 0\<rparr>"

text \<open>The array of handles ends with a null pointer.\<close>

fun helper_cubin_num :: "pointer list \<Rightarrow> nat res" where
  "helper_cubin_num [] = Inl OutOfBounds"
| "helper_cubin_num (h # hs) = (if h \<noteq> 0 then rbind (helper_cubin_num hs) (\<lambda>n. Inr (Suc n)) else Inr 0)"

section \<open>Reading the output of cuobjdump\<close>

text \<open>What \<open>fgets\<close> with a buffer of \<open>Suc n\<close> bytes delivers, call by call.\<close>

definition fgets_line :: "nat \<Rightarrow> string \<Rightarrow> nat" where
  "fgets_line n s = (let k = length (takeWhile (\<lambda>c. c \<noteq> CHR 0x0A) s) in min n (Suc k))"

function fgets_all :: "nat \<Rightarrow> string \<Rightarrow> string list" where
  "fgets_all n s = (if s = [] \<or> n = 0 then [] else take (fgets_line n s) s # fgets_all n (drop (fgets_line n s) s))"
  by pat_completeness auto
termination
  by (relation "measure (\<lambda>(n, s). length s)") (auto simp: fgets_line_def Let_def)

declare fgets_all.simps [simp del]

text \<open>\<open>sscanf\<close> with literal text and one hexadecimal conversion. White space in the format matches any amount of white space; the conversion is that of \<open>strtoul\<close>.\<close>

definition hex_val :: "char \<Rightarrow> nat option" where
  "hex_val c =
     (let n = (of_char c :: nat)
      in if 48 \<le> n \<and> n \<le> 57 then Some (n - 48) else if 97 \<le> n \<and> n \<le> 102 then Some (n - 87) else if 65 \<le> n \<and> n \<le> 70 then Some (n - 55) else None)"

fun read_hex :: "nat \<Rightarrow> string \<Rightarrow> nat" where
  "read_hex acc [] = acc"
| "read_hex acc (c # cs) = (case hex_val c of None \<Rightarrow> acc | Some d \<Rightarrow> read_hex (16 * acc + d) cs)"

definition starts_hex :: "string \<Rightarrow> bool" where
  "starts_hex s = (case s of [] \<Rightarrow> False | c # _ \<Rightarrow> hex_val c \<noteq> None)"

fun scan_literal :: "string \<Rightarrow> string \<Rightarrow> string option" where
  "scan_literal [] s = Some s"
| "scan_literal (f # fs) s =
     (if is_space f then scan_literal fs (dropWhile is_space s)
      else case s of [] \<Rightarrow> None | c # cs \<Rightarrow> if c = f then scan_literal fs cs else None)"

definition scan_hex :: "string \<Rightarrow> int option" where
  "scan_hex s =
     (let s = dropWhile is_space s;
          negative = (take 1 s = ''-'');
          s = (if take 1 s = ''-'' \<or> take 1 s = ''+'' then drop 1 s else s);
          s = (if (take 2 s = ''0x'' \<or> take 2 s = ''0X'') \<and> starts_hex (drop 2 s) then drop 2 s else s);
          n = read_hex 0 s
      in if \<not> starts_hex s then None
         else if 2 ^ 64 \<le> n then Some (2 ^ 64 - 1)
         else Some (if negative then - int n else int n))"

definition sscanf_hex :: "string \<Rightarrow> string \<Rightarrow> int option" where
  "sscanf_hex literal s = (case scan_literal literal s of None \<Rightarrow> None | Some r \<Rightarrow> scan_hex r)"

text \<open>The name between the prefix and the last character of the line. The line is the format of \<open>sprintf\<close>, and it is copied before its length is checked.\<close>

definition kernel_name :: "string \<Rightarrow> string res" where
  "kernel_name line =
     (if CHR ''%'' \<in> set (drop 9 line) then Inl (Aborted ''sprintf: conversion in the line'')
      else if MAX_KERNEL_NAME_LEN \<le> length (drop 9 line) then Inl OutOfBounds
      else rbind (c_assert (10 \<le> length line \<and> length line - 10 < MAX_KERNEL_NAME_LEN) ''strlen(line) - 10 < MAX_KERNEL_NAME_LEN'') (\<lambda>_.
           Inr (take (length line - 10) (drop 9 line))))"

text \<open>The variables for ordinal and size keep their value when \<open>sscanf\<close> finds nothing; before that they have none.\<close>

record scan_vars =
  ordinal :: "int option"
  scanned_size :: "u64 option"

definition read_parameter :: "string \<Rightarrow> scan_vars \<Rightarrow> fatbin_function \<Rightarrow> (scan_vars \<times> fatbin_function) res" where
  "read_parameter line v func =
     (let at_O = dropWhile (\<lambda>c. c \<noteq> CHR ''O'') line;
          v = (case sscanf_hex (''Ordinal'' @ [CHR 0x09] @ '': 0x'') at_O of None \<Rightarrow> v | Some n \<Rightarrow> v\<lparr>ordinal := Some (sint (of_int n :: u32))\<rparr>);
          at_S = dropWhile (\<lambda>c. c \<noteq> CHR ''S'') at_O;
          v = (case sscanf_hex (''Size'' @ [CHR 0x09] @ '': 0x'') at_S of None \<Rightarrow> v | Some n \<Rightarrow> v\<lparr>scanned_size := Some (of_int n)\<rparr>)
      in case ordinal v of None \<Rightarrow> Inl Uninitialised
         | Some i \<Rightarrow>
             rbind (c_assert (i < int MAX_KERNEL_ARG) ''ordinal < MAX_KERNEL_ARG'') (\<lambda>_.
             case scanned_size v of None \<Rightarrow> Inl Uninitialised
             | Some sz \<Rightarrow>
                 if i < 0 then Inl OutOfBounds
                 else Inr (v, func\<lparr>args := (args func)[nat i := (args func ! nat i)\<lparr>arg_size := ucast sz\<rparr>], argc := argc func + 1\<rparr>)))"

text \<open>The lines of one function, up to an empty line. A call of \<open>fgets\<close> at the end leaves the buffer as it is.\<close>

function read_parameters :: "string list \<Rightarrow> scan_vars \<Rightarrow> fatbin_function \<Rightarrow> (string list \<times> scan_vars \<times> fatbin_function) res" where
  "read_parameters [] v func = Inr ([], v, func)"
| "read_parameters (line # ls) v func =
     (let s = dropWhile is_space line
      in if s = [] then Inr (ls, v, func)
         else if take 10 s = ''Attribute:'' \<and> take 18 (dropWhile is_space (drop 10 s)) = ''EIATTR_KPARAM_INFO''
         then case read_parameter (last (line # take 2 ls)) v func of Inl f \<Rightarrow> Inl f | Inr (v, func) \<Rightarrow> read_parameters (drop 2 ls) v func
         else read_parameters ls v func)"
  by pat_completeness auto
termination
  by (relation "measure (\<lambda>(ls, v, func). length ls)") auto

lemma read_parameters_shorter: "read_parameters ls v func = Inr (ls', v', func') \<Longrightarrow> length ls' \<le> length ls"
proof (induction ls v func rule: read_parameters.induct)
  case (2 line ls v func)
  then show ?case by (force simp: Let_def split: if_splits sum.splits)
qed simp

record fatbin_table =
  fatbin_funcs :: "string \<rightharpoonup> fatbin_function"
  num_funcs :: nat

text \<open>A function that is known already is skipped line by line.\<close>

function read_functions :: "string list \<Rightarrow> scan_vars \<Rightarrow> fatbin_table \<Rightarrow> fatbin_table res" where
  "read_functions [] v t = Inr t"
| "read_functions (line # ls) v t =
     (if take 9 line = ''.nv.info.''
      then case kernel_name line of Inl f \<Rightarrow> Inl f
           | Inr name \<Rightarrow>
               if fatbin_funcs t name \<noteq> None then read_functions ls v t
               else case read_parameters ls v new_function of Inl f \<Rightarrow> Inl f
                    | Inr (ls', v, func) \<Rightarrow> read_functions ls' v \<lparr>fatbin_funcs = (fatbin_funcs t)(name \<mapsto> func), num_funcs = num_funcs t + 1\<rparr>
      else read_functions ls v t)"
  by pat_completeness auto
termination
  by (relation "measure (\<lambda>(ls, v, t). length ls)") (auto dest: read_parameters_shorter)

text \<open>\<open>output\<close> is what the pipe delivers, or \<open>None\<close> when it does not open.\<close>

definition helper_dump_fatbin :: "string option \<Rightarrow> fatbin_table option \<Rightarrow> fatbin_table res" where
  "helper_dump_fatbin output table =
     (let t = (case table of None \<Rightarrow> \<lparr>fatbin_funcs = Map.empty, num_funcs = 0\<rparr> | Some t \<Rightarrow> t)
      in case output of None \<Rightarrow> Inl (AssertFail ''fp_pipe'')
         | Some text \<Rightarrow> read_functions (fgets_all 2047 text) \<lparr>ordinal = None, scanned_size = None\<rparr> t)"

section \<open>Host functions\<close>












text \<open>The extra parameters of a launch end with \<open>CU_LAUNCH_PARAM_END\<close>, which is counted.\<close>

fun helper_launch_extra_size :: "pointer list \<Rightarrow> nat res" where
  "helper_launch_extra_size [] = Inl OutOfBounds"
| "helper_launch_extra_size (p # ps) = (if p \<noteq> 0 then rbind (helper_launch_extra_size ps) (\<lambda>n. Inr (Suc n)) else Inr 1)"

section \<open>Handles among the parameters\<close>

definition set_handle :: "nat \<Rightarrow> bool \<Rightarrow> kernel_arg list \<Rightarrow> kernel_arg list res" where
  "set_handle n b as = (if n < length as then Inr (as[n := (as ! n)\<lparr>is_handle := b\<rparr>]) else Inl OutOfBounds)"

definition is_digit :: "char \<Rightarrow> bool" where
  "is_digit c \<longleftrightarrow> digit_val c \<noteq> None"

text \<open>A length and as many characters, in the last characters of a string of length \<open>len\<close>. An index that leaves the range of \<open>int\<close> is a fault.\<close>

definition skip_name :: "nat \<Rightarrow> string \<Rightarrow> string res" where
  "skip_name len s =
     (let n = read_digits 0 (takeWhile is_digit s); r = dropWhile is_digit s
      in if 2 ^ 31 \<le> len - length r + n then Inl (Aborted ''signed overflow'') else Inr (drop n r))"

lemma skip_name_shorter: "skip_name len s = Inr r \<Longrightarrow> length r \<le> length s"
  using length_dropWhile_le [of is_digit s] by (auto simp: skip_name_def Let_def split: if_splits)

text \<open>The characters from the current index on. \<open>strchr\<close> also finds the character that ends the string.\<close>

function parse_params :: "nat \<Rightarrow> string \<Rightarrow> nat \<Rightarrow> kernel_arg list \<Rightarrow> kernel_arg list res" where
  "parse_params len [] n as = Inr as"
| "parse_params len (c # s) n as =
     (if c = CHR ''P''
      then case set_handle n True as of Inl f \<Rightarrow> Inl f
           | Inr as \<Rightarrow>
               let s = (case s of [] \<Rightarrow> [] | q # r \<Rightarrow> if q \<in> set ''rVK'' then r else s)
               in case s of [] \<Rightarrow> Inl (Aborted ''abort'')
                  | b # r \<Rightarrow>
                      if b \<in> set ''fijl'' then parse_params len r (n + 1) as
                      else if is_digit b then case skip_name len s of Inl f \<Rightarrow> Inl f | Inr r \<Rightarrow> parse_params len r (n + 1) as
                      else Inl (Aborted ''abort'')
      else if c \<in> set ''fijl'' then case set_handle n False as of Inl f \<Rightarrow> Inl f | Inr as \<Rightarrow> parse_params len s (n + 1) as
      else if c = CHR ''S''
      then case set_handle n True as of Inl f \<Rightarrow> Inl f | Inr as \<Rightarrow> parse_params len (tl (dropWhile (\<lambda>c. c \<noteq> CHR ''_'') (c # s))) (n + 1) as
      else if c = CHR ''v'' then Inr as
      else if c \<in> set ''rVK'' then parse_params len s n as
      else Inl (Aborted ''abort''))"
  by pat_completeness auto
termination
proof (relation "measure (\<lambda>(len, s, n, as). length s)")
  show "((len, tl (dropWhile (\<lambda>c. c \<noteq> CHR ''_'') (c # s)), n + 1, as'), len, c # s, n, as) \<in> measure (\<lambda>(len, s, n, as). length s)" for len c s n as as'
    using length_dropWhile_le [of "\<lambda>c. c \<noteq> CHR ''_''" "c # s"] by (simp add: le_imp_less_Suc)
qed (auto dest!: skip_name_shorter split: list.splits if_splits)

declare parse_params.simps(2) [simp del]

definition helper_parse_function_args :: "string \<Rightarrow> kernel_arg list \<Rightarrow> kernel_arg list res" where
  "helper_parse_function_args name as =
     (if take 2 name \<noteq> ''_Z'' then Inl (Aborted ''abort'')
      else rbind (skip_name (length name) (drop 2 name)) (\<lambda>s. parse_params (length name) s 0 as))"

section \<open>Mangled signatures\<close>

text \<open>The parameters that the parser knows: scalars, pointers to scalars, pointers to named types, and substitutions; and their mangling. A parameter may have
  qualifiers in front.\<close>

datatype kernel_param = Scalar char | Pointer "char option" char | StructPointer "char option" string | Substitution string | Qualified char kernel_param

definition qualifier :: "char option \<Rightarrow> string" where
  "qualifier q = (case q of None \<Rightarrow> [] | Some c \<Rightarrow> [c])"

definition type_name :: "string \<Rightarrow> string" where
  "type_name name = nat_string (length name) @ name"

fun mangle_param :: "kernel_param \<Rightarrow> string" where
  "mangle_param (Scalar c) = [c]"
| "mangle_param (Pointer q c) = ''P'' @ qualifier q @ [c]"
| "mangle_param (StructPointer q name) = ''P'' @ qualifier q @ type_name name"
| "mangle_param (Substitution n) = ''S'' @ n @ ''_''"
| "mangle_param (Qualified q p) = q # mangle_param p"

definition name_ok :: "string \<Rightarrow> bool" where
  "name_ok name \<longleftrightarrow> name \<noteq> [] \<and> \<not> is_digit (hd name)"

fun param_ok :: "kernel_param \<Rightarrow> bool" where
  "param_ok (Scalar c) \<longleftrightarrow> c \<in> set ''fijl''"
| "param_ok (Pointer q c) \<longleftrightarrow> set_option q \<subseteq> set ''rVK'' \<and> c \<in> set ''fijl''"
| "param_ok (StructPointer q name) \<longleftrightarrow> set_option q \<subseteq> set ''rVK'' \<and> name_ok name"
| "param_ok (Substitution n) \<longleftrightarrow> CHR ''_'' \<notin> set n"
| "param_ok (Qualified q p) \<longleftrightarrow> q \<in> set ''rVK'' \<and> param_ok p"

fun points :: "kernel_param \<Rightarrow> bool" where
  "points (Scalar c) = False"
| "points (Qualified q p) = points p"
| "points _ = True"

definition mangle :: "string \<Rightarrow> kernel_param list \<Rightarrow> string" where
  "mangle name ps = ''_Z'' @ type_name name @ (if ps = [] then ''v'' else concat (map mangle_param ps))"

lemma skip_type_name:
  assumes "name_ok name" "length (type_name name @ s) \<le> len" "len < 2 ^ 31"
  shows "skip_name len (type_name name @ s) = Inr s"
proof -
  have d: "\<forall>c \<in> set (nat_string (length name)). is_digit c" using nat_string_digits by (simp add: is_digit_def)
  have n: "takeWhile is_digit (name @ s) = []" "dropWhile is_digit (name @ s) = name @ s" using assms(1) by (cases name; simp add: name_ok_def)+
  have t: "takeWhile is_digit (type_name name @ s) = nat_string (length name)" "dropWhile is_digit (type_name name @ s) = name @ s"
    using d n by (simp_all add: type_name_def takeWhile_append2 dropWhile_append2)
  have "\<not> 2 ^ 31 \<le> len - length (name @ s) + length name" using assms(2,3) by (simp add: type_name_def)
  then show ?thesis unfolding skip_name_def t Let_def read_nat_string by simp
qed

lemma type_name_Cons: "name_ok name \<Longrightarrow> \<exists>b r. type_name name = b # r \<and> is_digit b"
  using nat_string_nonempty [of "length name"] nat_string_digits [of _ "length name"]
  by (cases "nat_string (length name)") (auto simp: type_name_def is_digit_def)

lemma digit_no_letter: "is_digit b \<Longrightarrow> b \<notin> set ''fijl'' \<and> b \<notin> set ''rVK''"
  by (auto simp: is_digit_def digit_val_def Let_def split: if_splits)

lemma letters_no_qualifier: "c \<in> set ''fijl'' \<Longrightarrow> c \<notin> set ''rVK'' \<and> c \<noteq> CHR ''P'' \<and> c \<noteq> CHR ''S'' \<and> c \<noteq> CHR ''v''"
  by auto

lemma parse_param:
  assumes "param_ok p" "n < length as" "length (mangle_param p @ s) \<le> len" "len < 2 ^ 31"
  shows "parse_params len (mangle_param p @ s) n as = parse_params len s (n + 1) (as[n := (as ! n)\<lparr>is_handle := points p\<rparr>])"
  using assms
proof (induction p)
  case (Scalar c)
  then show ?case using letters_no_qualifier [of c] by (simp add: parse_params.simps(2) set_handle_def)
next
  case (Pointer q c)
  then show ?case using letters_no_qualifier [of c] by (cases q) (auto simp: parse_params.simps(2) set_handle_def qualifier_def Let_def)
next
  case (StructPointer q name)
  then have nm: "name_ok name" by simp
  obtain b r where b: "type_name name = b # r" "is_digit b" using type_name_Cons [OF nm] by (elim exE conjE)
  have sk: "skip_name len (b # r @ s) = Inr s" using skip_type_name [OF nm, of s len] StructPointer.prems(3,4) b(1) by simp
  show ?case using StructPointer.prems(1,2) digit_no_letter [OF b(2)] sk b
    by (cases q) (auto simp: parse_params.simps(2) set_handle_def qualifier_def Let_def)
next
  case (Substitution m)
  then have "dropWhile (\<lambda>c. c \<noteq> CHR ''_'') (CHR ''S'' # m @ CHR ''_'' # s) = CHR ''_'' # s" by (simp add: dropWhile_append3 dropWhile_append)
  then show ?case using Substitution by (simp add: parse_params.simps(2) set_handle_def)
next
  case (Qualified q p)
  then show ?case by (auto simp: parse_params.simps(2))
qed

fun mark_args :: "nat \<Rightarrow> kernel_param list \<Rightarrow> kernel_arg list \<Rightarrow> kernel_arg list" where
  "mark_args n [] as = as"
| "mark_args n (p # ps) as = mark_args (n + 1) ps (as[n := (as ! n)\<lparr>is_handle := points p\<rparr>])"

lemma parse_all_params:
  "list_all param_ok ps \<Longrightarrow> n + length ps \<le> length as \<Longrightarrow> length (concat (map mangle_param ps)) \<le> len \<Longrightarrow> len < 2 ^ 31 \<Longrightarrow>
   parse_params len (concat (map mangle_param ps)) n as = Inr (mark_args n ps as)"
  by (induction ps arbitrary: n as) (simp_all add: parse_param)

lemma mark_args_nth:
  "n + length ps \<le> length as \<Longrightarrow> length (mark_args n ps as) = length as \<and>
   (\<forall>i < length as. mark_args n ps as ! i = (if n \<le> i \<and> i < n + length ps then (as ! i)\<lparr>is_handle := points (ps ! (i - n))\<rparr> else as ! i))"
proof (induction ps arbitrary: n as)
  case (Cons p ps)
  let ?as = "as[n := (as ! n)\<lparr>is_handle := points p\<rparr>]"
  have "n + 1 + length ps \<le> length ?as" using Cons.prems by simp
  note i = Cons.IH [OF this]
  show ?case
  proof (intro conjI allI impI)
    fix j assume j: "j < length as"
    then show "mark_args n (p # ps) as ! j = (if n \<le> j \<and> j < n + length (p # ps) then (as ! j)\<lparr>is_handle := points ((p # ps) ! (j - n))\<rparr> else as ! j)"
      using i by (cases "j = n") (auto simp: nth_Cons')
  qed (use i in simp)
qed auto

text \<open>C27: For a kernel whose mangled name consists of the supported parts, exactly the parameters that are pointers or substitutions are marked as
  handles, and nothing else about the parameters changes.\<close>

theorem mangled_handles:
  assumes "name_ok name" "list_all param_ok ps" "length ps \<le> length as" "length (mangle name ps) < 2 ^ 31"
  shows "\<exists>as'. helper_parse_function_args (mangle name ps) as = Inr as' \<and> length as' = length as \<and>
    (\<forall>i < length as. as' ! i = (if i < length ps then (as ! i)\<lparr>is_handle := points (ps ! i)\<rparr> else as ! i))"
proof -
  let ?l = "length (mangle name ps)" and ?s = "if ps = [] then ''v'' else concat (map mangle_param ps)"
  have sk: "skip_name ?l (type_name name @ ?s) = Inr ?s" by (rule skip_type_name [OF assms(1) _ assms(4)]) (simp add: mangle_def)
  have "parse_params ?l ?s 0 as = Inr (mark_args 0 ps as)"
  proof (cases "ps = []")
    case False
    have "length (concat (map mangle_param ps)) \<le> ?l" using False by (simp add: mangle_def)
    then show ?thesis using parse_all_params [OF assms(2), of 0 as ?l] assms(3,4) False by simp
  qed (simp add: parse_params.simps(2))
  moreover have "take 2 (mangle name ps) = ''_Z''" "drop 2 (mangle name ps) = type_name name @ ?s" by (simp_all add: mangle_def)
  ultimately have "helper_parse_function_args (mangle name ps) as = Inr (mark_args 0 ps as)" using sk by (simp add: helper_parse_function_args_def)
  then show ?thesis using mark_args_nth [of 0 ps as] assms(3) by (intro exI [of _ "mark_args 0 ps as"]) simp
qed

theorem mangled_handles_witness:
  "\<exists>as'. helper_parse_function_args (mangle ''vecAdd'' [Pointer (Some CHR ''K'') CHR ''f'', StructPointer None ''mat'', Scalar CHR ''i'']) (args new_function) = Inr as' \<and>
     is_handle (as' ! 0) \<and> is_handle (as' ! 1) \<and> \<not> is_handle (as' ! 2) \<and> \<not> is_handle (as' ! 3)"
proof -
  let ?ps = "[Pointer (Some CHR ''K'') CHR ''f'', StructPointer None ''mat'', Scalar CHR ''i'']"
  have n: "name_ok ''vecAdd''" "list_all param_ok ?ps" by (simp_all add: name_ok_def is_digit_def digit_val_def)
  have l: "length (args new_function) = 25" "args new_function ! 3 = no_arg" by (simp_all add: new_function_def MAX_KERNEL_ARG_def)
  have "length (mangle ''vecAdd'' ?ps) < 2 ^ 31" by (simp add: mangle_def type_name_def qualifier_def nat_string.simps)
  with mangled_handles [OF n, of "args new_function"] l obtain as' where a: "helper_parse_function_args (mangle ''vecAdd'' ?ps) (args new_function) = Inr as'"
      "\<forall>i < 25. as' ! i = (if i < 3 then (args new_function ! i)\<lparr>is_handle := points (?ps ! i)\<rparr> else args new_function ! i)" by auto
  have "as' ! 0 = (args new_function ! 0)\<lparr>is_handle := True\<rparr>" "as' ! 1 = (args new_function ! 1)\<lparr>is_handle := True\<rparr>"
      "as' ! 2 = (args new_function ! 2)\<lparr>is_handle := False\<rparr>" "as' ! 3 = no_arg" using a(2) l(2) by simp_all
  with a(1) show ?thesis by (auto simp: no_arg_def)
qed

section \<open>Printed tables\<close>

text \<open>What \<open>cuobjdump\<close> prints for a list of kernels: their names, and ordinal, offset and size of their parameters.\<close>

definition hex_char :: "nat \<Rightarrow> char" where
  "hex_char n = ''0123456789abcdef'' ! n"

fun hex_string :: "nat \<Rightarrow> string" where
  "hex_string n = (if n < 16 then [hex_char n] else hex_string (n div 16) @ [hex_char (n mod 16)])"

declare hex_string.simps [simp del]

abbreviation tab :: char where "tab \<equiv> CHR 0x09"
abbreviation newline :: char where "newline \<equiv> CHR 0x0A"

definition value_line :: "nat \<times> nat \<times> nat \<Rightarrow> string" where
  "value_line p = (case p of (i, off, sz) \<Rightarrow>
     [tab] @ ''Value:'' @ [tab] @ ''Index : 0x0'' @ [tab] @ ''Ordinal : 0x'' @ hex_string i @ [tab] @ ''Offset  : 0x'' @ hex_string off @ [tab] @
     ''Size    : 0x'' @ hex_string sz @ [newline])"

definition param_lines :: "nat \<times> nat \<times> nat \<Rightarrow> string list" where
  "param_lines p =
     [[tab] @ ''Attribute:'' @ [tab] @ ''EIATTR_KPARAM_INFO'' @ [newline], [tab] @ ''Format:'' @ [tab] @ ''EIFMT_SVAL'' @ [newline], value_line p,
      [tab] @ ''Space : 0x0'' @ [newline]]"

definition function_lines :: "string \<times> (nat \<times> nat \<times> nat) list \<Rightarrow> string list" where
  "function_lines f = (''.nv.info.'' @ fst f @ [newline]) # concat (map param_lines (snd f)) @ [[newline]]"

definition kernel_text :: "(string \<times> (nat \<times> nat \<times> nat) list) list \<Rightarrow> string" where
  "kernel_text fs = concat (concat (map function_lines fs))"

definition kernel_ok :: "string \<times> (nat \<times> nat \<times> nat) list \<Rightarrow> bool" where
  "kernel_ok f \<longleftrightarrow> newline \<notin> set (fst f) \<and> CHR ''%'' \<notin> set (fst f) \<and> length (fst f) < 1023 \<and> distinct (map fst (snd f)) \<and>
     list_all (\<lambda>(i, off, sz). i < MAX_KERNEL_ARG \<and> off < 2 ^ 32 \<and> sz < 2 ^ 32) (snd f)"

lemma hex_val_char: "n < 16 \<Longrightarrow> hex_val (hex_char n) = Some n"
proof -
  assume "n < 16"
  then have "n \<in> set [0..<16]" by simp
  moreover have "list_all (\<lambda>n. hex_val (hex_char n) = Some n) [0..<16]" by code_simp
  ultimately show ?thesis by (auto simp: list_all_iff)
qed

lemma hex_string_nonempty [simp]: "hex_string n \<noteq> []"
  by (subst hex_string.simps) simp

lemma hex_string_digits: "\<forall>c \<in> set (hex_string n). hex_val c \<noteq> None"
proof (induction n rule: hex_string.induct)
  case (1 n)
  then show ?case using hex_val_char [of n] hex_val_char [of "n mod 16"] by (subst hex_string.simps) auto
qed

lemma read_hex_append: "\<forall>c \<in> set xs. hex_val c \<noteq> None \<Longrightarrow> read_hex acc (xs @ ys) = read_hex (read_hex acc xs) ys"
  by (induction xs arbitrary: acc) auto

lemma read_hex_string: "read_hex 0 (hex_string n) = n"
proof (induction n rule: hex_string.induct)
  case (1 n)
  show ?case
  proof (cases "n < 16")
    case True
    then show ?thesis by (simp add: hex_string.simps [of n] hex_val_char)
  next
    case False
    then show ?thesis using 1 by (simp add: hex_string.simps [of n] hex_val_char read_hex_append hex_string_digits)
  qed
qed

lemma hex_string_length: "n < 16 ^ Suc k \<Longrightarrow> length (hex_string n) \<le> Suc k"
proof (induction k arbitrary: n)
  case 0
  then show ?case by (simp add: hex_string.simps)
next
  case (Suc k)
  have "n div 16 < 16 ^ Suc k" using Suc.prems by (simp add: div_less_iff_less_mult mult.commute)
  then show ?case using Suc.IH [of "n div 16"] by (subst hex_string.simps) simp
qed

lemma hex_val_other: "hex_val c \<noteq> None \<Longrightarrow> c \<notin> set ''+-xX'' \<and> c \<noteq> tab \<and> c \<noteq> newline \<and> \<not> is_space c"
  by (auto simp: hex_val_def is_space_def Let_def split: if_splits)

lemma scan_hex_string:
  assumes "n < 2 ^ 64" "c = tab \<or> c = newline"
  shows "scan_hex (hex_string n @ c # r) = Some (int n)"
proof -
  have c: "hex_val c = None" "c \<notin> set ''xX''" using assms(2) by (auto simp: hex_val_def)
  have rd: "read_hex 0 (hex_string n @ c # r) = n" using read_hex_append [OF hex_string_digits, of 0 n] read_hex_string c(1) by simp
  obtain d ds where h: "hex_string n = d # ds" by (cases "hex_string n") auto
  have d: "hex_val d \<noteq> None" "\<forall>x \<in> set ds. hex_val x \<noteq> None" using hex_string_digits [of n] by (simp_all add: h)
  have x: "\<forall>x \<in> set ds. x \<notin> set ''xX''"
  proof
    fix x assume "x \<in> set ds"
    then show "x \<notin> set ''xX''" using hex_val_other [OF bspec [OF d(2)]] by simp
  qed
  have t: "take 2 (d # ds @ c # r) \<noteq> ''0x''" "take 2 (d # ds @ c # r) \<noteq> ''0X''" using c(2) x by (cases ds; auto)+
  have o: "\<not> is_space d" "d \<noteq> CHR ''-''" "d \<noteq> CHR ''+''" using hex_val_other [OF d(1)] by simp_all
  have p: "take 2 (d # ds @ c # r) = ''0x'' \<longleftrightarrow> False" "take 2 (d # ds @ c # r) = ''0X'' \<longleftrightarrow> False" using t by (simp_all only: not_False_eq_True)
  have "starts_hex (d # ds @ c # r)" using d(1) by (simp only: starts_hex_def list.case not_False_eq_True)
  moreover have "read_hex 0 (d # ds @ c # r) = n" using rd h by (simp only: append_Cons)
  moreover have "take 1 (d # ds @ c # r) = [d]" "dropWhile is_space (d # ds @ c # r) = d # ds @ c # r" using o by simp_all
  moreover have "\<not> 2 ^ 64 \<le> n" using assms(1) by (simp only: not_le)
  ultimately show ?thesis using o p by (simp only: scan_hex_def h append_Cons Let_def list.inject simp_thms if_False if_True)
qed

lemma fgets_all_lines:
  "list_all (\<lambda>l. l \<noteq> [] \<and> last l = newline \<and> newline \<notin> set (butlast l) \<and> length l \<le> n) ls \<Longrightarrow> fgets_all n (concat ls) = ls"
proof (induction ls)
  case (Cons l ls)
  define b where "b = butlast l"
  have l: "l = b @ [newline]" "newline \<notin> set b" "length l \<le> n" using Cons.prems by (auto simp: b_def) (metis append_butlast_last_id)
  have "takeWhile (\<lambda>c. c \<noteq> newline) (b @ r) = b @ takeWhile (\<lambda>c. c \<noteq> newline) r" for r using l(2) by (intro takeWhile_append2) auto
  then have "takeWhile (\<lambda>c. c \<noteq> newline) (l @ concat ls) = b" unfolding l(1) by simp
  then have "fgets_line n (l @ concat ls) = length l" using l by (simp add: fgets_line_def)
  moreover have "l \<noteq> []" "n \<noteq> 0" using l by auto
  ultimately show ?case using Cons by (subst fgets_all.simps) simp
qed (simp add: fgets_all.simps)

lemma read_value_line:
  assumes "i < MAX_KERNEL_ARG" "off < 2 ^ 32" "sz < 2 ^ 32"
  shows "read_parameter (value_line (i, off, sz)) v func =
    Inr (\<lparr>ordinal = Some (int i), scanned_size = Some (of_nat sz)\<rparr>,
         func\<lparr>args := (args func)[i := (args func ! i)\<lparr>arg_size := of_nat sz\<rparr>], argc := argc func + 1\<rparr>)"
proof -
  have nS: "dropWhile (\<lambda>c. c \<noteq> CHR ''S'') (hex_string n @ r) = dropWhile (\<lambda>c. c \<noteq> CHR ''S'') r" for n r
    using hex_string_digits [of n] by (intro dropWhile_append2) (auto simp: hex_val_def)
  let ?O = "''Ordinal : 0x'' @ hex_string i @ tab # ''Offset  : 0x'' @ hex_string off @ tab # ''Size    : 0x'' @ hex_string sz @ [newline]"
  have o: "dropWhile (\<lambda>c. c \<noteq> CHR ''O'') (value_line (i, off, sz)) = ?O" by (simp add: value_line_def)
  have s: "dropWhile (\<lambda>c. c \<noteq> CHR ''S'') ?O = ''Size    : 0x'' @ hex_string sz @ [newline]" by (simp add: nS)
  have i: "sscanf_hex (''Ordinal'' @ [tab] @ '': 0x'') ?O = Some (int i)"
    using scan_hex_string [of i tab] assms(1) by (simp add: sscanf_hex_def is_space_def MAX_KERNEL_ARG_def)
  have z: "sscanf_hex (''Size'' @ [tab] @ '': 0x'') (''Size    : 0x'' @ hex_string sz @ [newline]) = Some (int sz)"
    using scan_hex_string [of sz newline "[]"] assms(3) by (simp add: sscanf_hex_def is_space_def)
  have w: "sint (of_nat i :: u32) = int i" "ucast (of_nat sz :: u64) = (of_nat sz :: u32)"
    using assms(1,3) by (simp_all add: MAX_KERNEL_ARG_def signed_of_nat signed_take_bit_int_eq_self unsigned_of_nat take_bit_nat_eq_self)
  show ?thesis unfolding read_parameter_def o s i z Let_def using w assms(1) by (cases v) simp
qed

abbreviation fgets_ok :: "string \<Rightarrow> bool" where
  "fgets_ok l \<equiv> l \<noteq> [] \<and> last l = newline \<and> newline \<notin> set (butlast l) \<and> length l \<le> 2047"

definition store :: "fatbin_function \<Rightarrow> nat \<times> nat \<times> nat \<Rightarrow> fatbin_function" where
  "store func p = func\<lparr>args := (args func)[fst p := (args func ! fst p)\<lparr>arg_size := of_nat (snd (snd p))\<rparr>], argc := argc func + 1\<rparr>"

abbreviation stored_ok :: "nat \<times> nat \<times> nat \<Rightarrow> bool" where
  "stored_ok p \<equiv> case p of (i, off, sz) \<Rightarrow> i < MAX_KERNEL_ARG \<and> off < 2 ^ 32 \<and> sz < 2 ^ 32"

lemma read_param_lines:
  assumes "stored_ok p"
  shows "read_parameters (param_lines p @ ls) v func =
    read_parameters ls \<lparr>ordinal = Some (int (fst p)), scanned_size = Some (of_nat (snd (snd p)))\<rparr> (store func p)"
proof -
  obtain i off sz where p: "p = (i, off, sz)" by (cases p)
  have "take 10 (dropWhile is_space (tab # ''Space : 0x0'' @ [newline])) \<noteq> ''Attribute:''" by (simp add: is_space_def)
  then show ?thesis using read_value_line [of i off sz v func] assms unfolding p param_lines_def
    by (simp add: is_space_def store_def Let_def)
qed

lemma read_all_param_lines:
  "list_all stored_ok ps \<Longrightarrow> \<exists>v'. read_parameters (concat (map param_lines ps) @ [newline] # ls) v func = Inr (ls, v', foldl store func ps)"
proof (induction ps arbitrary: v func)
  case Nil
  then show ?case by (simp add: is_space_def Let_def)
next
  case (Cons p ps)
  then show ?case using read_param_lines [of p "concat (map param_lines ps) @ [newline] # ls" v func] by simp
qed

lemma store_args:
  "distinct (map fst ps) \<Longrightarrow> \<forall>p \<in> set ps. fst p < length (args func) \<Longrightarrow>
   length (args (foldl store func ps)) = length (args func) \<and> argc (foldl store func ps) = argc func + length ps \<and>
   (\<forall>i < length (args func). args (foldl store func ps) ! i =
      (case map_of ps i of None \<Rightarrow> args func ! i | Some (off, sz) \<Rightarrow> (args func ! i)\<lparr>arg_size := of_nat sz\<rparr>))"
proof (induction ps arbitrary: func)
  case (Cons p ps)
  let ?f = "store func p"
  have l: "length (args ?f) = length (args func)" "argc ?f = argc func + 1" by (simp_all add: store_def)
  have n: "map_of ps (fst p) = None" using Cons.prems(1) by (auto simp: map_of_eq_None_iff)
  have s: "args ?f ! i = (if i = fst p then (args func ! i)\<lparr>arg_size := of_nat (snd (snd p))\<rparr> else args func ! i)" if "i < length (args func)" for i
    using that by (simp add: store_def nth_list_update)
  have "distinct (map fst ps)" "\<forall>p \<in> set ps. fst p < length (args ?f)" using Cons.prems l by simp_all
  note i = Cons.IH [OF this]
  show ?case using i l n s by (simp split: prod.split option.split)
qed simp

lemma stored_function:
  assumes "kernel_ok (name, ps)"
  shows "argc (foldl store new_function ps) = length ps \<and>
    args (foldl store new_function ps) = map (\<lambda>i. \<lparr>is_handle = False, arg_size = (case map_of ps i of None \<Rightarrow> 0 | Some (off, sz) \<Rightarrow> of_nat sz)\<rparr>) [0..<MAX_KERNEL_ARG]"
proof -
  have n: "length (args new_function) = MAX_KERNEL_ARG" "argc new_function = 0" "\<forall>i < MAX_KERNEL_ARG. args new_function ! i = no_arg" by (simp_all add: new_function_def)
  have d: "distinct (map fst ps)" "\<forall>p \<in> set ps. fst p < length (args new_function)" using assms n(1) by (auto simp: kernel_ok_def list_all_iff)
  note st = store_args [OF d]
  show ?thesis
  proof
    show "args (foldl store new_function ps) = map (\<lambda>i. \<lparr>is_handle = False, arg_size = (case map_of ps i of None \<Rightarrow> 0 | Some (off, sz) \<Rightarrow> of_nat sz)\<rparr>) [0..<MAX_KERNEL_ARG]"
      using st n by (intro nth_equalityI) (auto simp: no_arg_def split: option.splits)
  qed (use st n(2) in simp)
qed

lemma kernel_name_line: "kernel_ok (name, ps) \<Longrightarrow> kernel_name (''.nv.info.'' @ name @ [newline]) = Inr name"
  by (auto simp: kernel_ok_def kernel_name_def MAX_KERNEL_NAME_LEN_def)

lemma skip_lines: "list_all (\<lambda>l. take 9 l \<noteq> ''.nv.info.'') ks \<Longrightarrow> read_functions (ks @ ls) v t = read_functions ls v t"
  by (induction ks) simp_all

lemma param_lines_skipped: "list_all (\<lambda>l. take 9 l \<noteq> ''.nv.info.'') (concat (map param_lines ps) @ [[newline]])"
proof (induction ps)
  case (Cons p ps)
  then show ?case by (cases p) (simp add: param_lines_def value_line_def)
qed simp

definition add_function :: "fatbin_table \<Rightarrow> string \<times> (nat \<times> nat \<times> nat) list \<Rightarrow> fatbin_table" where
  "add_function t f =
     (if fatbin_funcs t (fst f) \<noteq> None then t
      else \<lparr>fatbin_funcs = (fatbin_funcs t)(fst f \<mapsto> foldl store new_function (snd f)), num_funcs = num_funcs t + 1\<rparr>)"

lemma read_function_lines:
  assumes "kernel_ok f"
  shows "\<exists>v'. read_functions (function_lines f @ ls) v t = read_functions ls v' (add_function t f)"
proof -
  obtain name ps where f: "f = (name, ps)" by (cases f)
  have k: "kernel_name (''.nv.info.'' @ name @ [newline]) = Inr name" using assms kernel_name_line unfolding f by simp
  have "list_all stored_ok ps" using assms by (simp add: f kernel_ok_def)
  from read_all_param_lines [OF this, of ls v new_function] obtain v' where
    r: "read_parameters (concat (map param_lines ps) @ [newline] # ls) v new_function = Inr (ls, v', foldl store new_function ps)" ..
  show ?thesis
  proof (cases "fatbin_funcs t name = None")
    case True
    then show ?thesis using k r by (intro exI [of _ v']) (simp add: f function_lines_def add_function_def)
  next
    case False
    then show ?thesis using k skip_lines [OF param_lines_skipped, of ps ls v t]
      by (intro exI [of _ v]) (simp add: f function_lines_def add_function_def)
  qed
qed

lemma read_all_functions:
  "list_all kernel_ok fs \<Longrightarrow> read_functions (concat (map function_lines fs)) v t = Inr (foldl add_function t fs)"
proof (induction fs arbitrary: v t)
  case (Cons f fs)
  have "kernel_ok f" using Cons.prems by simp
  from read_function_lines [OF this, of "concat (map function_lines fs)" v t] obtain v'
    where "read_functions (function_lines f @ concat (map function_lines fs)) v t = read_functions (concat (map function_lines fs)) v' (add_function t f)" ..
  then show ?case using Cons by simp
qed simp

lemma add_functions:
  "finite (dom (fatbin_funcs t)) \<Longrightarrow> num_funcs t = card (dom (fatbin_funcs t)) \<Longrightarrow>
   (let t' = foldl add_function t fs
    in num_funcs t' = card (dom (fatbin_funcs t) \<union> fst ` set fs) \<and>
       (\<forall>name. fatbin_funcs t' name =
          (case fatbin_funcs t name of Some f \<Rightarrow> Some f | None \<Rightarrow> map_option (foldl store new_function) (map_of fs name))))"
proof (induction fs arbitrary: t)
  case (Cons f fs)
  have d: "dom (fatbin_funcs (add_function t f)) = insert (fst f) (dom (fatbin_funcs t))" by (auto simp: add_function_def)
  have "finite (dom (fatbin_funcs (add_function t f)))" "num_funcs (add_function t f) = card (dom (fatbin_funcs (add_function t f)))"
    using Cons.prems by (simp_all add: d) (auto simp: add_function_def card_insert_if domIff)
  note i = Cons.IH [OF this]
  show ?case using i unfolding d by (auto simp: Let_def add_function_def split: option.splits)
qed (simp add: option.case_eq_if)

lemma function_lines_fgets:
  assumes "kernel_ok f"
  shows "list_all fgets_ok (function_lines f)"
proof -
  have h: "newline \<notin> set (hex_string n)" for n
  proof
    assume "newline \<in> set (hex_string n)"
    from hex_val_other [OF bspec [OF hex_string_digits this]] show False by simp
  qed
  have p: "list_all fgets_ok (param_lines p)" if "stored_ok p" for p
  proof -
    obtain i off sz where e: "p = (i, off, sz)" by (cases p)
    have "length (hex_string n) \<le> 8" if "n < 2 ^ 32" for n using hex_string_length [of n 7] that by simp
    from this [of i] this [of off] this [of sz] have "length (hex_string i) \<le> 8" "length (hex_string off) \<le> 8" "length (hex_string sz) \<le> 8"
      using \<open>stored_ok p\<close> by (simp_all add: e MAX_KERNEL_ARG_def)
    then show ?thesis using h by (simp add: e param_lines_def value_line_def butlast_append)
  qed
  have "list_all fgets_ok (concat (map param_lines ps))" if "list_all stored_ok ps" for ps
    using that by (induction ps) (simp_all add: p)
  then show ?thesis using assms by (simp add: kernel_ok_def function_lines_def butlast_append)
qed

lemma dump_kernel_text:
  assumes "list_all kernel_ok fs"
  shows "\<exists>t. helper_dump_fatbin (Some (kernel_text fs)) None = Inr t \<and> num_funcs t = card (fst ` set fs) \<and> dom (fatbin_funcs t) = fst ` set fs \<and>
    (\<forall>name. fatbin_funcs t name = map_option (foldl store new_function) (map_of fs name))"
proof -
  let ?e = "\<lparr>fatbin_funcs = Map.empty, num_funcs = 0\<rparr>"
  define t where "t = foldl add_function ?e fs"
  have "list_all fgets_ok (concat (map function_lines fs))"
    using assms by (induction fs) (simp_all add: function_lines_fgets)
  note fg = fgets_all_lines [OF this]
  have r: "helper_dump_fatbin (Some (kernel_text fs)) None = Inr t"
    using read_all_functions [OF assms] by (simp add: helper_dump_fatbin_def kernel_text_def fg t_def)
  have a: "num_funcs t = card (fst ` set fs)" "\<And>name. fatbin_funcs t name = map_option (foldl store new_function) (map_of fs name)"
    using add_functions [of ?e fs] by (simp_all add: t_def Let_def)
  have d: "dom (fatbin_funcs t) = fst ` set fs" by (simp add: dom_def a(2) flip: dom_map_of_conv_image_fst)
  from r a d show ?thesis by (intro exI [of _ t]) simp
qed

text \<open>The table of kernels read from the output of \<open>cuobjdump\<close> has exactly the kernels that were printed: for each name the first one, with its number of
  parameters and with the printed sizes at their ordinals, and the counter of functions is the number of names.\<close>

theorem kernel_table_complete:
  assumes "list_all kernel_ok fs"
  shows "\<exists>t. helper_dump_fatbin (Some (kernel_text fs)) None = Inr t \<and> num_funcs t = card (fst ` set fs) \<and> dom (fatbin_funcs t) = fst ` set fs \<and>
    (\<forall>name ps. map_of fs name = Some ps \<longrightarrow> (\<exists>f. fatbin_funcs t name = Some f \<and> argc f = length ps \<and>
       args f = map (\<lambda>i. \<lparr>is_handle = False, arg_size = (case map_of ps i of None \<Rightarrow> 0 | Some (off, sz) \<Rightarrow> of_nat sz)\<rparr>) [0..<MAX_KERNEL_ARG]))"
proof -
  from dump_kernel_text [OF assms] obtain t where r: "helper_dump_fatbin (Some (kernel_text fs)) None = Inr t" and a: "num_funcs t = card (fst ` set fs)"
    and d: "dom (fatbin_funcs t) = fst ` set fs" and n: "\<forall>name. fatbin_funcs t name = map_option (foldl store new_function) (map_of fs name)" by (elim exE conjE)
  have "\<exists>f. fatbin_funcs t name = Some f \<and> argc f = length ps \<and>
      args f = map (\<lambda>i. \<lparr>is_handle = False, arg_size = (case map_of ps i of None \<Rightarrow> 0 | Some (off, sz) \<Rightarrow> of_nat sz)\<rparr>) [0..<MAX_KERNEL_ARG]"
    if m: "map_of fs name = Some ps" for name ps
  proof -
    have "kernel_ok (name, ps)" using assms map_of_SomeD [OF m] by (simp add: list_all_iff)
    then show ?thesis using stored_function spec [OF n, of name] m by simp
  qed
  with r a d show ?thesis by (intro exI [of _ t] conjI allI impI)
qed

theorem kernel_table_complete_witness:
  "\<exists>t f. helper_dump_fatbin (Some (kernel_text [(''_Z1aPfi'', [(1, 8, 4), (0, 0, 8)]), (''_Z1bv'', [])])) None = Inr t \<and> num_funcs t = 2 \<and>
     fatbin_funcs t ''_Z1aPfi'' = Some f \<and> argc f = 2 \<and> arg_size (args f ! 0) = 8 \<and> arg_size (args f ! 1) = 4"
proof -
  let ?fs = "[(''_Z1aPfi'', [(1, 8, 4), (0, 0, 8)]), (''_Z1bv'', [])] :: (string \<times> (nat \<times> nat \<times> nat) list) list"
  have k: "list_all kernel_ok ?fs" by (simp add: kernel_ok_def MAX_KERNEL_ARG_def)
  from kernel_table_complete [OF k] obtain t where t: "helper_dump_fatbin (Some (kernel_text ?fs)) None = Inr t" "num_funcs t = card (fst ` set ?fs)"
    "\<forall>name ps. map_of ?fs name = Some ps \<longrightarrow> (\<exists>f. fatbin_funcs t name = Some f \<and> argc f = length ps \<and>
       args f = map (\<lambda>i. \<lparr>is_handle = False, arg_size = (case map_of ps i of None \<Rightarrow> 0 | Some (off, sz) \<Rightarrow> of_nat sz)\<rparr>) [0..<MAX_KERNEL_ARG])"
    by (elim exE conjE)
  have "map_of ?fs ''_Z1aPfi'' = Some [(1, 8, 4), (0, 0, 8)]" by simp
  from t(3) [rule_format, OF this] obtain f where "fatbin_funcs t ''_Z1aPfi'' = Some f" "argc f = 2"
    "args f = map (\<lambda>i. \<lparr>is_handle = False, arg_size = (case map_of [(1, 8, 4), (0, 0, 8)] i of None \<Rightarrow> 0 | Some (off, sz) \<Rightarrow> of_nat sz)\<rparr>) [0..<MAX_KERNEL_ARG]"
    by (elim exE conjE) simp
  with t(1,2) show ?thesis by (intro exI [of _ t] exI [of _ f]) (simp add: MAX_KERNEL_ARG_def)
qed

section \<open>Registration and launch\<close>











end
