(* ===== verification/Spec2Isabelle.thy ===== *)
theory Spec2Isabelle
  imports Handle_Pool Shm_Channel Shadow_Buffers Cmd_Handler Hashing Zero_Copy Shadow_Threads Batching Gpu_Manager Guest_Driver Provision_Gpu Worker_Pool
    Gpu_Cluster Galvanic_Manager Descriptor_Pools Device_Addresses Kernel_Info
begin

text \<open>
  \<^bold>\<open>AvA, automatic virtualization of accelerators\<close>

  AvA lets an application in a virtual machine use an accelerator through an API-remoting stack. A stub library in the guest, generated from
  a specification of the API, marshals every call into a \<^emph>\<open>command\<close>, sends it over a \<^emph>\<open>command channel\<close> to a worker (the API server), and waits for
  the answer. The worker dispatches the command to generated code that calls the real API. Objects of the API cross the channel as
  identifiers, buffers as offsets into the command's data region, and commands that create live objects are recorded in a log so
  that a worker can be migrated by replaying them. Managers assign GPUs to workers, and two kernel drivers provide shared and
  zero-copy memory. This development models these run-time parts and proves the properties that make them correct. All of
  it is about the C and C++ sources under \<open>src/\<close>; file names below are relative to it.

  \<^bold>\<open>Theories and the code they model\<close>

  \<^descr>[\<open>Ava_Prelude\<close>] types (\<open>u8\<close>, \<open>u32\<close>, \<open>u64\<close>, \<open>pointer\<close>, \<open>bytes\<close>), results \<open>'a res\<close> whose left side is a \<open>fault\<close> (failed assertion, abort or C++ exception,
    exit, null dereference, use after free, double free, out of bounds, uninitialised read, exhausted fuel), byte images of words, bounds checked memory.
  \<^descr>[\<open>Block_Allocator\<close>] the contract of allocators of consecutive blocks (locale \<open>bump_allocator\<close>), interpreted in \<open>Zero_Copy\<close> and \<open>Guest_Driver\<close>.
  \<^descr>[\<open>Id_Gen\<close>, \<open>Handle_Pool\<close>] identifiers and handle pools of \<open>common/endpoint_lib.c\<close> (\<open>next_id\<close>, \<open>update_next_id\<close>, \<open>nw_handle_pool_*\<close>). A hash table is a
    partial map. Locale \<open>id_source\<close> is the promise of the generator to the pool.
  \<^descr>[\<open>Commands\<close>] \<open>struct command_base\<close> of \<open>include/cmd_channel.h\<close> and its memory image.
  \<^descr>[\<open>Transport\<close>, \<open>Socket_Channel\<close>] \<open>send_socket\<close> and \<open>recv_socket\<close> of \<open>common/socket.cpp\<close>, and the operations of \<open>common/cmd_channel_socket_utilities.cpp\<close>.
    Locale \<open>buffer_channel\<close> is what every channel promises about attached buffers; it is interpreted for the socket channel and both sides of the
    shared memory channel.
  \<^descr>[\<open>Shm_Channel\<close>] \<open>common/cmd_channel_shm.c\<close> and \<open>common/cmd_channel_shm_worker.c\<close>; locale \<open>param_ring\<close> covers the reservations of both halves.
  \<^descr>[\<open>Log_Channel\<close>] the command log of \<open>common/cmd_channel_record.c\<close> over an explicit file.
  \<^descr>[\<open>Endpoint\<close>, \<open>Shadow_Buffers\<close>] bookkeeping of \<open>common/endpoint_lib.c\<close>: metadata, pending calls, managed and coupled buffers with reference counts,
    recorded calls, shadow buffers and their header format.
  \<^descr>[\<open>Object_Extraction\<close>] \<open>ava_extract_objects\<close> and its variant for pairs: traversal of dependencies and forwarding of recorded calls.
  \<^descr>[\<open>Cmd_Handler\<close>] \<open>common/cmd_handler.c\<close>: registration, dispatch, and the internal API with migration.
  \<^descr>[\<open>Hashing\<close>] \<open>common/murmur3.c\<close> and the pointer and structure hashes; locale \<open>block_mixer\<close> for the three body rounds.
  \<^descr>[\<open>Zero_Copy\<close>] \<open>common/zcopy.c\<close> and \<open>hostdrv/zerocopy.c\<close>.
  \<^descr>[\<open>Guest_Driver\<close>] \<open>guestdrv/vgpu_ldd.c\<close>.
  \<^descr>[\<open>Shadow_Threads\<close>] \<open>common/shadow_thread_pool.c\<close>, with the interleaving of its threads as the step relation \<open>pool_step\<close>.
  \<^descr>[\<open>Batching\<close>] \<open>guestlib/extensions/cmd_batching.c\<close> and \<open>worker/extensions/cmd_batching.c\<close>.
  \<^descr>[\<open>Server_Address\<close>, \<open>Gpu_Manager\<close>] \<open>worker/katana/manager.h\<close> (the same file as \<open>worker/galvanic/manager.h\<close>) and \<open>worker/katana/manager.cpp\<close>.
  \<^descr>[\<open>Provision_Gpu\<close>] \<open>worker/provision_gpu.cpp\<close>.
  \<^descr>[\<open>Spawn_Daemon\<close>, \<open>Gpu_Cluster\<close>] the daemons that start API servers, \<open>worker/katana/spawn_daemon.cpp\<close> and \<open>worker/galvanic/spawn_daemon.cpp\<close>, with the environment that the
    worker reads in \<open>worker/worker.cpp\<close>; and manager, daemons and workers together.
  \<^descr>[\<open>Galvanic_Manager\<close>] the assignment of \<open>worker/galvanic/manager.cpp\<close>.
  \<^descr>[\<open>Descriptor_Pools\<close>] the pools of descriptors and events of \<open>guestlib/extensions/tf_optimization.c\<close> and \<open>worker/extensions/tf_optimization.c\<close>, with the functions of
    \<open>cava/samples/onnxruntime/onnx_opt.c\<close> in front of them.
  \<^descr>[\<open>Device_Addresses\<close>] call configurations and the set of device addresses of \<open>cava/samples/onnxruntime/onnx_opt.c\<close>. A GLib tree is a binary tree; its insertion is a parameter.
  \<^descr>[\<open>Kernel_Info\<close>] the helpers of \<open>cava/samples/cudart.nw.c\<close> for kernels: the table read from \<open>cuobjdump\<close>, registration, launch, and the parser of mangled names.
  \<^descr>[\<open>Worker_Pool\<close>] the pools of idle workers of \<open>worker/nvidia_gpu/manager_nv.cpp\<close>.

  State is passed explicitly. Every definition keeps the name of the function it models where possible, and every branch of the code is a branch of the
  definition. Code outside the repository and the operating system are parameters: \<open>malloc\<close>, \<open>write\<close>, \<open>send\<close> and \<open>recv\<close> (with a hypothesis that they make
  progress), GLib's sort and hash iteration order, \<open>std::sort\<close>, the kernel interfaces, \<open>fork\<close> and \<open>execvpe\<close>, gRPC replies, NVML and the CUDA libraries, and the
  generated API handlers.

  \<^bold>\<open>What the lemmas show\<close>

  \<^item> Identifiers: no two are equal, in every interleaving; pools dereference every identifier they handed out; replay leaves the generator ahead.
  \<^item> Channels: a command with its buffers arrives whole and in order, over sockets and over shared memory; the halves of the parameter block do not
    overlap; a recording session behaves as an append-only list.
  \<^item> Endpoint: pending calls refine an abstract table, cached buffers are stable, shadow buffers stay consistent with the table of records.
  \<^item> Migration: extraction ends on every dependency graph and forwards exactly the recorded calls of reachable objects, each once and in order;
    a migrating worker replays exactly these into a fresh pool.
  \<^item> Concurrency: shadow threads execute the commands of their thread in order; batching keeps the order of commands whatever the timing.
  \<^item> Memory: zero-copy allocations and shared memory mappings are disjoint and inside their region; pointers survive the change of side.
  \<^item> GPUs: assignment is all or nothing and keeps the account of memory, follows the documented preference, and the end of a worker
    returns its memory; provisioning refines a counter of memory in use; pooled workers are handed out once, on the chosen GPU.
  \<^item> Cluster: a daemon registers exactly the GPUs of its file; an assigned API server comes up with the requested GPUs and sizes, is monitored, and its exit
    restores every GPU of the manager; the galvanic assignment is the general one for a request of one GPU.
  \<^item> Extensions: descriptor pools are transparent for the application and leave nothing behind; device pointers are recognised exactly; host functions launch
    the kernel they are registered for with the argument sizes printed for it; handles are recognised from mangled names.
  \<^item> Hashes: the mixers are bijections, and keys that differ in one block differ in their hash.
  \<^item> Error paths: lemmas that exhibit what the code does where it departs from its intention, e.g. module loading that reports success after a failure.

  \<^bold>\<open>Fuel and bounds\<close>

  Loops are structural recursion or have a termination proof, with these exceptions, which take fuel and answer \<open>OutOfFuel\<close> without it: the traversal of
  dependencies (\<open>extract_traverse\<close>; more than the number of objects with metadata is enough, because each object is entered once), \<open>do_batch_execute\<close> (more than the number
  of commands is enough; it runs with one more than the length of the buffer), the mutually recursive handlers of \<open>Cmd_Handler\<close> (more than the number of recorded commands
  is enough for a migration whose objects have no explicit state), and the two functions of \<open>Shadow_Buffers\<close> that call each other (\<open>shadow_fuel\<close>: growing a buffer enters them again
  a bounded number of times). The theorems state that these amounts give the result. Sizes and offsets are 64-bit words; where a theorem needs that an
  addition does not wrap around, the bound is a hypothesis.

  \<^bold>\<open>Not modelled\<close>

  The constructors of the socket and shared memory channels (connecting, accepting, \<open>mmap\<close>), netlink messages and the hypervisor report of \<open>common/cmd_channel_hv.c\<close>; start-up,
  printing and signal handlers of workers, daemons and managers; the socket managers \<open>worker/manager.c\<close> and \<open>worker/manager_tcp.c\<close>, which consist of accept loops and
  process creation; the loading of dumped fat binaries from files; \<open>shadow_thread_pool_free\<close>, which destroys the table under running threads; service
  calls of the GPU manager that run at the same time. The code generator under \<open>cava/\<close> is a Python program on the syntax trees of libclang; its output and the declarations in the
  API specifications that are its input, the tests and the build and VM scripts are not part of the run-time system modelled here.
\<close>

section \<open>The zero-copy region over the guest driver\<close>




end
